(* ===== verification/LCW_Prelude.thy ===== *)
theory LCW_Prelude
  imports Main "HOL-Library.Word" "HOL-Library.Multiset"
begin

text \<open>
  Shared vocabulary of the LCW development: the failure values and the sequencing of fallible
  calls, the C integer conversions the sources perform implicitly, the byte memory behind
  \<^verbatim>\<open>void*\<close>, \<^verbatim>\<open>memcpy\<close> and \<^verbatim>\<open>atoi\<close> of the C library, and the ownership discipline of
  heap objects (every live object has exactly one owner) with the lemmas by which an
  operation that allocates, frees, moves or reorders owned objects keeps it.
\<close>

named_theorems res_simps \<open>sequencing of fallible calls\<close>
named_theorems ownership \<open>operations on owned heap objects\<close>

section \<open>Failures and sequencing\<close>

text \<open>
  \<open>Assert_failed\<close> is a failing \<^verbatim>\<open>LCW_Assert\<close> (LCT aborts the process), \<open>Abort\<close> an explicit
  \<^verbatim>\<open>abort()\<close>, \<open>Exception\<close> a thrown C++ exception, \<open>Exit\<close> an \<^verbatim>\<open>exit\<close>. The others are the
  undefined behaviours the C++ code can run into, kept apart from every normal result:
  a dangling or null pointer, a cast to the wrong class, a read of an uninitialised variable,
  and \<open>Undefined\<close> for any other violated precondition of a standard library function.
  \<open>Blocked\<close> is a blocking call that never returns as long as no other thread acts.
\<close>

datatype error =
    Assert_failed string
  | Abort string
  | Exception string
  | Exit int
  | Bad_pointer
  | Bad_cast
  | Uninit_read
  | Undefined
  | Blocked

type_synonym 'a res = "error + 'a"

definition bind_res :: "'a res \<Rightarrow> ('a \<Rightarrow> 'b res) \<Rightarrow> 'b res" where
  "bind_res r f = (case r of Inl e \<Rightarrow> Inl e | Inr x \<Rightarrow> f x)"

lemma bind_res_Inl [simp, res_simps]: "bind_res (Inl e) f = Inl e"
  by (simp add: bind_res_def)

lemma bind_res_Inr [simp, res_simps]: "bind_res (Inr x) f = f x"
  by (simp add: bind_res_def)

lemma bind_res_eq_Inr [res_simps]:
  "bind_res r f = Inr y \<longleftrightarrow> (\<exists>x. r = Inr x \<and> f x = Inr y)"
  by (cases r) auto

lemma bind_res_eq_Inl [res_simps]:
  "bind_res r f = Inl e \<longleftrightarrow> r = Inl e \<or> (\<exists>x. r = Inr x \<and> f x = Inl e)"
  by (cases r) auto

lemma bind_resE:
  assumes "bind_res r f = Inr y"
  obtains x where "r = Inr x" and "f x = Inr y"
  using assms by (auto simp: bind_res_eq_Inr)

lemma bind_res_cong [fundef_cong]:
  "r = r' \<Longrightarrow> (\<And>x. r' = Inr x \<Longrightarrow> f x = g x) \<Longrightarrow> bind_res r f = bind_res r' g"
  by (cases r') auto

definition lcw_assert :: "bool \<Rightarrow> string \<Rightarrow> unit res" where
  "lcw_assert b msg = (if b then Inr () else Inl (Assert_failed msg))"

lemma lcw_assert_simps [simp, res_simps]:
  "lcw_assert True msg = Inr ()"
  "lcw_assert False msg = Inl (Assert_failed msg)"
  "lcw_assert b msg = Inr u \<longleftrightarrow> b"
  by (simp_all add: lcw_assert_def)

text \<open>Dereferencing a pointer to an object of a typed heap.\<close>

definition deref :: "('k \<rightharpoonup> 'v) \<Rightarrow> 'k \<Rightarrow> 'v res" where
  "deref h p = (case h p of None \<Rightarrow> Inl Bad_pointer | Some v \<Rightarrow> Inr v)"

lemma deref_Some [simp, res_simps]: "h p = Some v \<Longrightarrow> deref h p = Inr v"
  by (simp add: deref_def)

lemma deref_None [simp, res_simps]: "h p = None \<Longrightarrow> deref h p = Inl Bad_pointer"
  by (simp add: deref_def)

lemma deref_eq_Inr [res_simps]: "deref h p = Inr v \<longleftrightarrow> h p = Some v"
  by (auto simp: deref_def split: option.splits)

section \<open>C integers\<close>

text \<open>
  Values of integer type are \<open>int\<close>; where the sources convert between widths the conversion is
  written out: \<open>to_int\<close> is the conversion to the 32-bit \<^verbatim>\<open>int\<close>, \<open>to_int64\<close> to \<^verbatim>\<open>int64_t\<close>,
  \<open>to_size\<close> to the 64-bit unsigned \<^verbatim>\<open>size_t\<close>.
\<close>

definition int_max :: int where
  "int_max = 2147483647"

definition to_int :: "int \<Rightarrow> int" where
  "to_int x = sint (word_of_int x :: 32 word)"

definition to_int64 :: "int \<Rightarrow> int" where
  "to_int64 x = sint (word_of_int x :: 64 word)"

definition to_size :: "int \<Rightarrow> int" where
  "to_size x = uint (word_of_int x :: 64 word)"

definition is_int :: "int \<Rightarrow> bool" where
  "is_int x \<longleftrightarrow> - 2147483648 \<le> x \<and> x \<le> 2147483647"

definition is_int64 :: "int \<Rightarrow> bool" where
  "is_int64 x \<longleftrightarrow> - 9223372036854775808 \<le> x \<and> x \<le> 9223372036854775807"

lemma to_int_mod: "to_int x = (x + 2 ^ 31) mod 2 ^ 32 - 2 ^ 31"
  by (simp add: to_int_def sint_sbintrunc' signed_take_bit_eq_take_bit_shift take_bit_eq_mod)

lemma to_int64_mod: "to_int64 x = (x + 2 ^ 63) mod 2 ^ 64 - 2 ^ 63"
  by (simp add: to_int64_def sint_sbintrunc' signed_take_bit_eq_take_bit_shift take_bit_eq_mod)

lemma to_size_mod: "to_size x = x mod 2 ^ 64"
  by (simp add: to_size_def unsigned_of_int take_bit_eq_mod)

lemma is_int_to_int [simp]: "is_int (to_int x)"
proof -
  have "0 \<le> (x + 2 ^ 31) mod 2 ^ 32" "(x + 2 ^ 31) mod 2 ^ 32 < 2 ^ 32" by simp_all
  then show ?thesis by (simp add: is_int_def to_int_mod)
qed

lemma to_int_id [simp]: "is_int x \<Longrightarrow> to_int x = x"
  by (simp add: to_int_mod is_int_def)

lemma to_int64_id [simp]: "is_int64 x \<Longrightarrow> to_int64 x = x"
  by (simp add: to_int64_mod is_int64_def)

lemma to_size_id [simp]: "0 \<le> x \<Longrightarrow> x < 2 ^ 64 \<Longrightarrow> to_size x = x"
  by (simp add: to_size_mod)

lemma to_size_nonneg [simp]: "0 \<le> to_size x" and to_size_less: "to_size x < 2 ^ 64"
  by (simp_all add: to_size_mod)

lemma to_size_neg:
  assumes "is_int64 x" and "x < 0"
  shows "to_size x = x + 2 ^ 64"
proof -
  have "to_size x = (x + 2 ^ 64) mod 2 ^ 64"
    by (simp only: to_size_mod mod_add_self2)
  also have "\<dots> = x + 2 ^ 64"
    by (rule mod_pos_pos_trivial) (use assms in \<open>simp_all add: is_int64_def\<close>)
  finally show ?thesis .
qed

lemma is_int_is_int64: "is_int x \<Longrightarrow> is_int64 x"
  by (simp add: is_int_def is_int64_def)

section \<open>The C library: \<open>atoi\<close> and \<open>memcpy\<close>\<close>

definition digit_val :: "char \<Rightarrow> int option" where
  "digit_val c = (let n = of_char c in if 48 \<le> n \<and> n \<le> 57 then Some (n - 48) else None)"

fun atoi_digits :: "int \<Rightarrow> string \<Rightarrow> int" where
  "atoi_digits acc [] = acc"
| "atoi_digits acc (c # cs) =
     (case digit_val c of None \<Rightarrow> acc | Some d \<Rightarrow> atoi_digits (10 * acc + d) cs)"

definition is_space :: "char \<Rightarrow> bool" where
  "is_space c = (of_char c \<in> {9, 10, 11, 12, 13, 32 :: int})"

definition atoi :: "string \<Rightarrow> int" where
  "atoi str =
     (case dropWhile is_space str of
        [] \<Rightarrow> 0
      | c # cs \<Rightarrow>
          if c = CHR ''-'' then to_int (- atoi_digits 0 cs)
          else if c = CHR ''+'' then to_int (atoi_digits 0 cs)
          else to_int (atoi_digits 0 (c # cs)))"

type_synonym mem = "nat \<Rightarrow> 8 word"

definition memcpy :: "nat \<Rightarrow> nat \<Rightarrow> nat \<Rightarrow> mem \<Rightarrow> mem" where
  "memcpy dst src n m = (\<lambda>a. if dst \<le> a \<and> a < dst + n then m (src + (a - dst)) else m a)"

definition bytes_at :: "mem \<Rightarrow> nat \<Rightarrow> nat \<Rightarrow> 8 word list" where
  "bytes_at m a n = map (\<lambda>i. m (a + i)) [0..<n]"

lemma length_bytes_at [simp]: "length (bytes_at m a n) = n"
  by (simp add: bytes_at_def)

lemma bytes_at_memcpy [simp]: "bytes_at (memcpy dst src n m) dst n = bytes_at m src n"
  by (simp add: bytes_at_def memcpy_def)

lemma memcpy_outside: "a < dst \<or> dst + n \<le> a \<Longrightarrow> memcpy dst src n m a = m a"
  by (auto simp: memcpy_def)

definition disjoint_blocks :: "nat \<times> nat \<Rightarrow> nat \<times> nat \<Rightarrow> bool" where
  "disjoint_blocks b c \<longleftrightarrow> fst b + snd b \<le> fst c \<or> fst c + snd c \<le> fst b"

lemma bytes_at_cong:
  "(\<And>i. i < n \<Longrightarrow> m (a + i) = m' (a + i)) \<Longrightarrow> bytes_at m a n = bytes_at m' a n"
  by (simp add: bytes_at_def)

lemma bytes_at_memcpy_disjoint:
  "disjoint_blocks (dst, n) (a, k) \<Longrightarrow> bytes_at (memcpy dst src n m) a k = bytes_at m a k"
  by (rule bytes_at_cong) (auto simp: disjoint_blocks_def memcpy_def)

section \<open>Ownership of heap objects\<close>

text \<open>
  \<open>partitioned owns live\<close>: the owners hold disjoint lists of objects without repetition and
  together hold exactly the live ones. With it no object is leaked (a live one has an owner),
  none has two owners (so none is deleted twice), and no owner refers to a deleted one.
\<close>

definition partitioned :: "('o \<Rightarrow> 'a list) \<Rightarrow> 'a set \<Rightarrow> bool" where
  "partitioned owns live \<longleftrightarrow>
     (\<forall>i. distinct (owns i)) \<and>
     (\<forall>i j x. x \<in> set (owns i) \<longrightarrow> x \<in> set (owns j) \<longrightarrow> i = j) \<and>
     (\<forall>x. x \<in> live \<longleftrightarrow> (\<exists>i. x \<in> set (owns i)))"

lemma partitionedI:
  assumes "\<And>i. distinct (owns i)"
    and "\<And>i j x. x \<in> set (owns i) \<Longrightarrow> x \<in> set (owns j) \<Longrightarrow> i = j"
    and "\<And>x. x \<in> live \<longleftrightarrow> (\<exists>i. x \<in> set (owns i))"
  shows "partitioned owns live"
  using assms unfolding partitioned_def by blast

lemma partitioned_live: "partitioned owns live \<Longrightarrow> x \<in> live \<longleftrightarrow> (\<exists>i. x \<in> set (owns i))"
  by (simp add: partitioned_def)

lemma partitioned_mem: "partitioned owns live \<Longrightarrow> x \<in> set (owns i) \<Longrightarrow> x \<in> live"
  by (auto simp: partitioned_def)

lemma partitioned_distinct: "partitioned owns live \<Longrightarrow> distinct (owns i)"
  by (simp add: partitioned_def)

lemma partitioned_owner_unique:
  "partitioned owns live \<Longrightarrow> x \<in> set (owns i) \<Longrightarrow> x \<in> set (owns j) \<Longrightarrow> i = j"
  unfolding partitioned_def by blast

lemma mset_eq_add_distinct:
  "mset xs = add_mset x (mset ys) \<Longrightarrow> distinct xs \<longleftrightarrow> x \<notin> set ys \<and> distinct ys"
proof -
  assume "mset xs = add_mset x (mset ys)"
  then have "mset xs = mset (x # ys)" by simp
  then have "distinct xs \<longleftrightarrow> distinct (x # ys)" by (rule mset_eq_imp_distinct_iff)
  then show ?thesis by simp
qed

lemma mset_eq_add_set: "mset xs = add_mset x (mset ys) \<Longrightarrow> set xs = insert x (set ys)"
  by (metis list.simps(15) mset.simps(2) set_mset_mset)

lemma partitioned_alloc [ownership]:
  assumes P: "partitioned owns live" and new: "x \<notin> live"
    and xs: "mset xs = add_mset x (mset (owns i))"
  shows "partitioned (owns(i := xs)) (insert x live)"
proof (rule partitionedI)
  note uniq = partitioned_owner_unique [OF P] and live = partitioned_live [OF P]
  have sxs: "set xs = insert x (set (owns i))" using xs by (rule mset_eq_add_set)
  have fresh: "x \<notin> set (owns j)" for j using new partitioned_mem [OF P] by blast
  show "distinct ((owns(i := xs)) j)" for j
    using mset_eq_add_distinct [OF xs] fresh partitioned_distinct [OF P] by simp
  show "j = k" if "y \<in> set ((owns(i := xs)) j)" "y \<in> set ((owns(i := xs)) k)" for j k y
    using that sxs fresh uniq [of y j k] uniq [of y j i] uniq [of y i k] by (auto split: if_splits)
  show "y \<in> insert x live \<longleftrightarrow> (\<exists>j. y \<in> set ((owns(i := xs)) j))" for y
    using sxs live [of y] by (auto split: if_splits)
qed

lemma partitioned_free [ownership]:
  assumes P: "partitioned owns live" and xs: "mset (owns i) = add_mset x (mset xs)"
  shows "partitioned (owns(i := xs)) (live - {x})"
proof (rule partitionedI)
  note uniq = partitioned_owner_unique [OF P] and live = partitioned_live [OF P]
  have so: "set (owns i) = insert x (set xs)" using xs by (rule mset_eq_add_set)
  have d: "x \<notin> set xs" "distinct xs"
    using mset_eq_add_distinct [OF xs] partitioned_distinct [OF P] by auto
  show "distinct ((owns(i := xs)) j)" for j
    using d partitioned_distinct [OF P] by simp
  show "j = k" if "y \<in> set ((owns(i := xs)) j)" "y \<in> set ((owns(i := xs)) k)" for j k y
  proof -
    have "set ((owns(i := xs)) l) \<subseteq> set (owns l)" for l using so by auto
    with that show ?thesis by (intro uniq) blast+
  qed
  have "y \<in> live \<and> y \<noteq> x \<longleftrightarrow> (\<exists>j. y \<in> set ((owns(i := xs)) j))" for y
  proof
    assume y: "y \<in> live \<and> y \<noteq> x"
    then obtain j where j: "y \<in> set (owns j)" using live by blast
    have "y \<in> set ((owns(i := xs)) j)" using j y so by (cases "j = i") auto
    then show "\<exists>j. y \<in> set ((owns(i := xs)) j)" by blast
  next
    assume "\<exists>j. y \<in> set ((owns(i := xs)) j)"
    then obtain j where j: "y \<in> set ((owns(i := xs)) j)" by blast
    then have "y \<in> set (owns j)" using so by (cases "j = i") auto
    moreover have "y \<noteq> x"
    proof
      assume "y = x"
      with \<open>y \<in> set (owns j)\<close> so have "j = i" by (intro uniq) auto
      with j d(1) \<open>y = x\<close> show False by simp
    qed
    ultimately show "y \<in> live \<and> y \<noteq> x" using live by blast
  qed
  then show "y \<in> live - {x} \<longleftrightarrow> (\<exists>j. y \<in> set ((owns(i := xs)) j))" for y by simp
qed

lemma partitioned_permute [ownership]:
  assumes P: "partitioned owns live" and xs: "mset xs = mset (owns i)"
  shows "partitioned (owns(i := xs)) live"
proof (rule partitionedI)
  have sxs: "set xs = set (owns i)" using xs by (metis set_mset_mset)
  show "distinct ((owns(i := xs)) j)" for j
    using mset_eq_imp_distinct_iff [OF xs] partitioned_distinct [OF P] by simp
  show "j = k" if "y \<in> set ((owns(i := xs)) j)" "y \<in> set ((owns(i := xs)) k)" for j k y
  proof -
    have "set ((owns(i := xs)) l) = set (owns l)" for l using sxs by simp
    with that show ?thesis by (intro partitioned_owner_unique [OF P]) blast+
  qed
  show "y \<in> live \<longleftrightarrow> (\<exists>j. y \<in> set ((owns(i := xs)) j))" for y
    using sxs partitioned_live [OF P, of y] by (auto split: if_splits)
qed

text \<open>A new owner that owns nothing yet, and an owner that goes away, change nothing else.\<close>

lemma partitioned_same: "partitioned owns live \<Longrightarrow> (\<And>i. owns' i = owns i) \<Longrightarrow> partitioned owns' live"
  by (simp add: partitioned_def)

end
