(* ===== verification/LCW_Types.thy ===== *)
theory LCW_Types
  imports LCW_Prelude
begin

text \<open>
  The data of the public API (\<^verbatim>\<open>src/src/api/lcw.hpp\<close>), the build-time switches, the state
  every part of the library shares and the parameters that stand for code outside the
  repository (LCT and the memory allocator), as one record \<open>env\<close> that the operations take as
  an argument. The backends extend both records.

  A pointer is a natural number, the null pointer is 0. Objects made by \<^verbatim>\<open>new\<close> live in typed
  heaps: \<open>heap\<close> for \<^verbatim>\<open>request_t\<close>, \<open>comps\<close> for completion objects; \<open>next_obj\<close> is an address no
  \<^verbatim>\<open>new\<close> has returned yet. Calls into LCT's performance counters, into user handlers and the
  life cycle of MPI datatypes have no result in LCW and are recorded in \<open>trace\<close>.
\<close>

section \<open>The public data types\<close>

datatype backend_t = AUTO | LCI | MPI | LCI2 | GEX

datatype op_t = SEND | RECV | PUT | PUT_SIGNAL

type_synonym ptr = nat

abbreviation (input) nullptr :: ptr where
  "nullptr \<equiv> 0"

record request_t =
  req_op :: op_t
  req_device :: ptr
  req_rank :: int
  req_tag :: int
  req_buffer :: ptr
  req_length :: int
  req_user_context :: ptr

text \<open>A \<^verbatim>\<open>handler_t\<close> is a pointer to a user function, known by its address.\<close>

type_synonym handler_t = nat

section \<open>Build-time configuration\<close>

record build_flags =
  LCW_ENABLE_BACKEND_LCI :: bool
  LCW_ENABLE_BACKEND_MPI :: bool
  LCW_ENABLE_BACKEND_LCI2 :: bool
  LCW_ENABLE_BACKEND_GEX :: bool
  LCW_ENABLE_PCOUNTER :: bool
  LCW_DEBUG :: bool
  LCW_MPI_USE_STREAM :: bool
  LCW_MPI_USE_CONT :: bool
  APPLE :: bool

section \<open>Performance counters and observable calls\<close>

datatype pcounter_handle =
    put_start | put_end | put_retry
  | send_start | send_end | send_retry
  | recv_start | recv_end | recv_retry
  | put_signal | comp_produce | comp_consume | comp_poll | progress
  | put_timer | send_timer | recv_timer

datatype pcounter_type = LCT_PCOUNTER_NONE | LCT_PCOUNTER_TREND | LCT_PCOUNTER_TIMER

datatype mpi_datatype =
    MPI_BYTE
  | MPI_CHAR
  | Type_vector int int int mpi_datatype
  | Type_contiguous int mpi_datatype
  | Type_struct "(int \<times> int \<times> mpi_datatype) list"

datatype event =
    Handler_call handler_t request_t
  | Pcounter_ctx_alloc string
  | Pcounter_register pcounter_handle pcounter_type
  | Pcounter_add pcounter_handle int
  | Pcounter_start pcounter_handle
  | Pcounter_end pcounter_handle
  | Pcounter_ctx_free
  | Type_created mpi_datatype
  | Type_commit mpi_datatype
  | Type_free mpi_datatype

section \<open>Shared state and external code\<close>

text \<open>
  \<open>'q\<close> is the representation of an LCT queue. \<open>blocks\<close> are the live byte blocks handed out by
  allocators, with their sizes, and \<open>mem\<close> is the byte memory they lie in. \<open>m_allocator\<close> is the
  member of the one backend object.
\<close>

datatype 'q comp_obj = Comp_cq 'q | Comp_handler handler_t

text \<open>
  An allocator is the library default (\<^verbatim>\<open>malloc\<close>) or a user object behind
  \<^verbatim>\<open>allocator_base_t\<close>. What it returns for a request depends on the blocks that are live;
  0 is failure.
\<close>

datatype allocator_t = Alloc_default | Alloc_custom ptr

record 'q rt =
  heap :: "ptr \<rightharpoonup> request_t"
  comps :: "ptr \<rightharpoonup> 'q comp_obj"
  next_obj :: ptr
  mem :: mem
  blocks :: "(ptr \<times> nat) list"
  trace :: "event list"
  m_allocator :: allocator_t

datatype lct_queue_type =
    LCT_QUEUE_ARRAY_ATOMIC_FAA
  | LCT_QUEUE_ARRAY_ATOMIC_CAS
  | LCT_QUEUE_ARRAY_ATOMIC_BASIC
  | LCT_QUEUE_ARRAY_MUTEX
  | LCT_QUEUE_STD_MUTEX
  | LCT_QUEUE_MS
  | LCT_QUEUE_LCRQ
  | LCT_QUEUE_LPRQ
  | LCT_QUEUE_FAAARRAY
  | LCT_QUEUE_LAZY_INDEX

record 'q env =
  build :: build_flags
  LCT_queue_alloc :: "lct_queue_type \<Rightarrow> int \<Rightarrow> 'q"
  LCT_queue_push :: "'q \<Rightarrow> ptr \<Rightarrow> 'q"
  LCT_queue_pop :: "'q \<Rightarrow> ptr \<times> 'q"
  allocate :: "allocator_t \<Rightarrow> int \<Rightarrow> (ptr \<times> nat) list \<Rightarrow> ptr"

text \<open>
  What LCW relies on of an LCT queue of type LCRQ: it is a first-in first-out queue of non-null
  pointers whose pop returns null exactly on the empty queue. \<open>view q\<close> lists its elements.
\<close>

definition lct_queue_fifo :: "('q, 'e) env_scheme \<Rightarrow> ('q \<Rightarrow> ptr list) \<Rightarrow> bool" where
  "lct_queue_fifo E view \<longleftrightarrow>
     (\<forall>n. view (LCT_queue_alloc E LCT_QUEUE_LCRQ n) = []) \<and>
     (\<forall>q a. a \<noteq> nullptr \<longrightarrow> view (LCT_queue_push E q a) = view q @ [a]) \<and>
     (\<forall>q. view q = [] \<longrightarrow> fst (LCT_queue_pop E q) = nullptr \<and> view (snd (LCT_queue_pop E q)) = []) \<and>
     (\<forall>q a as. view q = a # as \<longrightarrow> fst (LCT_queue_pop E q) = a \<and> view (snd (LCT_queue_pop E q)) = as)"

text \<open>What LCW relies on of an allocator: a block it returns overlaps no live block.\<close>

definition allocator_fresh :: "('q, 'e) env_scheme \<Rightarrow> bool" where
  "allocator_fresh E \<longleftrightarrow>
     (\<forall>a n bs. allocate E a n bs \<noteq> nullptr \<longrightarrow>
        list_all (disjoint_blocks (allocate E a n bs, nat n)) bs)"

section \<open>Objects of type \<open>request_t\<close>\<close>

definition new_request :: "request_t \<Rightarrow> ('q, 'z) rt_scheme \<Rightarrow> ptr \<times> ('q, 'z) rt_scheme" where
  "new_request r s =
     (next_obj s, s\<lparr>heap := (heap s)(next_obj s \<mapsto> r), next_obj := Suc (next_obj s)\<rparr>)"

definition delete_request :: "ptr \<Rightarrow> ('q, 'z) rt_scheme \<Rightarrow> ('q, 'z) rt_scheme res" where
  "delete_request p s =
     (case heap s p of None \<Rightarrow> Inl Bad_pointer | Some _ \<Rightarrow> Inr (s\<lparr>heap := (heap s)(p := None)\<rparr>))"

lemma delete_request_live [simp]:
  "heap s p = Some r \<Longrightarrow> delete_request p s = Inr (s\<lparr>heap := (heap s)(p := None)\<rparr>)"
  by (simp add: delete_request_def)

definition log_event :: "event \<Rightarrow> ('q, 'z) rt_scheme \<Rightarrow> ('q, 'z) rt_scheme" where
  "log_event e s = s\<lparr>trace := trace s @ [e]\<rparr>"

lemma log_event_simps [simp]:
  "heap (log_event e s) = heap s" "comps (log_event e s) = comps s"
  "next_obj (log_event e s) = next_obj s" "mem (log_event e s) = mem s"
  "blocks (log_event e s) = blocks s" "trace (log_event e s) = trace s @ [e]"
  "rt.more (log_event e s) = rt.more s"
  by (simp_all add: log_event_def)

text \<open>Fresh addresses: every object lies below \<open>next_obj\<close> and none at the null address.\<close>

definition fresh_ok :: "('q, 'z) rt_scheme \<Rightarrow> bool" where
  "fresh_ok s \<longleftrightarrow>
     0 < next_obj s \<and>
     (\<forall>p\<in>dom (heap s). 0 < p \<and> p < next_obj s) \<and>
     (\<forall>p\<in>dom (comps s). 0 < p \<and> p < next_obj s)"

lemma fresh_ok_next [simp]:
  assumes "fresh_ok s"
  shows "heap s (next_obj s) = None" "comps s (next_obj s) = None" "0 < next_obj s"
  using assms by (force simp: fresh_ok_def)+

lemma fresh_ok_grow:
  assumes f: "fresh_ok s" and n: "next_obj s \<le> next_obj s'"
    and "dom (heap s') \<subseteq> dom (heap s) \<union> {next_obj s..<next_obj s'}"
    and "dom (comps s') \<subseteq> dom (comps s) \<union> {next_obj s..<next_obj s'}"
  shows "fresh_ok s'"
proof -
  have pos: "0 < next_obj s" using f by (simp add: fresh_ok_def)
  have lt: "0 < p \<and> p < next_obj s'" if "0 < p \<and> p < next_obj s \<or> next_obj s \<le> p \<and> p < next_obj s'" for p
    using that pos n by linarith
  have "0 < p \<and> p < next_obj s'" if "p \<in> dom (heap s')" for p
  proof (rule lt)
    have "p \<in> dom (heap s) \<or> next_obj s \<le> p \<and> p < next_obj s'" using subsetD [OF assms(3) that] by simp
    then show "0 < p \<and> p < next_obj s \<or> next_obj s \<le> p \<and> p < next_obj s'" using f unfolding fresh_ok_def by blast
  qed
  moreover have "0 < p \<and> p < next_obj s'" if "p \<in> dom (comps s')" for p
  proof (rule lt)
    have "p \<in> dom (comps s) \<or> next_obj s \<le> p \<and> p < next_obj s'" using subsetD [OF assms(4) that] by simp
    then show "0 < p \<and> p < next_obj s \<or> next_obj s \<le> p \<and> p < next_obj s'" using f unfolding fresh_ok_def by blast
  qed
  ultimately show ?thesis using pos n unfolding fresh_ok_def by auto
qed

end
