(* ===== verification/LCW_Comp.thy ===== *)
theory LCW_Comp
  imports LCW_Types
begin

text \<open>
  The completion objects of \<^verbatim>\<open>src/src/comp\<close>: the base class with its virtual \<^verbatim>\<open>signal\<close>, the
  completion queue \<^verbatim>\<open>comp_cq_t\<close> over an LCT queue of heap-allocated requests, and the handler
  \<^verbatim>\<open>comp_handler_t\<close>. The contract of a completion queue is the locale \<open>request_fifo\<close>, a
  first-in first-out queue of requests by value; the queue of \<^verbatim>\<open>cq.cpp\<close> is shown to meet it.
\<close>

section \<open>The classes of \<open>cq.cpp\<close> and \<open>handler.cpp\<close>\<close>

definition comp_cq_new :: "('q, 'e) env_scheme \<Rightarrow> int \<Rightarrow> 'q" where
  "comp_cq_new E default_cq_length = LCT_queue_alloc E LCT_QUEUE_LCRQ default_cq_length"

definition comp_cq_signal ::
  "('q, 'e) env_scheme \<Rightarrow> ptr \<Rightarrow> 'q \<Rightarrow> request_t \<Rightarrow> ('q, 'z) rt_scheme \<Rightarrow> ('q, 'z) rt_scheme" where
  "comp_cq_signal E this cq r s =
     (let (req, s) = new_request r s
      in s\<lparr>comps := (comps s)(this \<mapsto> Comp_cq (LCT_queue_push E cq req))\<rparr>)"

definition comp_cq_poll ::
  "('q, 'e) env_scheme \<Rightarrow> ptr \<Rightarrow> 'q \<Rightarrow> request_t \<Rightarrow> ('q, 'z) rt_scheme \<Rightarrow>
   (bool \<times> request_t \<times> ('q, 'z) rt_scheme) res" where
  "comp_cq_poll E this cq out s =
     (let (req, cq') = LCT_queue_pop E cq;
          s = s\<lparr>comps := (comps s)(this \<mapsto> Comp_cq cq')\<rparr>
      in if req = nullptr then Inr (False, out, s)
         else bind_res (deref (heap s) req) (\<lambda>r.
              bind_res (delete_request req s) (\<lambda>s. Inr (True, r, s))))"

definition comp_handler_signal ::
  "handler_t \<Rightarrow> request_t \<Rightarrow> ('q, 'z) rt_scheme \<Rightarrow> ('q, 'z) rt_scheme" where
  "comp_handler_signal handler r s = log_event (Handler_call handler r) s"

section \<open>The functions of namespace \<open>util\<close>\<close>

text \<open>
  \<^verbatim>\<open>signal_comp\<close> is a virtual call through \<^verbatim>\<open>comp_base_t\<close>; \<^verbatim>\<open>poll_cq\<close> casts to \<^verbatim>\<open>comp_cq_t\<close>, so
  polling a handler is a call on an object of the wrong class. \<^verbatim>\<open>free_cq\<close> deletes through the
  virtual destructor of the base class and accepts the null pointer, as \<^verbatim>\<open>delete\<close> does.
\<close>

definition new_comp :: "'q comp_obj \<Rightarrow> ('q, 'z) rt_scheme \<Rightarrow> ptr \<times> ('q, 'z) rt_scheme" where
  "new_comp c s =
     (next_obj s, s\<lparr>comps := (comps s)(next_obj s \<mapsto> c), next_obj := Suc (next_obj s)\<rparr>)"

definition util_alloc_cq ::
  "('q, 'e) env_scheme \<Rightarrow> int \<Rightarrow> ('q, 'z) rt_scheme \<Rightarrow> ptr \<times> ('q, 'z) rt_scheme" where
  "util_alloc_cq E default_cq_length s =
     new_comp (Comp_cq (comp_cq_new E (to_size default_cq_length))) s"

definition util_free_cq :: "ptr \<Rightarrow> ('q, 'z) rt_scheme \<Rightarrow> ('q, 'z) rt_scheme res" where
  "util_free_cq completion s =
     (if completion = nullptr then Inr s
      else bind_res (deref (comps s) completion) (\<lambda>_.
           Inr (s\<lparr>comps := (comps s)(completion := None)\<rparr>)))"

definition util_poll_cq ::
  "('q, 'e) env_scheme \<Rightarrow> ptr \<Rightarrow> request_t \<Rightarrow> ('q, 'z) rt_scheme \<Rightarrow>
   (bool \<times> request_t \<times> ('q, 'z) rt_scheme) res" where
  "util_poll_cq E completion out s =
     bind_res (deref (comps s) completion) (\<lambda>c.
       case c of Comp_cq q \<Rightarrow> comp_cq_poll E completion q out s
       | Comp_handler _ \<Rightarrow> Inl Bad_cast)"

definition util_alloc_handler ::
  "handler_t \<Rightarrow> ('q, 'z) rt_scheme \<Rightarrow> ptr \<times> ('q, 'z) rt_scheme" where
  "util_alloc_handler handler s = new_comp (Comp_handler handler) s"

definition util_free_handler :: "ptr \<Rightarrow> ('q, 'z) rt_scheme \<Rightarrow> ('q, 'z) rt_scheme res" where
  "util_free_handler handler s =
     (if handler = nullptr then Inr s
      else bind_res (deref (comps s) handler) (\<lambda>c.
           case c of Comp_cq _ \<Rightarrow> Inl Bad_cast
           | Comp_handler _ \<Rightarrow> Inr (s\<lparr>comps := (comps s)(handler := None)\<rparr>)))"

definition util_signal_comp ::
  "('q, 'e) env_scheme \<Rightarrow> ptr \<Rightarrow> request_t \<Rightarrow> ('q, 'z) rt_scheme \<Rightarrow> ('q, 'z) rt_scheme res" where
  "util_signal_comp E completion r s =
     bind_res (deref (comps s) completion) (\<lambda>c.
       case c of Comp_cq q \<Rightarrow> Inr (comp_cq_signal E completion q r s)
       | Comp_handler h \<Rightarrow> Inr (comp_handler_signal h r s))"

section \<open>The contract of a completion queue\<close>

text \<open>
  Any sequence of signals and polls: what was signalled, and what the polls that returned
  \<^verbatim>\<open>true\<close> delivered, in order. Each poll is given the previous contents of \<^verbatim>\<open>*request\<close>.
\<close>

datatype cq_call = Call_signal request_t | Call_poll

fun signalled :: "cq_call list \<Rightarrow> request_t list" where
  "signalled [] = []"
| "signalled (Call_signal r # cs) = r # signalled cs"
| "signalled (Call_poll # cs) = signalled cs"

fun cq_run ::
  "(request_t \<Rightarrow> 's \<Rightarrow> 's res) \<Rightarrow> (request_t \<Rightarrow> 's \<Rightarrow> (bool \<times> request_t \<times> 's) res) \<Rightarrow>
   cq_call list \<Rightarrow> request_t \<Rightarrow> 's \<Rightarrow> (request_t list \<times> 's) res" where
  "cq_run sig poll [] out s = Inr ([], s)"
| "cq_run sig poll (Call_signal r # cs) out s = bind_res (sig r s) (cq_run sig poll cs out)"
| "cq_run sig poll (Call_poll # cs) out s =
     bind_res (poll out s) (\<lambda>(ok, out, s).
     bind_res (cq_run sig poll cs out s) (\<lambda>(rs, s). Inr (if ok then out # rs else rs, s)))"

locale request_fifo =
  fixes inv :: "'s \<Rightarrow> bool"
    and contents :: "'s \<Rightarrow> request_t list"
    and signal :: "request_t \<Rightarrow> 's \<Rightarrow> 's res"
    and poll :: "request_t \<Rightarrow> 's \<Rightarrow> (bool \<times> request_t \<times> 's) res"
  assumes signal_ok:
      "inv s \<Longrightarrow> \<exists>s'. signal r s = Inr s' \<and> inv s' \<and> contents s' = contents s @ [r]"
    and poll_empty:
      "inv s \<Longrightarrow> contents s = [] \<Longrightarrow>
       \<exists>s'. poll out s = Inr (False, out, s') \<and> inv s' \<and> contents s' = []"
    and poll_front:
      "inv s \<Longrightarrow> contents s = r # rs \<Longrightarrow>
       \<exists>s'. poll out s = Inr (True, r, s') \<and> inv s' \<and> contents s' = rs"
begin

text \<open>
  Whatever the interleaving, what has been delivered followed by what is still queued is what
  was queued at first followed by what was signalled: nothing lost, duplicated or reordered.
\<close>

lemma run_fifo:
  "inv s \<Longrightarrow>
   \<exists>rs s'. cq_run signal poll cs out s = Inr (rs, s') \<and> inv s' \<and>
           rs @ contents s' = contents s @ signalled cs"
proof (induction cs arbitrary: s out)
  case Nil
  then show ?case by simp
next
  case (Cons c cs)
  show ?case
  proof (cases c)
    case (Call_signal r)
    obtain s1 where s1: "signal r s = Inr s1" "inv s1" "contents s1 = contents s @ [r]"
      using signal_ok [OF Cons.prems] by blast
    then show ?thesis using Cons.IH [OF s1(2), of out] Call_signal by auto
  next
    case Call_poll
    show ?thesis
    proof (cases "contents s")
      case Nil
      obtain s1 where s1: "poll out s = Inr (False, out, s1)" "inv s1" "contents s1 = []"
        using poll_empty [OF Cons.prems Nil] by blast
      then show ?thesis using Cons.IH [OF s1(2), of out] Call_poll Nil by auto
    next
      case (Cons r rs)
      obtain s1 where s1: "poll out s = Inr (True, r, s1)" "inv s1" "contents s1 = rs"
        using poll_front [OF Cons.prems Cons] by blast
      then show ?thesis using Cons.IH [OF s1(2), of r] Call_poll Cons by auto
    qed
  qed
qed

lemma run_signals:
  "inv s \<Longrightarrow>
   \<exists>s'. inv s' \<and> contents s' = contents s @ rs \<and>
        (\<forall>ds out. cq_run signal poll (map Call_signal rs @ ds) out s = cq_run signal poll ds out s')"
proof (induction rs arbitrary: s)
  case Nil
  then show ?case by auto
next
  case (Cons r rs)
  obtain s1 where s1: "signal r s = Inr s1" "inv s1" "contents s1 = contents s @ [r]"
    using signal_ok [OF Cons.prems] by blast
  then show ?case using Cons.IH [OF s1(2)] by auto
qed

text \<open>Once as many polls as elements have been made with no signal between, the queue is empty.\<close>

lemma run_drain:
  "inv s \<Longrightarrow> length (contents s) \<le> n \<Longrightarrow>
   \<exists>s'. cq_run signal poll (replicate n Call_poll) out s = Inr (contents s, s') \<and> inv s' \<and>
        contents s' = []"
proof (induction n arbitrary: s out)
  case 0
  then show ?case by simp
next
  case (Suc n)
  show ?case
  proof (cases "contents s")
    case Nil
    obtain s1 where s1: "poll out s = Inr (False, out, s1)" "inv s1" "contents s1 = []"
      using poll_empty [OF Suc.prems(1) Nil] by blast
    then show ?thesis using Suc.IH [OF s1(2), of out] Nil by auto
  next
    case (Cons r rs)
    obtain s1 where s1: "poll out s = Inr (True, r, s1)" "inv s1" "contents s1 = rs"
      using poll_front [OF Suc.prems(1) Cons] by blast
    then show ?thesis using Suc.IH [OF s1(2), of r] Suc.prems(2) Cons by auto
  qed
qed

end

section \<open>The queue of \<open>cq.cpp\<close> meets the contract\<close>

definition cq_ids :: "('q \<Rightarrow> ptr list) \<Rightarrow> ptr \<Rightarrow> ('q, 'z) rt_scheme \<Rightarrow> ptr list" where
  "cq_ids view c s = (case comps s c of Some (Comp_cq q) \<Rightarrow> view q | _ \<Rightarrow> [])"

definition cq_contents :: "('q \<Rightarrow> ptr list) \<Rightarrow> ptr \<Rightarrow> ('q, 'z) rt_scheme \<Rightarrow> request_t list" where
  "cq_contents view c s = map (\<lambda>p. the (heap s p)) (cq_ids view c s)"

definition is_cq :: "ptr \<Rightarrow> ('q, 'z) rt_scheme \<Rightarrow> bool" where
  "is_cq c s \<longleftrightarrow> (case comps s c of Some (Comp_cq q) \<Rightarrow> True | _ \<Rightarrow> False)"

definition cq_inv ::
  "('q, 'e) env_scheme \<Rightarrow> ('q \<Rightarrow> ptr list) \<Rightarrow> ptr \<Rightarrow> ('q, 'z) rt_scheme \<Rightarrow> bool" where
  "cq_inv E view c s \<longleftrightarrow>
     lct_queue_fifo E view \<and> fresh_ok s \<and> is_cq c s \<and>
     distinct (cq_ids view c s) \<and> set (cq_ids view c s) \<subseteq> dom (heap s)"

lemma is_cqE:
  assumes "is_cq c s"
  obtains q where "comps s c = Some (Comp_cq q)"
  using assms by (auto simp: is_cq_def split: option.splits comp_obj.splits)

lemma cq_signal_ok:
  assumes inv: "cq_inv E view c s"
  shows "\<exists>s'. util_signal_comp E c r s = Inr s' \<and> cq_inv E view c s' \<and>
           cq_contents view c s' = cq_contents view c s @ [r]"
proof -
  from inv obtain q where q: "comps s c = Some (Comp_cq q)"
    by (auto simp: cq_inv_def elim: is_cqE)
  define s' where "s' = comp_cq_signal E c q r s"
  have f: "lct_queue_fifo E view" "fresh_ok s" and ids: "distinct (view q)" "set (view q) \<subseteq> dom (heap s)"
    using inv q by (auto simp: cq_inv_def cq_ids_def)
  have sub: "next_obj s \<notin> set (view q)" using ids f by (auto simp: domIff)
  have v: "view (LCT_queue_push E q (next_obj s)) = view q @ [next_obj s]"
    using f by (simp add: lct_queue_fifo_def)
  have ids': "cq_ids view c s' = view q @ [next_obj s]"
    by (simp add: s'_def comp_cq_signal_def new_request_def cq_ids_def v)
  have h': "heap s' = (heap s)(next_obj s \<mapsto> r)" "next_obj s' = Suc (next_obj s)"
    by (simp_all add: s'_def comp_cq_signal_def new_request_def)
  have fresh': "fresh_ok s'"
    using f q by (fastforce simp: fresh_ok_def s'_def comp_cq_signal_def new_request_def less_Suc_eq)
  have isc: "is_cq c s'" by (simp add: is_cq_def s'_def comp_cq_signal_def new_request_def)
  have "cq_inv E view c s'"
    unfolding cq_inv_def ids' h' using f fresh' isc ids sub by auto
  moreover have "cq_contents view c s' = cq_contents view c s @ [r]"
    unfolding cq_contents_def ids' h' using q sub by (auto simp: cq_ids_def)
  moreover have "util_signal_comp E c r s = Inr s'"
    using q by (simp add: util_signal_comp_def s'_def)
  ultimately show ?thesis by blast
qed

lemma cq_poll_empty:
  assumes inv: "cq_inv E view c s" and emp: "cq_contents view c s = []"
  shows "\<exists>s'. util_poll_cq E c out s = Inr (False, out, s') \<and> cq_inv E view c s' \<and>
           cq_contents view c s' = []"
proof -
  from inv obtain q where q: "comps s c = Some (Comp_cq q)"
    by (auto simp: cq_inv_def elim: is_cqE)
  define s' where "s' = s\<lparr>comps := (comps s)(c \<mapsto> Comp_cq (snd (LCT_queue_pop E q)))\<rparr>"
  have e: "view q = []" using emp q by (simp add: cq_contents_def cq_ids_def)
  then have p: "fst (LCT_queue_pop E q) = nullptr" "view (snd (LCT_queue_pop E q)) = []"
    using inv by (auto simp: cq_inv_def lct_queue_fifo_def)
  have "util_poll_cq E c out s = Inr (False, out, s')"
    using q p by (simp add: util_poll_cq_def comp_cq_poll_def s'_def split_beta)
  moreover have "cq_inv E view c s'" "cq_contents view c s' = []"
    using inv p q
    by (force simp: cq_inv_def s'_def cq_ids_def is_cq_def fresh_ok_def cq_contents_def)+
  ultimately show ?thesis by blast
qed

lemma cq_poll_front:
  assumes inv: "cq_inv E view c s" and front: "cq_contents view c s = r # rs"
  shows "\<exists>s'. util_poll_cq E c out s = Inr (True, r, s') \<and> cq_inv E view c s' \<and>
           cq_contents view c s' = rs"
proof -
  from inv obtain q where q: "comps s c = Some (Comp_cq q)"
    by (auto simp: cq_inv_def elim: is_cqE)
  from front q obtain a as where a: "view q = a # as" "the (heap s a) = r" "map (\<lambda>p. the (heap s p)) as = rs"
    by (auto simp: cq_contents_def cq_ids_def)
  have p: "fst (LCT_queue_pop E q) = a" "view (snd (LCT_queue_pop E q)) = as"
    using inv a(1) by (auto simp: cq_inv_def lct_queue_fifo_def)
  have dom: "a \<in> dom (heap s)" "set as \<subseteq> dom (heap s)" "a \<notin> set as" "distinct as"
    using inv q a(1) by (auto simp: cq_inv_def cq_ids_def)
  then have ha: "heap s a = Some r" "a \<noteq> nullptr"
    using a(2) inv by (auto simp: cq_inv_def fresh_ok_def)
  define s' where "s' = s\<lparr>comps := (comps s)(c \<mapsto> Comp_cq (snd (LCT_queue_pop E q))),
                          heap := (heap s)(a := None)\<rparr>"
  have "util_poll_cq E c out s = Inr (True, r, s')"
    using q p ha by (simp add: util_poll_cq_def comp_cq_poll_def s'_def split_beta)
  moreover have "cq_inv E view c s'"
    using inv p q dom by (auto simp: cq_inv_def s'_def cq_ids_def is_cq_def fresh_ok_def)
  moreover have "cq_contents view c s' = rs"
    using a dom p by (auto simp: s'_def cq_contents_def cq_ids_def)
  ultimately show ?thesis by blast
qed

interpretation cq: request_fifo "cq_inv E view c" "cq_contents view c"
    "util_signal_comp E c" "util_poll_cq E c"
  for E view c
  by unfold_locales (fact cq_signal_ok cq_poll_empty cq_poll_front)+

section \<open>Completion queues from allocation to the last poll\<close>

lemma alloc_cq_inv:
  assumes "lct_queue_fifo E view" and "fresh_ok s"
  shows "cq_inv E view (next_obj s) (snd (util_alloc_cq E n s))"
    and "cq_contents view (next_obj s) (snd (util_alloc_cq E n s)) = []"
proof -
  let ?s' = "snd (util_alloc_cq E n s)"
  have c: "comps ?s' = (comps s)(next_obj s \<mapsto> Comp_cq (comp_cq_new E (to_size n)))"
    and h: "heap ?s' = heap s" "next_obj ?s' = Suc (next_obj s)"
    by (simp_all add: util_alloc_cq_def new_comp_def)
  have v: "view (comp_cq_new E (to_size n)) = []"
    using assms(1) by (simp add: lct_queue_fifo_def comp_cq_new_def)
  have "fresh_ok ?s'"
    using assms(2) unfolding fresh_ok_def c h by (fastforce simp: less_Suc_eq)
  then show "cq_inv E view (next_obj s) ?s'"
    using assms(1) by (simp add: cq_inv_def is_cq_def cq_ids_def c v)
  show "cq_contents view (next_obj s) ?s' = []"
    by (simp add: cq_contents_def cq_ids_def c v)
qed

text \<open>C25: For a completion queue made by \<^verbatim>\<open>alloc_cq\<close>, every sequence of signals and polls runs
  without touching a dead object, and what the polls deliver, followed by what is still
  queued, is exactly what was signalled, in the order it was signalled.\<close>

theorem cq_delivers_once_in_order:
  assumes "lct_queue_fifo E view" and "fresh_ok s" and "util_alloc_cq E n s = (c, s0)"
  shows "\<exists>rs s'. cq_run (util_signal_comp E c) (util_poll_cq E c) cs out s0 = Inr (rs, s') \<and>
           rs @ cq_contents view c s' = signalled cs"
proof -
  have c: "c = next_obj s" "s0 = snd (util_alloc_cq E n s)"
    using assms(3) by (auto simp: util_alloc_cq_def new_comp_def)
  show ?thesis
    using cq.run_fifo [OF alloc_cq_inv(1) [OF assms(1,2), of n], of cs out]
      alloc_cq_inv(2) [OF assms(1,2), of n]
    unfolding c by auto
qed

text \<open>As many polls as requests were signalled deliver all of them, in order, and leave the
  queue empty; a poll of the empty queue returns \<^verbatim>\<open>false\<close> and leaves \<^verbatim>\<open>*request\<close> alone.\<close>

theorem cq_drains:
  assumes "lct_queue_fifo E view" and "fresh_ok s" and "util_alloc_cq E n s = (c, s0)"
    and "length rs \<le> k"
  shows "\<exists>s1 s2. cq_run (util_signal_comp E c) (util_poll_cq E c)
                    (map Call_signal rs @ replicate k Call_poll) out s0 = Inr (rs, s1) \<and>
                  util_poll_cq E c out' s1 = Inr (False, out', s2)"
proof -
  have c: "c = next_obj s" "s0 = snd (util_alloc_cq E n s)"
    using assms(3) by (auto simp: util_alloc_cq_def new_comp_def)
  note alloc = alloc_cq_inv [OF assms(1,2), of n, folded c]
  obtain s1 where s1: "cq_inv E view c s1" "cq_contents view c s1 = rs"
    "\<And>ds out. cq_run (util_signal_comp E c) (util_poll_cq E c) (map Call_signal rs @ ds) out s0 =
      cq_run (util_signal_comp E c) (util_poll_cq E c) ds out s1"
    using cq.run_signals [OF alloc(1), of rs] alloc(2) by auto
  obtain s2 where s2: "cq_run (util_signal_comp E c) (util_poll_cq E c) (replicate k Call_poll) out s1
      = Inr (rs, s2)" "cq_inv E view c s2" "cq_contents view c s2 = []"
    using cq.run_drain [OF s1(1), of k out] s1(2) assms(4) by auto
  then show ?thesis using s1(3) cq.poll_empty [OF s2(2,3), of out'] by auto
qed

section \<open>Instances\<close>

text \<open>
  An environment whose LCT queue is a list and whose allocator bumps an address past every live
  block: it satisfies what LCW relies on, so the hypotheses of the theorems can hold.
\<close>

definition ref_build :: build_flags where
  "ref_build = \<lparr>LCW_ENABLE_BACKEND_LCI = False, LCW_ENABLE_BACKEND_MPI = True,
     LCW_ENABLE_BACKEND_LCI2 = False, LCW_ENABLE_BACKEND_GEX = False,
     LCW_ENABLE_PCOUNTER = True, LCW_DEBUG = False, LCW_MPI_USE_STREAM = False,
     LCW_MPI_USE_CONT = False, APPLE = False\<rparr>"

definition ref_env :: "ptr list env" where
  "ref_env = \<lparr>build = ref_build, LCT_queue_alloc = (\<lambda>_ _. []), LCT_queue_push = (\<lambda>q a. q @ [a]),
     LCT_queue_pop = (\<lambda>q. case q of [] \<Rightarrow> (nullptr, []) | a # as \<Rightarrow> (a, as)),
     allocate = (\<lambda>_ _ bs. Suc (sum_list (map (\<lambda>(a, n). a + n) bs)))\<rparr>"

definition ref_rt :: "ptr list rt" where
  "ref_rt = \<lparr>heap = Map.empty, comps = Map.empty, next_obj = 1, mem = (\<lambda>_. 0), blocks = [], trace = [], m_allocator = Alloc_default\<rparr>"

definition ref_request :: "op_t \<Rightarrow> int \<Rightarrow> request_t" where
  "ref_request k i = \<lparr>req_op = k, req_device = 1, req_rank = 0, req_tag = i, req_buffer = 4096,
     req_length = 8, req_user_context = nullptr\<rparr>"

lemma ref_env_fifo: "lct_queue_fifo ref_env (\<lambda>q. q)"
  by (simp add: lct_queue_fifo_def ref_env_def)

lemma ref_rt_fresh: "fresh_ok ref_rt"
  by (simp add: fresh_ok_def ref_rt_def)

theorem cq_delivers_once_in_order_witness:
  "\<exists>rs s'. cq_run (util_signal_comp ref_env 1) (util_poll_cq ref_env 1)
       [Call_poll, Call_signal (ref_request SEND 1), Call_signal (ref_request RECV 2), Call_poll]
       (ref_request PUT 0) (snd (util_alloc_cq ref_env 65536 ref_rt)) = Inr (rs, s') \<and>
     rs @ cq_contents (\<lambda>q. q) 1 s' = [ref_request SEND 1, ref_request RECV 2]"
proof -
  have a: "util_alloc_cq ref_env 65536 ref_rt = (1, snd (util_alloc_cq ref_env 65536 ref_rt))"
    by (simp add: util_alloc_cq_def new_comp_def ref_rt_def)
  show ?thesis
    using cq_delivers_once_in_order [OF ref_env_fifo ref_rt_fresh a,
        of "[Call_poll, Call_signal (ref_request SEND 1), Call_signal (ref_request RECV 2), Call_poll]"]
    by simp
qed

theorem cq_drains_witness:
  "\<exists>s1 s2. cq_run (util_signal_comp ref_env 1) (util_poll_cq ref_env 1)
       (map Call_signal [ref_request SEND 1, ref_request RECV 2] @ replicate 3 Call_poll)
       (ref_request PUT 0) (snd (util_alloc_cq ref_env 65536 ref_rt)) =
         Inr ([ref_request SEND 1, ref_request RECV 2], s1) \<and>
     util_poll_cq ref_env 1 (ref_request PUT 7) s1 = Inr (False, ref_request PUT 7, s2)"
proof -
  have a: "util_alloc_cq ref_env 65536 ref_rt = (1, snd (util_alloc_cq ref_env 65536 ref_rt))"
    by (simp add: util_alloc_cq_def new_comp_def ref_rt_def)
  show ?thesis
    by (rule cq_drains [OF ref_env_fifo ref_rt_fresh a]) simp
qed

end
