(* ===== verification/LCW_Pcounter.thy ===== *)
theory LCW_Pcounter
  imports LCW_Types
begin

text \<open>
  The performance counters of \<^verbatim>\<open>src/src/util/pcounter.cpp\<close>. The functions only forward to LCT
  when the library was built with \<^verbatim>\<open>LCW_ENABLE_PCOUNTER\<close>; the calls made are recorded in the
  trace, and \<open>counted\<close> reads the value a counter has after a trace.
\<close>

section \<open>The functions of namespace \<open>pcounter\<close>\<close>

definition LCW_PCOUNTER_NONE :: "pcounter_handle list" where
  "LCW_PCOUNTER_NONE = []"

definition LCW_PCOUNTER_TREND :: "pcounter_handle list" where
  "LCW_PCOUNTER_TREND =
     [put_start, put_end, put_retry, send_start, send_end, send_retry,
      recv_start, recv_end, recv_retry, put_signal, comp_produce, comp_consume,
      comp_poll, progress]"

definition LCW_PCOUNTER_TIMER :: "pcounter_handle list" where
  "LCW_PCOUNTER_TIMER = [put_timer, send_timer, recv_timer]"

definition pcounter_initialize :: "('q, 'e) env_scheme \<Rightarrow> ('q, 'z) rt_scheme \<Rightarrow> ('q, 'z) rt_scheme" where
  "pcounter_initialize E s =
     (if LCW_ENABLE_PCOUNTER (build E) then
        fold log_event
          ([Pcounter_ctx_alloc ''lcw''] @
           map (\<lambda>h. Pcounter_register h LCT_PCOUNTER_NONE) LCW_PCOUNTER_NONE @
           map (\<lambda>h. Pcounter_register h LCT_PCOUNTER_TREND) LCW_PCOUNTER_TREND @
           map (\<lambda>h. Pcounter_register h LCT_PCOUNTER_TIMER) LCW_PCOUNTER_TIMER) s
      else s)"

definition pcounter_finalize :: "('q, 'e) env_scheme \<Rightarrow> ('q, 'z) rt_scheme \<Rightarrow> ('q, 'z) rt_scheme" where
  "pcounter_finalize E s =
     (if LCW_ENABLE_PCOUNTER (build E) then log_event Pcounter_ctx_free s else s)"

text \<open>The clock \<^verbatim>\<open>LCT_now()\<close> is read by the caller of the model.\<close>

definition pcounter_now :: "('q, 'e) env_scheme \<Rightarrow> int \<Rightarrow> int" where
  "pcounter_now E lct_now = (if LCW_ENABLE_PCOUNTER (build E) then to_int64 lct_now else 0)"

definition pcounter_since :: "('q, 'e) env_scheme \<Rightarrow> int \<Rightarrow> int \<Rightarrow> int" where
  "pcounter_since E lct_now earlier =
     (if LCW_ENABLE_PCOUNTER (build E) then to_int64 (to_int64 lct_now - earlier) else 0)"

definition pcounter_add ::
  "('q, 'e) env_scheme \<Rightarrow> pcounter_handle \<Rightarrow> int \<Rightarrow> ('q, 'z) rt_scheme \<Rightarrow> ('q, 'z) rt_scheme" where
  "pcounter_add E handle val s =
     (if LCW_ENABLE_PCOUNTER (build E) then log_event (Pcounter_add handle val) s else s)"

definition pcounter_begin ::
  "('q, 'e) env_scheme \<Rightarrow> pcounter_handle \<Rightarrow> ('q, 'z) rt_scheme \<Rightarrow> ('q, 'z) rt_scheme" where
  "pcounter_begin E handle s =
     (if LCW_ENABLE_PCOUNTER (build E) then log_event (Pcounter_start handle) s else s)"

definition pcounter_end ::
  "('q, 'e) env_scheme \<Rightarrow> pcounter_handle \<Rightarrow> ('q, 'z) rt_scheme \<Rightarrow> ('q, 'z) rt_scheme" where
  "pcounter_end E handle s =
     (if LCW_ENABLE_PCOUNTER (build E) then log_event (Pcounter_end handle) s else s)"

section \<open>Counters change nothing but the trace\<close>

lemma pcounter_frame [simp]:
  "heap (pcounter_add E h v s) = heap s" "comps (pcounter_add E h v s) = comps s"
  "next_obj (pcounter_add E h v s) = next_obj s" "mem (pcounter_add E h v s) = mem s"
  "blocks (pcounter_add E h v s) = blocks s" "rt.more (pcounter_add E h v s) = rt.more s"
  "heap (pcounter_begin E h s) = heap s" "comps (pcounter_begin E h s) = comps s"
  "next_obj (pcounter_begin E h s) = next_obj s" "mem (pcounter_begin E h s) = mem s"
  "blocks (pcounter_begin E h s) = blocks s" "rt.more (pcounter_begin E h s) = rt.more s"
  "heap (pcounter_end E h s) = heap s" "comps (pcounter_end E h s) = comps s"
  "next_obj (pcounter_end E h s) = next_obj s" "mem (pcounter_end E h s) = mem s"
  "blocks (pcounter_end E h s) = blocks s" "rt.more (pcounter_end E h s) = rt.more s"
  by (simp_all add: pcounter_add_def pcounter_begin_def pcounter_end_def)

lemma fold_log_event: "fold log_event es s = s\<lparr>trace := trace s @ es\<rparr>"
  by (induction es arbitrary: s) (simp_all add: log_event_def)

section \<open>Counter values\<close>

fun counted :: "pcounter_handle \<Rightarrow> event list \<Rightarrow> int" where
  "counted h [] = 0"
| "counted h (Pcounter_add h' v # es) = (if h' = h then v else 0) + counted h es"
| "counted h (e # es) = counted h es"

lemma counted_append [simp]: "counted h (es @ es') = counted h es + counted h es'"
  by (induction h es rule: counted.induct) auto

lemma counted_pcounter [simp]:
  "counted k (trace (pcounter_add E h v s)) =
     counted k (trace s) + (if LCW_ENABLE_PCOUNTER (build E) \<and> h = k then v else 0)"
  "counted k (trace (pcounter_begin E h s)) = counted k (trace s)"
  "counted k (trace (pcounter_end E h s)) = counted k (trace s)"
  by (simp_all add: pcounter_add_def pcounter_begin_def pcounter_end_def)

text \<open>\<^verbatim>\<open>pcounter::initialize\<close> registers every counter of the library exactly once, after
  it created the context, and nothing when counters are not built in.\<close>

theorem pcounter_registers_each_once:
  "\<exists>es. trace (pcounter_initialize E s) = trace s @ es \<and>
     (if LCW_ENABLE_PCOUNTER (build E)
      then es \<noteq> [] \<and> hd es = Pcounter_ctx_alloc ''lcw'' \<and>
           (\<forall>h. length (filter (\<lambda>e. \<exists>k. e = Pcounter_register h k) es) = 1)
      else es = [])"
proof (cases "LCW_ENABLE_PCOUNTER (build E)")
  case True
  define es where "es = Pcounter_ctx_alloc ''lcw'' #
           map (\<lambda>h. Pcounter_register h LCT_PCOUNTER_TREND) LCW_PCOUNTER_TREND @
           map (\<lambda>h. Pcounter_register h LCT_PCOUNTER_TIMER) LCW_PCOUNTER_TIMER"
  have "trace (pcounter_initialize E s) = trace s @ es"
    using True by (simp add: pcounter_initialize_def fold_log_event es_def LCW_PCOUNTER_NONE_def
        del: fold.simps)
  moreover have "length (filter (\<lambda>e. \<exists>k. e = Pcounter_register h k) es) = 1" for h
    by (cases h) (simp_all add: es_def LCW_PCOUNTER_TREND_def LCW_PCOUNTER_TIMER_def)
  ultimately show ?thesis using True by (auto simp: es_def)
next
  case False
  then show ?thesis by (simp add: pcounter_initialize_def)
qed

end
