(* ===== verification/LCW_Spinlock.thy ===== *)
theory LCW_Spinlock
  imports LCW_Types
begin

text \<open>
  The lock of \<^verbatim>\<open>src/src/util/spinlock.{hpp,cpp}\<close>: a table of function pointers that users may
  replace before initialization (\<^verbatim>\<open>custom_spinlock_setup\<close>), the two implementations over
  pthread locks, and the class \<^verbatim>\<open>spinlock_t\<close> that calls through the table. The contract of a
  lock is the locale \<open>spinlock_contract\<close>. Where another object embeds a \<^verbatim>\<open>spinlock_t\<close>, the
  models of the other theories keep only whether it is held (\<open>spin\<close>), which the refinement
  lemma of the last section justifies.
\<close>

section \<open>pthread locks\<close>

text \<open>
  The lock objects of the process: allocated by \<^verbatim>\<open>new\<close>, spin locks and mutexes, held or not.
  Locking a held lock blocks; destroying a held lock and unlocking a free one are undefined.
\<close>

datatype lock_kind = Kind_spin | Kind_mutex

record lock_obj =
  lock_kind :: lock_kind
  lock_held :: bool

record lock_state =
  locks :: "ptr \<rightharpoonup> lock_obj"
  next_lock :: ptr

definition pthread_get :: "lock_kind \<Rightarrow> ptr \<Rightarrow> lock_state \<Rightarrow> bool res" where
  "pthread_get k p s =
     bind_res (deref (locks s) p) (\<lambda>l.
       if lock_kind l = k then Inr (lock_held l) else Inl Bad_cast)"

definition pthread_set :: "lock_kind \<Rightarrow> ptr \<Rightarrow> bool \<Rightarrow> lock_state \<Rightarrow> lock_state" where
  "pthread_set k p b s = s\<lparr>locks := (locks s)(p \<mapsto> \<lparr>lock_kind = k, lock_held = b\<rparr>)\<rparr>"

definition pthread_alloc :: "lock_kind \<Rightarrow> lock_state \<Rightarrow> ptr \<times> lock_state" where
  "pthread_alloc k s =
     (next_lock s, pthread_set k (next_lock s) False s\<lparr>next_lock := Suc (next_lock s)\<rparr>)"

definition pthread_destroy :: "lock_kind \<Rightarrow> ptr \<Rightarrow> lock_state \<Rightarrow> lock_state res" where
  "pthread_destroy k p s =
     bind_res (pthread_get k p s) (\<lambda>held.
       if held then Inl Undefined else Inr (s\<lparr>locks := (locks s)(p := None)\<rparr>))"

definition pthread_lock :: "lock_kind \<Rightarrow> ptr \<Rightarrow> lock_state \<Rightarrow> lock_state res" where
  "pthread_lock k p s =
     bind_res (pthread_get k p s) (\<lambda>held. if held then Inl Blocked else Inr (pthread_set k p True s))"

text \<open>The error code is 0 on success and \<^verbatim>\<open>EBUSY\<close> (16) when the lock is held.\<close>

definition pthread_trylock :: "lock_kind \<Rightarrow> ptr \<Rightarrow> lock_state \<Rightarrow> (int \<times> lock_state) res" where
  "pthread_trylock k p s =
     bind_res (pthread_get k p s) (\<lambda>held. Inr (if held then (16, s) else (0, pthread_set k p True s)))"

definition pthread_unlock :: "lock_kind \<Rightarrow> ptr \<Rightarrow> lock_state \<Rightarrow> lock_state res" where
  "pthread_unlock k p s =
     bind_res (pthread_get k p s) (\<lambda>held. if held then Inr (pthread_set k p False s) else Inl Undefined)"

section \<open>The functions of namespace \<open>detail\<close>\<close>

definition spinlock_pthread_spinlock_alloc :: "lock_state \<Rightarrow> (ptr \<times> lock_state) res" where
  "spinlock_pthread_spinlock_alloc s = Inr (pthread_alloc Kind_spin s)"

definition spinlock_pthread_spinlock_free :: "ptr \<Rightarrow> lock_state \<Rightarrow> lock_state res" where
  "spinlock_pthread_spinlock_free p s = pthread_destroy Kind_spin p s"

definition spinlock_pthread_spinlock_lock :: "ptr \<Rightarrow> lock_state \<Rightarrow> lock_state res" where
  "spinlock_pthread_spinlock_lock p s = pthread_lock Kind_spin p s"

definition spinlock_pthread_spinlock_trylock :: "ptr \<Rightarrow> lock_state \<Rightarrow> (bool \<times> lock_state) res" where
  "spinlock_pthread_spinlock_trylock p s =
     bind_res (pthread_trylock Kind_spin p s) (\<lambda>(rc, s). Inr (rc = 0, s))"

definition spinlock_pthread_spinlock_unlock :: "ptr \<Rightarrow> lock_state \<Rightarrow> lock_state res" where
  "spinlock_pthread_spinlock_unlock p s = pthread_unlock Kind_spin p s"

definition spinlock_pthread_mutex_alloc :: "lock_state \<Rightarrow> (ptr \<times> lock_state) res" where
  "spinlock_pthread_mutex_alloc s = Inr (pthread_alloc Kind_mutex s)"

definition spinlock_pthread_mutex_free :: "ptr \<Rightarrow> lock_state \<Rightarrow> lock_state res" where
  "spinlock_pthread_mutex_free p s = pthread_destroy Kind_mutex p s"

definition spinlock_pthread_mutex_lock :: "ptr \<Rightarrow> lock_state \<Rightarrow> lock_state res" where
  "spinlock_pthread_mutex_lock p s = pthread_lock Kind_mutex p s"

definition spinlock_pthread_mutex_trylock :: "ptr \<Rightarrow> lock_state \<Rightarrow> (bool \<times> lock_state) res" where
  "spinlock_pthread_mutex_trylock p s =
     bind_res (pthread_trylock Kind_mutex p s) (\<lambda>(rc, s). Inr (rc = 0, s))"

definition spinlock_pthread_mutex_unlock :: "ptr \<Rightarrow> lock_state \<Rightarrow> lock_state res" where
  "spinlock_pthread_mutex_unlock p s = pthread_unlock Kind_mutex p s"

section \<open>The table of operations\<close>

text \<open>
  A function pointer of the table is null, one of the functions above, or a user function; which
  of the five functions of a family it is follows from the field that holds it.
\<close>

datatype spin_fn = Null_fn | Fn_pthread_spinlock | Fn_pthread_mutex | Fn_user nat

record custom_spinlock_op_t =
  op_name :: string
  op_alloc :: spin_fn
  op_free :: spin_fn
  op_lock :: spin_fn
  op_trylock :: spin_fn
  op_unlock :: spin_fn

record spin_globals =
  setuped :: bool
  spinlock_op :: custom_spinlock_op_t
  force_default_spinlock :: bool

definition default_spinlock_op :: custom_spinlock_op_t where
  "default_spinlock_op = \<lparr>op_name = ''Unknown'', op_alloc = Null_fn, op_free = Null_fn,
     op_lock = Null_fn, op_trylock = Null_fn, op_unlock = Null_fn\<rparr>"

definition spin_globals_init :: spin_globals where
  "spin_globals_init = \<lparr>setuped = False, spinlock_op = default_spinlock_op, force_default_spinlock = False\<rparr>"

definition op_table :: "string \<Rightarrow> spin_fn \<Rightarrow> custom_spinlock_op_t" where
  "op_table n f = \<lparr>op_name = n, op_alloc = f, op_free = f, op_lock = f, op_trylock = f, op_unlock = f\<rparr>"

text \<open>The boolean says whether the warning about a second setup was logged.\<close>

definition custom_spinlock_setup :: "custom_spinlock_op_t \<Rightarrow> spin_globals \<Rightarrow> bool \<times> spin_globals" where
  "custom_spinlock_setup op g = (setuped g, g\<lparr>setuped := True, spinlock_op := op\<rparr>)"

definition custom_spinlock_init :: "build_flags \<Rightarrow> spin_globals \<Rightarrow> spin_globals" where
  "custom_spinlock_init B g =
     (if \<not> setuped g \<or> force_default_spinlock g then
        if APPLE B then g\<lparr>spinlock_op := op_table ''pthread_mutex'' Fn_pthread_mutex\<rparr>
        else g\<lparr>spinlock_op := op_table ''pthread_spinlock'' Fn_pthread_spinlock\<rparr>
      else g)"

section \<open>The class \<open>spinlock_t\<close>\<close>

text \<open>User functions are parameters, by their address.\<close>

record user_locks =
  user_alloc :: "nat \<Rightarrow> lock_state \<Rightarrow> (ptr \<times> lock_state) res"
  user_free :: "nat \<Rightarrow> ptr \<Rightarrow> lock_state \<Rightarrow> lock_state res"
  user_lock :: "nat \<Rightarrow> ptr \<Rightarrow> lock_state \<Rightarrow> lock_state res"
  user_trylock :: "nat \<Rightarrow> ptr \<Rightarrow> lock_state \<Rightarrow> (bool \<times> lock_state) res"
  user_unlock :: "nat \<Rightarrow> ptr \<Rightarrow> lock_state \<Rightarrow> lock_state res"

definition spinlock_new :: "user_locks \<Rightarrow> custom_spinlock_op_t \<Rightarrow> lock_state \<Rightarrow> (ptr \<times> lock_state) res" where
  "spinlock_new U op s =
     (case op_alloc op of Null_fn \<Rightarrow> Inl Bad_pointer
      | Fn_pthread_spinlock \<Rightarrow> spinlock_pthread_spinlock_alloc s
      | Fn_pthread_mutex \<Rightarrow> spinlock_pthread_mutex_alloc s
      | Fn_user f \<Rightarrow> user_alloc U f s)"

definition spinlock_delete :: "user_locks \<Rightarrow> custom_spinlock_op_t \<Rightarrow> ptr \<Rightarrow> lock_state \<Rightarrow> lock_state res" where
  "spinlock_delete U op l s =
     (case op_free op of Null_fn \<Rightarrow> Inl Bad_pointer
      | Fn_pthread_spinlock \<Rightarrow> spinlock_pthread_spinlock_free l s
      | Fn_pthread_mutex \<Rightarrow> spinlock_pthread_mutex_free l s
      | Fn_user f \<Rightarrow> user_free U f l s)"

definition spinlock_try_lock ::
  "user_locks \<Rightarrow> custom_spinlock_op_t \<Rightarrow> ptr \<Rightarrow> lock_state \<Rightarrow> (bool \<times> lock_state) res" where
  "spinlock_try_lock U op l s =
     (case op_trylock op of Null_fn \<Rightarrow> Inl Bad_pointer
      | Fn_pthread_spinlock \<Rightarrow> spinlock_pthread_spinlock_trylock l s
      | Fn_pthread_mutex \<Rightarrow> spinlock_pthread_mutex_trylock l s
      | Fn_user f \<Rightarrow> user_trylock U f l s)"

definition spinlock_lock :: "user_locks \<Rightarrow> custom_spinlock_op_t \<Rightarrow> ptr \<Rightarrow> lock_state \<Rightarrow> lock_state res" where
  "spinlock_lock U op l s =
     (case op_lock op of Null_fn \<Rightarrow> Inl Bad_pointer
      | Fn_pthread_spinlock \<Rightarrow> spinlock_pthread_spinlock_lock l s
      | Fn_pthread_mutex \<Rightarrow> spinlock_pthread_mutex_lock l s
      | Fn_user f \<Rightarrow> user_lock U f l s)"

definition spinlock_unlock :: "user_locks \<Rightarrow> custom_spinlock_op_t \<Rightarrow> ptr \<Rightarrow> lock_state \<Rightarrow> lock_state res" where
  "spinlock_unlock U op l s =
     (case op_unlock op of Null_fn \<Rightarrow> Inl Bad_pointer
      | Fn_pthread_spinlock \<Rightarrow> spinlock_pthread_spinlock_unlock l s
      | Fn_pthread_mutex \<Rightarrow> spinlock_pthread_mutex_unlock l s
      | Fn_user f \<Rightarrow> user_unlock U f l s)"

section \<open>The contract of a lock\<close>

text \<open>\<open>held s l\<close>: whether \<open>l\<close> is a lock of this kind and, if so, whether it is held.\<close>

locale spinlock_contract =
  fixes held :: "'s \<Rightarrow> ptr \<Rightarrow> bool option"
    and try_lock :: "ptr \<Rightarrow> 's \<Rightarrow> (bool \<times> 's) res"
    and lock :: "ptr \<Rightarrow> 's \<Rightarrow> 's res"
    and unlock :: "ptr \<Rightarrow> 's \<Rightarrow> 's res"
  assumes lock_free: "held s l = Some False \<Longrightarrow>
      \<exists>s'. lock l s = Inr s' \<and> held s' = (held s)(l \<mapsto> True) \<and> unlock l s' = Inr s"
    and lock_held: "held s l = Some True \<Longrightarrow> lock l s = Inl Blocked"
    and try_free: "held s l = Some False \<Longrightarrow> try_lock l s = bind_res (lock l s) (\<lambda>s'. Inr (True, s'))"
    and try_held: "held s l = Some True \<Longrightarrow> try_lock l s = Inr (False, s)"
    and unlock_held: "held s l = Some True \<Longrightarrow>
      \<exists>s'. unlock l s = Inr s' \<and> held s' = (held s)(l \<mapsto> False)"
begin

text \<open>Of two attempts with no unlock between, the second fails (or blocks): mutual exclusion.\<close>

lemma exclusive:
  assumes "try_lock l s = Inr (True, s')" and "held s l \<noteq> None"
  shows "try_lock l s' = Inr (False, s')" "lock l s' = Inl Blocked"
proof -
  have f: "held s l = Some False"
    using assms try_held [of s l] by (cases "held s l") auto
  then have "held s' l = Some True"
    using assms(1) lock_free [OF f] try_free [OF f] by auto
  then show "try_lock l s' = Inr (False, s')" "lock l s' = Inl Blocked"
    by (auto intro: try_held lock_held)
qed

text \<open>A successful attempt followed by an unlock restores the state.\<close>

lemma try_unlock:
  assumes "try_lock l s = Inr (True, s')" and "held s l \<noteq> None"
  shows "unlock l s' = Inr s"
proof -
  have f: "held s l = Some False"
    using assms try_held [of s l] by (cases "held s l") auto
  then show ?thesis using assms(1) lock_free [OF f] try_free [OF f] by auto
qed

end

section \<open>The default implementations meet the contract\<close>

definition held_of :: "lock_kind \<Rightarrow> lock_state \<Rightarrow> ptr \<Rightarrow> bool option" where
  "held_of k s l =
     (case locks s l of None \<Rightarrow> None | Some ob \<Rightarrow> if lock_kind ob = k then Some (lock_held ob) else None)"

lemma held_of_Some: "held_of k s l = Some b \<longleftrightarrow> locks s l = Some \<lparr>lock_kind = k, lock_held = b\<rparr>"
proof (cases "locks s l")
  case (Some ob)
  then show ?thesis by (cases ob) (auto simp: held_of_def)
qed (simp add: held_of_def)

lemma pthread_get_held:
  "held_of k s l = Some True \<Longrightarrow> pthread_get k l s = Inr True"
  "held_of k s l = Some False \<Longrightarrow> pthread_get k l s = Inr False"
  by (simp_all add: held_of_Some pthread_get_def)

lemma held_of_set [simp]: "held_of k (pthread_set k l b s) = (held_of k s)(l \<mapsto> b)"
  by (rule ext) (simp add: held_of_def pthread_set_def)

lemma pthread_set_twice:
  "held_of k s l = Some b \<Longrightarrow> pthread_set k l b (pthread_set k l c s) = s"
  by (simp add: held_of_Some pthread_set_def fun_upd_idem)

lemmas pthread_defs = pthread_lock_def pthread_trylock_def pthread_unlock_def

lemma pthread_contract:
  "spinlock_contract (held_of k)
     (\<lambda>l s. bind_res (pthread_trylock k l s) (\<lambda>(rc, s). Inr (rc = 0, s)))
     (pthread_lock k) (pthread_unlock k)"
  by unfold_locales
    (auto simp: pthread_defs pthread_get_held pthread_set_twice)

text \<open>\<open>spinlock_t\<close> over each of the two default tables.\<close>

lemma spinlock_methods_spin:
  "spinlock_try_lock U (op_table n Fn_pthread_spinlock) =
     (\<lambda>l s. bind_res (pthread_trylock Kind_spin l s) (\<lambda>(rc, s). Inr (rc = 0, s)))"
  "spinlock_lock U (op_table n Fn_pthread_spinlock) = pthread_lock Kind_spin"
  "spinlock_unlock U (op_table n Fn_pthread_spinlock) = pthread_unlock Kind_spin"
  by (auto intro!: ext simp: spinlock_try_lock_def spinlock_lock_def spinlock_unlock_def op_table_def
      spinlock_pthread_spinlock_trylock_def spinlock_pthread_spinlock_lock_def
      spinlock_pthread_spinlock_unlock_def)

lemma spinlock_methods_mutex:
  "spinlock_try_lock U (op_table n Fn_pthread_mutex) =
     (\<lambda>l s. bind_res (pthread_trylock Kind_mutex l s) (\<lambda>(rc, s). Inr (rc = 0, s)))"
  "spinlock_lock U (op_table n Fn_pthread_mutex) = pthread_lock Kind_mutex"
  "spinlock_unlock U (op_table n Fn_pthread_mutex) = pthread_unlock Kind_mutex"
  by (auto intro!: ext simp: spinlock_try_lock_def spinlock_lock_def spinlock_unlock_def op_table_def
      spinlock_pthread_mutex_trylock_def spinlock_pthread_mutex_lock_def
      spinlock_pthread_mutex_unlock_def)

interpretation spin: spinlock_contract "held_of Kind_spin"
    "spinlock_try_lock U (op_table n Fn_pthread_spinlock)"
    "spinlock_lock U (op_table n Fn_pthread_spinlock)"
    "spinlock_unlock U (op_table n Fn_pthread_spinlock)" for U n
  unfolding spinlock_methods_spin by (rule pthread_contract)

interpretation mutex: spinlock_contract "held_of Kind_mutex"
    "spinlock_try_lock U (op_table n Fn_pthread_mutex)"
    "spinlock_lock U (op_table n Fn_pthread_mutex)"
    "spinlock_unlock U (op_table n Fn_pthread_mutex)" for U n
  unfolding spinlock_methods_mutex by (rule pthread_contract)

text \<open>The kind of lock and the table that initialization chooses on this platform.\<close>

definition default_kind :: "build_flags \<Rightarrow> lock_kind" where
  "default_kind B = (if APPLE B then Kind_mutex else Kind_spin)"

definition default_table :: "build_flags \<Rightarrow> custom_spinlock_op_t" where
  "default_table B = spinlock_op (custom_spinlock_init B spin_globals_init)"

lemma default_table_eq:
  "default_table B =
     (if APPLE B then op_table ''pthread_mutex'' Fn_pthread_mutex
      else op_table ''pthread_spinlock'' Fn_pthread_spinlock)"
  by (simp add: default_table_def custom_spinlock_init_def spin_globals_init_def)

text \<open>C29: With the table that \<^verbatim>\<open>custom_spinlock_init\<close> installs when nothing was set up, a
  \<^verbatim>\<open>spinlock_t\<close> excludes: after one \<^verbatim>\<open>try_lock\<close> succeeded every further one fails and \<^verbatim>\<open>lock\<close>
  blocks, until the \<^verbatim>\<open>unlock\<close>, which restores the state before the first.\<close>

theorem default_spinlock_excludes:
  assumes "held_of (default_kind B) s l \<noteq> None"
    and "spinlock_try_lock U (default_table B) l s = Inr (True, s')"
  shows "spinlock_try_lock U (default_table B) l s' = Inr (False, s') \<and>
         spinlock_lock U (default_table B) l s' = Inl Blocked \<and>
         spinlock_unlock U (default_table B) l s' = Inr s"
proof (cases "APPLE B")
  case True
  with assms show ?thesis
    using mutex.exclusive [of U _ l s s'] mutex.try_unlock [of U _ l s s']
    by (simp add: default_table_eq default_kind_def)
next
  case False
  with assms show ?thesis
    using spin.exclusive [of U _ l s s'] spin.try_unlock [of U _ l s s']
    by (simp add: default_table_eq default_kind_def)
qed

section \<open>Embedded locks\<close>

text \<open>
  What an object that embeds a \<^verbatim>\<open>spinlock_t\<close> needs of it: whether it is held.
\<close>

type_synonym spin = bool

definition spin_try_lock :: "spin \<Rightarrow> bool \<times> spin" where
  "spin_try_lock l = (\<not> l, True)"

definition spin_lock :: "spin \<Rightarrow> spin res" where
  "spin_lock l = (if l then Inl Blocked else Inr True)"

definition spin_unlock :: "spin \<Rightarrow> spin res" where
  "spin_unlock l = (if l then Inr False else Inl Undefined)"

lemma spin_simps [simp]:
  "spin_try_lock False = (True, True)" "spin_try_lock True = (False, True)"
  "spin_lock False = Inr True" "spin_lock True = Inl Blocked"
  "spin_unlock True = Inr False" "spin_unlock False = Inl Undefined"
  by (simp_all add: spin_try_lock_def spin_lock_def spin_unlock_def)


section \<open>Instances\<close>

definition ref_user_locks :: user_locks where
  "ref_user_locks = \<lparr>user_alloc = (\<lambda>_ _. Inl Undefined), user_free = (\<lambda>_ _ _. Inl Undefined),
     user_lock = (\<lambda>_ _ _. Inl Undefined), user_trylock = (\<lambda>_ _ _. Inl Undefined),
     user_unlock = (\<lambda>_ _ _. Inl Undefined)\<rparr>"

definition ref_locks :: "bool \<Rightarrow> lock_state" where
  "ref_locks b = \<lparr>locks = [7 \<mapsto> \<lparr>lock_kind = Kind_spin, lock_held = b\<rparr>], next_lock = 8\<rparr>"

definition linux_build :: build_flags where
  "linux_build = \<lparr>LCW_ENABLE_BACKEND_LCI = False, LCW_ENABLE_BACKEND_MPI = True,
     LCW_ENABLE_BACKEND_LCI2 = True, LCW_ENABLE_BACKEND_GEX = False,
     LCW_ENABLE_PCOUNTER = False, LCW_DEBUG = False, LCW_MPI_USE_STREAM = False,
     LCW_MPI_USE_CONT = False, APPLE = False\<rparr>"

lemma ref_locks_held: "held_of (default_kind linux_build) (ref_locks b) 7 = Some b"
  by (simp add: held_of_def default_kind_def linux_build_def ref_locks_def)

lemma ref_locks_try:
  "spinlock_try_lock ref_user_locks (default_table linux_build) 7 (ref_locks False) =
     Inr (True, ref_locks True)"
  by (simp add: default_table_eq linux_build_def spinlock_methods_spin pthread_trylock_def
      pthread_get_def ref_locks_def pthread_set_def)

theorem default_spinlock_excludes_witness:
  "spinlock_try_lock ref_user_locks (default_table linux_build) 7 (ref_locks True) =
     Inr (False, ref_locks True) \<and>
   spinlock_lock ref_user_locks (default_table linux_build) 7 (ref_locks True) = Inl Blocked \<and>
   spinlock_unlock ref_user_locks (default_table linux_build) 7 (ref_locks True) = Inr (ref_locks False)"
  by (rule default_spinlock_excludes [OF _ ref_locks_try]) (simp add: ref_locks_held)


end
