(* ===== verification/LCW_Api.thy ===== *)
theory LCW_Api
  imports LCW_Comp LCW_Pcounter LCW_Spinlock
begin

text \<open>
  The public functions of \<^verbatim>\<open>src/src/lcw.cpp\<close>, the environment of \<^verbatim>\<open>src/src/env.cpp\<close> and the backend
  interface of \<^verbatim>\<open>src/src/backend/backend.{hpp,cpp}\<close>. A backend is the record of its virtual
  methods over a state \<open>'s\<close>; \<^verbatim>\<open>alloc_backend\<close> chooses one of the classes that were built, which
  are an argument. The contract of a backend is the
  locale \<open>backend_contract\<close>.
\<close>

section \<open>The class \<open>backend_base_t\<close>\<close>

record 's backend_base_t =
  get_backend :: backend_t
  b_construct :: "'s \<Rightarrow> 's"
  b_initialize :: "'s \<Rightarrow> 's res"
  b_finalize :: "'s \<Rightarrow> 's res"
  b_get_rank :: "'s \<Rightarrow> int"
  b_get_nranks :: "'s \<Rightarrow> int"
  b_alloc_device :: "int \<Rightarrow> ptr \<Rightarrow> 's \<Rightarrow> (ptr \<times> 's) res"
  b_free_device :: "ptr \<Rightarrow> 's \<Rightarrow> 's res"
  b_do_progress :: "ptr \<Rightarrow> 's \<Rightarrow> (bool \<times> 's) res"
  b_send :: "ptr \<Rightarrow> int \<Rightarrow> int \<Rightarrow> ptr \<Rightarrow> int \<Rightarrow> ptr \<Rightarrow> ptr \<Rightarrow> 's \<Rightarrow> (bool \<times> 's) res"
  b_recv :: "ptr \<Rightarrow> int \<Rightarrow> int \<Rightarrow> ptr \<Rightarrow> int \<Rightarrow> ptr \<Rightarrow> ptr \<Rightarrow> 's \<Rightarrow> (bool \<times> 's) res"
  b_put :: "ptr \<Rightarrow> int \<Rightarrow> ptr \<Rightarrow> int \<Rightarrow> ptr \<Rightarrow> ptr \<Rightarrow> 's \<Rightarrow> (bool \<times> 's) res"
  b_get_max_tag :: "ptr \<Rightarrow> 's \<Rightarrow> int res"
  b_barrier :: "ptr \<Rightarrow> 's \<Rightarrow> 's res"
  b_alloc_handler :: "handler_t \<Rightarrow> 's \<Rightarrow> (ptr \<times> 's) res"
  b_free_handler :: "ptr \<Rightarrow> 's \<Rightarrow> 's res"
  b_alloc_cq :: "'s \<Rightarrow> (ptr \<times> 's) res"
  b_free_cq :: "ptr \<Rightarrow> 's \<Rightarrow> 's res"
  b_poll_cq :: "ptr \<Rightarrow> request_t \<Rightarrow> 's \<Rightarrow> (bool \<times> request_t \<times> 's) res"
  b_set_custom_allocator :: "ptr \<Rightarrow> 's \<Rightarrow> 's"

text \<open>The methods the base class implements; \<^verbatim>\<open>alloc_cq\<close> there has a fixed length.\<close>

definition base_alloc_handler :: "handler_t \<Rightarrow> ('q, 'z) rt_scheme \<Rightarrow> (ptr \<times> ('q, 'z) rt_scheme) res" where
  "base_alloc_handler handler s = Inr (util_alloc_handler handler s)"

definition base_free_handler :: "ptr \<Rightarrow> ('q, 'z) rt_scheme \<Rightarrow> ('q, 'z) rt_scheme res" where
  "base_free_handler handler s = util_free_handler handler s"

definition base_alloc_cq :: "('q, 'e) env_scheme \<Rightarrow> ('q, 'z) rt_scheme \<Rightarrow> (ptr \<times> ('q, 'z) rt_scheme) res" where
  "base_alloc_cq E s = Inr (util_alloc_cq E 65536 s)"

definition base_free_cq :: "ptr \<Rightarrow> ('q, 'z) rt_scheme \<Rightarrow> ('q, 'z) rt_scheme res" where
  "base_free_cq cmp s = util_free_cq cmp s"

definition base_poll_cq ::
  "('q, 'e) env_scheme \<Rightarrow> ptr \<Rightarrow> request_t \<Rightarrow> ('q, 'z) rt_scheme \<Rightarrow> (bool \<times> request_t \<times> ('q, 'z) rt_scheme) res" where
  "base_poll_cq E cmp request s = util_poll_cq E cmp request s"

definition base_construct :: "('q, 'z) rt_scheme \<Rightarrow> ('q, 'z) rt_scheme" where
  "base_construct s = s\<lparr>m_allocator := Alloc_default\<rparr>"

definition base_set_custom_allocator :: "ptr \<Rightarrow> ('q, 'z) rt_scheme \<Rightarrow> ('q, 'z) rt_scheme" where
  "base_set_custom_allocator allocator s = s\<lparr>m_allocator := Alloc_custom allocator\<rparr>"

section \<open>\<open>alloc_backend\<close>\<close>

definition auto_backend :: "build_flags \<Rightarrow> (string \<rightharpoonup> string) \<Rightarrow> backend_t" where
  "auto_backend B getenv =
     (let backend = (if LCW_ENABLE_BACKEND_MPI B then MPI
                     else if LCW_ENABLE_BACKEND_LCI2 B then LCI2 else LCI)
      in case getenv ''LCW_BACKEND_AUTO'' of
           None \<Rightarrow> backend
         | Some str \<Rightarrow>
             if str = ''mpi'' then MPI
             else if str = ''lci'' then LCI
             else if str = ''lci2'' then LCI2
             else if str = ''gex'' then GEX
             else backend)"

definition alloc_backend ::
  "build_flags \<Rightarrow> (string \<rightharpoonup> string) \<Rightarrow> (backend_t \<Rightarrow> 's backend_base_t) \<Rightarrow> backend_t \<Rightarrow> 's backend_base_t res" where
  "alloc_backend B getenv class_of backend =
     (let backend = (if backend = AUTO then auto_backend B getenv else backend)
      in case backend of
           LCI \<Rightarrow> if LCW_ENABLE_BACKEND_LCI B then Inr (class_of LCI)
                  else Inl (Assert_failed ''The LCI backend is not available'')
         | MPI \<Rightarrow> if LCW_ENABLE_BACKEND_MPI B then Inr (class_of MPI)
                  else Inl (Assert_failed ''The MPI backend is not available'')
         | LCI2 \<Rightarrow> if LCW_ENABLE_BACKEND_LCI2 B then Inr (class_of LCI2)
                   else Inl (Assert_failed ''The LCI2 backend is not available'')
         | GEX \<Rightarrow> if LCW_ENABLE_BACKEND_GEX B then Inr (class_of GEX)
                  else Inl (Assert_failed ''The GEX backend is not available'')
         | AUTO \<Rightarrow> Inl (Assert_failed ''Unknown backend''))"

section \<open>The environment\<close>

definition init_env :: "(string \<rightharpoonup> string) \<Rightarrow> spin_globals \<Rightarrow> spin_globals" where
  "init_env getenv g =
     (case getenv ''LCW_FORCE_PTHREAD_SPINLOCK'' of
        None \<Rightarrow> g | Some p \<Rightarrow> g\<lparr>force_default_spinlock := (atoi p \<noteq> 0)\<rparr>)"

section \<open>The functions of \<open>lcw.cpp\<close>\<close>

text \<open>
  The globals: the owning pointer to the backend, the lock table and configuration, whether LCT
  and the log context are up, and the rank LCT was told. \<open>inner\<close> is the state the backend works on.
\<close>

record 's lcw_st =
  backend_p :: "'s backend_base_t option"
  inner :: 's
  globals :: spin_globals
  lct_ready :: bool
  log_ready :: bool
  lct_rank :: int

definition not_initialized :: string where
  "not_initialized = ''LCW has not been initialized or has been finalized!''"

definition with_backend :: "'s lcw_st \<Rightarrow> ('s backend_base_t \<Rightarrow> 'a res) \<Rightarrow> 'a res" where
  "with_backend s f = (case backend_p s of None \<Rightarrow> Inl (Assert_failed not_initialized) | Some b \<Rightarrow> f b)"

definition on_inner :: "('a \<times> 's) res \<Rightarrow> 's lcw_st \<Rightarrow> ('a \<times> 's lcw_st) res" where
  "on_inner r s = bind_res r (\<lambda>(x, i). Inr (x, s\<lparr>inner := i\<rparr>))"

definition on_inner_unit :: "'s res \<Rightarrow> 's lcw_st \<Rightarrow> 's lcw_st res" where
  "on_inner_unit r s = bind_res r (\<lambda>i. Inr (s\<lparr>inner := i\<rparr>))"

definition lcw_is_initialized :: "'s lcw_st \<Rightarrow> bool" where
  "lcw_is_initialized s \<longleftrightarrow> backend_p s \<noteq> None"

definition lcw_get_rank :: "'s lcw_st \<Rightarrow> int res" where
  "lcw_get_rank s = with_backend s (\<lambda>b. Inr (b_get_rank b (inner s)))"

definition lcw_get_nranks :: "'s lcw_st \<Rightarrow> int res" where
  "lcw_get_nranks s = with_backend s (\<lambda>b. Inr (b_get_nranks b (inner s)))"

text \<open>The inline functions of the API header.\<close>

definition lcw_get_rank_me :: "'s lcw_st \<Rightarrow> int res" where
  "lcw_get_rank_me s = lcw_get_rank s"

definition lcw_get_rank_n :: "'s lcw_st \<Rightarrow> int res" where
  "lcw_get_rank_n s = lcw_get_nranks s"

definition lcw_initialize ::
  "('q, 'e) env_scheme \<Rightarrow> (string \<rightharpoonup> string) \<Rightarrow> (backend_t \<Rightarrow> ('q, 'z) rt_scheme backend_base_t) \<Rightarrow> backend_t \<Rightarrow>
   ('q, 'z) rt_scheme lcw_st \<Rightarrow> ('q, 'z) rt_scheme lcw_st res" where
  "lcw_initialize E getenv class_of backend s =
     (if backend_p s \<noteq> None then Inl (Abort not_initialized)
      else
        let s = s\<lparr>lct_ready := True, log_ready := True\<rparr>;
            s = s\<lparr>globals := custom_spinlock_init (build E) (globals s)\<rparr>;
            s = s\<lparr>globals := init_env getenv (globals s)\<rparr>
        in bind_res (alloc_backend (build E) getenv class_of backend) (\<lambda>b.
           let s = s\<lparr>backend_p := Some b, inner := b_construct b (inner s)\<rparr>
           in bind_res (b_initialize b (inner s)) (\<lambda>i.
              let s = s\<lparr>inner := i\<rparr>
              in bind_res (lcw_get_rank s) (\<lambda>r.
                 Inr (s\<lparr>lct_rank := to_int r, inner := pcounter_initialize E (inner s)\<rparr>)))))"

definition lcw_finalize ::
  "('q, 'e) env_scheme \<Rightarrow> ('q, 'z) rt_scheme lcw_st \<Rightarrow> ('q, 'z) rt_scheme lcw_st res" where
  "lcw_finalize E s = with_backend s (\<lambda>b.
     bind_res (b_finalize b (inner s)) (\<lambda>i.
     Inr (s\<lparr>backend_p := None, inner := pcounter_finalize E i, log_ready := False, lct_ready := False\<rparr>)))"

definition lcw_alloc_device :: "int \<Rightarrow> ptr \<Rightarrow> 's lcw_st \<Rightarrow> (ptr \<times> 's lcw_st) res" where
  "lcw_alloc_device max_put_length put_comp s =
     with_backend s (\<lambda>b. on_inner (b_alloc_device b max_put_length put_comp (inner s)) s)"

definition lcw_free_device :: "ptr \<Rightarrow> 's lcw_st \<Rightarrow> 's lcw_st res" where
  "lcw_free_device device s = with_backend s (\<lambda>b. on_inner_unit (b_free_device b device (inner s)) s)"

definition lcw_do_progress ::
  "('q, 'e) env_scheme \<Rightarrow> ptr \<Rightarrow> ('q, 'z) rt_scheme lcw_st \<Rightarrow> (bool \<times> ('q, 'z) rt_scheme lcw_st) res" where
  "lcw_do_progress E device s =
     with_backend s (\<lambda>b. on_inner (b_do_progress b device (pcounter_add E progress 1 (inner s))) s)"

definition lcw_alloc_handler :: "handler_t \<Rightarrow> 's lcw_st \<Rightarrow> (ptr \<times> 's lcw_st) res" where
  "lcw_alloc_handler handler s = with_backend s (\<lambda>b. on_inner (b_alloc_handler b handler (inner s)) s)"

definition lcw_free_handler :: "ptr \<Rightarrow> 's lcw_st \<Rightarrow> 's lcw_st res" where
  "lcw_free_handler handler s = with_backend s (\<lambda>b. on_inner_unit (b_free_handler b handler (inner s)) s)"

definition lcw_alloc_cq :: "'s lcw_st \<Rightarrow> (ptr \<times> 's lcw_st) res" where
  "lcw_alloc_cq s = with_backend s (\<lambda>b. on_inner (b_alloc_cq b (inner s)) s)"

definition lcw_free_cq :: "ptr \<Rightarrow> 's lcw_st \<Rightarrow> 's lcw_st res" where
  "lcw_free_cq cmp s = with_backend s (\<lambda>b. on_inner_unit (b_free_cq b cmp (inner s)) s)"

definition lcw_poll_cq ::
  "('q, 'e) env_scheme \<Rightarrow> ptr \<Rightarrow> request_t \<Rightarrow> ('q, 'z) rt_scheme lcw_st \<Rightarrow>
   (bool \<times> request_t \<times> ('q, 'z) rt_scheme lcw_st) res" where
  "lcw_poll_cq E cmp request s = with_backend s (\<lambda>b.
     bind_res (b_poll_cq b cmp request (pcounter_add E comp_poll 1 (inner s))) (\<lambda>(ret, request, i).
     Inr (ret, request, s\<lparr>inner := (if ret then pcounter_add E comp_consume 1 i else i)\<rparr>)))"

text \<open>The bracket of \<^verbatim>\<open>send\<close>, \<^verbatim>\<open>recv\<close> and \<^verbatim>\<open>put\<close>: a timer around the call, then a counter for its outcome.\<close>

definition counted_call ::
  "('q, 'e) env_scheme \<Rightarrow> pcounter_handle \<Rightarrow> pcounter_handle \<Rightarrow> pcounter_handle \<Rightarrow>
   (('q, 'z) rt_scheme \<Rightarrow> (bool \<times> ('q, 'z) rt_scheme) res) \<Rightarrow> ('q, 'z) rt_scheme lcw_st \<Rightarrow>
   (bool \<times> ('q, 'z) rt_scheme lcw_st) res" where
  "counted_call E timer started retried f s =
     bind_res (f (pcounter_begin E timer (inner s))) (\<lambda>(ret, i).
       let i = pcounter_end E timer i
       in Inr (ret, s\<lparr>inner := pcounter_add E (if ret then started else retried) 1 i\<rparr>))"

definition lcw_send ::
  "('q, 'e) env_scheme \<Rightarrow> ptr \<Rightarrow> int \<Rightarrow> int \<Rightarrow> ptr \<Rightarrow> int \<Rightarrow> ptr \<Rightarrow> ptr \<Rightarrow> ('q, 'z) rt_scheme lcw_st \<Rightarrow>
   (bool \<times> ('q, 'z) rt_scheme lcw_st) res" where
  "lcw_send E device rank tag buf len cmp user_context s = with_backend s (\<lambda>b.
     counted_call E send_timer send_start send_retry (b_send b device rank tag buf len cmp user_context) s)"

definition lcw_recv ::
  "('q, 'e) env_scheme \<Rightarrow> ptr \<Rightarrow> int \<Rightarrow> int \<Rightarrow> ptr \<Rightarrow> int \<Rightarrow> ptr \<Rightarrow> ptr \<Rightarrow> ('q, 'z) rt_scheme lcw_st \<Rightarrow>
   (bool \<times> ('q, 'z) rt_scheme lcw_st) res" where
  "lcw_recv E device rank tag buf len cmp user_context s = with_backend s (\<lambda>b.
     counted_call E recv_timer recv_start recv_retry (b_recv b device rank tag buf len cmp user_context) s)"

definition lcw_put ::
  "('q, 'e) env_scheme \<Rightarrow> ptr \<Rightarrow> int \<Rightarrow> ptr \<Rightarrow> int \<Rightarrow> ptr \<Rightarrow> ptr \<Rightarrow> ('q, 'z) rt_scheme lcw_st \<Rightarrow>
   (bool \<times> ('q, 'z) rt_scheme lcw_st) res" where
  "lcw_put E device rank buf len cmp user_context s = with_backend s (\<lambda>b.
     counted_call E put_timer put_start put_retry (b_put b device rank buf len cmp user_context) s)"

definition lcw_get_max_tag :: "ptr \<Rightarrow> 's lcw_st \<Rightarrow> int res" where
  "lcw_get_max_tag device s = with_backend s (\<lambda>b. b_get_max_tag b device (inner s))"

definition lcw_barrier :: "ptr \<Rightarrow> 's lcw_st \<Rightarrow> 's lcw_st res" where
  "lcw_barrier device s = with_backend s (\<lambda>b. on_inner_unit (b_barrier b device (inner s)) s)"

definition lcw_set_custom_allocator :: "ptr \<Rightarrow> 's lcw_st \<Rightarrow> 's lcw_st res" where
  "lcw_set_custom_allocator allocator s =
     with_backend s (\<lambda>b. Inr (s\<lparr>inner := b_set_custom_allocator b allocator (inner s)\<rparr>))"

section \<open>Programs over the API\<close>

datatype api_call =
    Alloc_device int ptr
  | Free_device ptr
  | Do_progress ptr
  | Alloc_handler handler_t
  | Free_handler ptr
  | Alloc_cq
  | Free_cq ptr
  | Poll_cq ptr request_t
  | Send ptr int int ptr int ptr ptr
  | Recv ptr int int ptr int ptr ptr
  | Put ptr int ptr int ptr ptr
  | Barrier ptr
  | Set_custom_allocator ptr

fun api_step ::
  "('q, 'e) env_scheme \<Rightarrow> api_call \<Rightarrow> ('q, 'z) rt_scheme lcw_st \<Rightarrow> ('q, 'z) rt_scheme lcw_st res" where
  "api_step E (Alloc_device n c) s = bind_res (lcw_alloc_device n c s) (\<lambda>(_, s). Inr s)"
| "api_step E (Free_device d) s = lcw_free_device d s"
| "api_step E (Do_progress d) s = bind_res (lcw_do_progress E d s) (\<lambda>(_, s). Inr s)"
| "api_step E (Alloc_handler f) s = bind_res (lcw_alloc_handler f s) (\<lambda>(_, s). Inr s)"
| "api_step E (Free_handler c) s = lcw_free_handler c s"
| "api_step E Alloc_cq s = bind_res (lcw_alloc_cq s) (\<lambda>(_, s). Inr s)"
| "api_step E (Free_cq c) s = lcw_free_cq c s"
| "api_step E (Poll_cq c r) s = bind_res (lcw_poll_cq E c r s) (\<lambda>(_, _, s). Inr s)"
| "api_step E (Send d rank tag buf len c ctx) s = bind_res (lcw_send E d rank tag buf len c ctx s) (\<lambda>(_, s). Inr s)"
| "api_step E (Recv d rank tag buf len c ctx) s = bind_res (lcw_recv E d rank tag buf len c ctx s) (\<lambda>(_, s). Inr s)"
| "api_step E (Put d rank buf len c ctx) s = bind_res (lcw_put E d rank buf len c ctx s) (\<lambda>(_, s). Inr s)"
| "api_step E (Barrier d) s = lcw_barrier d s"
| "api_step E (Set_custom_allocator a) s = lcw_set_custom_allocator a s"

text \<open>A program: each call is made only when the backend allows it in the state it is made in.\<close>

inductive api_run ::
  "('q, 'e) env_scheme \<Rightarrow> (api_call \<Rightarrow> ('q, 'z) rt_scheme \<Rightarrow> bool) \<Rightarrow>
   ('q, 'z) rt_scheme lcw_st \<Rightarrow> api_call list \<Rightarrow> ('q, 'z) rt_scheme lcw_st \<Rightarrow> bool"
  for E allowed where
  start: "api_run E allowed s [] s"
| call: "api_run E allowed s cs s1 \<Longrightarrow> allowed c (inner s1) \<Longrightarrow> api_step E c s1 = Inr s2 \<Longrightarrow>
    api_run E allowed s (cs @ [c]) s2"

inductive_simps api_run_Nil: "api_run E allowed s [] s'"

text \<open>A program as one executable run.\<close>

fun api_exec :: "('q, 'e) env_scheme \<Rightarrow> api_call list \<Rightarrow> ('q, 'z) rt_scheme lcw_st \<Rightarrow> ('q, 'z) rt_scheme lcw_st res" where
  "api_exec E [] s = Inr s"
| "api_exec E (c # cs) s = bind_res (api_step E c s) (api_exec E cs)"

lemma api_exec_run:
  assumes "\<And>c i. c \<in> set cs \<Longrightarrow> allowed c i"
  shows "api_run E allowed s0 cs0 s \<Longrightarrow> api_exec E cs s = Inr s' \<Longrightarrow> api_run E allowed s0 (cs0 @ cs) s'"
  using assms
proof (induction cs arbitrary: cs0 s)
  case (Cons c cs)
  obtain s1 where s1: "api_step E c s = Inr s1" "api_exec E cs s1 = Inr s'"
    using Cons.prems(2) by (auto elim!: bind_resE)
  have "api_run E allowed s0 (cs0 @ [c]) s1" using Cons.prems(1,3) s1(1) by (intro api_run.call) auto
  from Cons.IH [OF this s1(2)] Cons.prems(3) show ?case by simp
qed simp

text \<open>
  What \<^verbatim>\<open>lcw.cpp\<close> relies on of a backend: every method keeps the invariant of the backend's state
  (when the call is allowed), and the counters recorded in the trace do not concern it.
\<close>

locale backend_contract =
  fixes b :: "('q, 'z) rt_scheme backend_base_t"
    and inv :: "('q, 'z) rt_scheme \<Rightarrow> bool"
    and allowed :: "api_call \<Rightarrow> ('q, 'z) rt_scheme \<Rightarrow> bool"
  assumes trace_free: "inv s \<Longrightarrow> inv (s\<lparr>trace := t\<rparr>)"
    and alloc_device_keeps: "inv s \<Longrightarrow> b_alloc_device b n c s = Inr (d, s') \<Longrightarrow> inv s'"
    and free_device_keeps: "inv s \<Longrightarrow> allowed (Free_device d) s \<Longrightarrow> b_free_device b d s = Inr s' \<Longrightarrow> inv s'"
    and do_progress_keeps: "inv s \<Longrightarrow> b_do_progress b d s = Inr (r, s') \<Longrightarrow> inv s'"
    and alloc_handler_keeps: "inv s \<Longrightarrow> b_alloc_handler b f s = Inr (c, s') \<Longrightarrow> inv s'"
    and free_handler_keeps: "inv s \<Longrightarrow> b_free_handler b c s = Inr s' \<Longrightarrow> inv s'"
    and alloc_cq_keeps: "inv s \<Longrightarrow> b_alloc_cq b s = Inr (c, s') \<Longrightarrow> inv s'"
    and free_cq_keeps: "inv s \<Longrightarrow> allowed (Free_cq c) s \<Longrightarrow> b_free_cq b c s = Inr s' \<Longrightarrow> inv s'"
    and poll_cq_keeps: "inv s \<Longrightarrow> b_poll_cq b c q s = Inr (r, q', s') \<Longrightarrow> inv s'"
    and send_keeps: "inv s \<Longrightarrow> b_send b d rank tag buf len c ctx s = Inr (r, s') \<Longrightarrow> inv s'"
    and recv_keeps: "inv s \<Longrightarrow> b_recv b d rank tag buf len c ctx s = Inr (r, s') \<Longrightarrow> inv s'"
    and put_keeps: "inv s \<Longrightarrow> b_put b d rank buf len c ctx s = Inr (r, s') \<Longrightarrow> inv s'"
    and barrier_keeps: "inv s \<Longrightarrow> b_barrier b d s = Inr s' \<Longrightarrow> inv s'"
    and allocator_keeps: "inv s \<Longrightarrow> inv (b_set_custom_allocator b a s)"
begin

lemma pcounters_keep:
  "inv s \<Longrightarrow> inv (pcounter_add E h v s)" "inv s \<Longrightarrow> inv (pcounter_begin E h s)" "inv s \<Longrightarrow> inv (pcounter_end E h s)"
  by (simp_all add: pcounter_add_def pcounter_begin_def pcounter_end_def log_event_def trace_free)

lemma on_inner_keeps:
  "bind_res (on_inner r s) (\<lambda>(_, s). Inr s) = Inr s' \<Longrightarrow> (\<And>x i. r = Inr (x, i) \<Longrightarrow> inv i) \<Longrightarrow>
   backend_p s' = backend_p s \<and> inv (inner s')"
  by (auto simp: on_inner_def elim!: bind_resE)

lemma on_inner_unit_keeps:
  "on_inner_unit r s = Inr s' \<Longrightarrow> (\<And>i. r = Inr i \<Longrightarrow> inv i) \<Longrightarrow> backend_p s' = backend_p s \<and> inv (inner s')"
  by (auto simp: on_inner_unit_def elim!: bind_resE)

lemma counted_call_keeps:
  assumes "bind_res (counted_call E timer started retried f s) (\<lambda>(_, s). Inr s) = Inr s'" and "inv (inner s)"
    and f: "\<And>s r s'. inv s \<Longrightarrow> f s = Inr (r, s') \<Longrightarrow> inv s'"
  shows "backend_p s' = backend_p s \<and> inv (inner s')"
proof -
  obtain r i where "f (pcounter_begin E timer (inner s)) = Inr (r, i)"
    and s': "s' = s\<lparr>inner := pcounter_add E (if r then started else retried) 1 (pcounter_end E timer i)\<rparr>"
    using assms(1) by (auto simp: counted_call_def Let_def elim!: bind_resE)
  then have "inv i" using f pcounters_keep(2) [OF assms(2)] by blast
  then show ?thesis using s' by (simp add: pcounters_keep)
qed

lemma api_step_keeps:
  assumes b: "backend_p s = Some b" and i: "inv (inner s)" and a: "allowed c (inner s)" and c: "api_step E c s = Inr s'"
  shows "backend_p s' = Some b \<and> inv (inner s')"
proof -
  have w: "with_backend s f = f b" for f :: "_ \<Rightarrow> 'x res" using b by (simp add: with_backend_def)
  have "backend_p s' = backend_p s \<and> inv (inner s')"
  proof (cases c)
    case (Alloc_device n p)
    then show ?thesis using c alloc_device_keeps [OF i] unfolding Alloc_device api_step.simps lcw_alloc_device_def w
      by (blast dest: on_inner_keeps)
  next
    case (Free_device d)
    then show ?thesis using c a free_device_keeps [OF i] unfolding Free_device api_step.simps lcw_free_device_def w
      by (blast dest: on_inner_unit_keeps)
  next
    case (Do_progress d)
    then show ?thesis using c do_progress_keeps [OF pcounters_keep(1) [OF i]]
      unfolding Do_progress api_step.simps lcw_do_progress_def w by (blast dest: on_inner_keeps)
  next
    case (Alloc_handler f)
    then show ?thesis using c alloc_handler_keeps [OF i] unfolding Alloc_handler api_step.simps lcw_alloc_handler_def w
      by (blast dest: on_inner_keeps)
  next
    case (Free_handler p)
    then show ?thesis using c free_handler_keeps [OF i] unfolding Free_handler api_step.simps lcw_free_handler_def w
      by (blast dest: on_inner_unit_keeps)
  next
    case Alloc_cq
    then show ?thesis using c alloc_cq_keeps [OF i] unfolding Alloc_cq api_step.simps lcw_alloc_cq_def w
      by (blast dest: on_inner_keeps)
  next
    case (Free_cq p)
    then show ?thesis using c a free_cq_keeps [OF i] unfolding Free_cq api_step.simps lcw_free_cq_def w
      by (blast dest: on_inner_unit_keeps)
  next
    case (Poll_cq p q)
    obtain r q' j where j: "b_poll_cq b p q (pcounter_add E comp_poll 1 (inner s)) = Inr (r, q', j)"
      and s': "s' = s\<lparr>inner := (if r then pcounter_add E comp_consume 1 j else j)\<rparr>"
      using c unfolding Poll_cq api_step.simps lcw_poll_cq_def w by (auto elim!: bind_resE)
    have "inv j" by (rule poll_cq_keeps [OF pcounters_keep(1) [OF i] j])
    then show ?thesis using s' by (simp add: pcounters_keep)
  next
    case (Send d rank tag buf len p ctx)
    show ?thesis using c unfolding Send api_step.simps lcw_send_def w
      by (rule counted_call_keeps [OF _ i]) (rule send_keeps)
  next
    case (Recv d rank tag buf len p ctx)
    show ?thesis using c unfolding Recv api_step.simps lcw_recv_def w
      by (rule counted_call_keeps [OF _ i]) (rule recv_keeps)
  next
    case (Put d rank buf len p ctx)
    show ?thesis using c unfolding Put api_step.simps lcw_put_def w
      by (rule counted_call_keeps [OF _ i]) (rule put_keeps)
  next
    case (Barrier d)
    then show ?thesis using c barrier_keeps [OF i] unfolding Barrier api_step.simps lcw_barrier_def w
      by (blast dest: on_inner_unit_keeps)
  next
    case (Set_custom_allocator p)
    then show ?thesis using c allocator_keeps [OF i] unfolding Set_custom_allocator api_step.simps lcw_set_custom_allocator_def w
      by auto
  qed
  then show ?thesis using b by simp
qed

lemma run_keeps:
  "api_run E allowed s cs s' \<Longrightarrow> backend_p s = Some b \<Longrightarrow> inv (inner s) \<Longrightarrow> backend_p s' = Some b \<and> inv (inner s')"
  by (induction rule: api_run.induct) (blast dest: api_step_keeps)+

end

end
