(* ===== verification/LCW_Delivery.thy ===== *)
theory LCW_Delivery
  imports LCW_Api
begin

text \<open>
  Delivery of completions, the contract of the library with its clients: every send and put that a
  program posts is reported exactly once, by \<^verbatim>\<open>poll_cq\<close> or to a handler, with the arguments it was
  posted with, or is still held by the library; and nothing else is reported as a send or a put.
  The contract of a backend is the locale \<open>exactly_once\<close>; each backend meets it.
\<close>

section \<open>Outstanding and delivered requests\<close>

definition outgoing :: "request_t \<Rightarrow> bool" where
  "outgoing r \<longleftrightarrow> req_op r = SEND \<or> req_op r = PUT"

definition out_heap :: "(ptr \<rightharpoonup> request_t) \<Rightarrow> request_t multiset" where
  "out_heap h = filter_mset outgoing (image_mset (\<lambda>p. the (h p)) (mset_set (dom h)))"

fun handler_arg :: "event \<Rightarrow> request_t option" where
  "handler_arg (Handler_call f r) = Some r"
| "handler_arg _ = None"

definition handled_in :: "event list \<Rightarrow> request_t multiset" where
  "handled_in t = filter_mset outgoing (mset (List.map_filter handler_arg t))"

text \<open>\<open>as_out r\<close> counts the request if it is a send or a put.\<close>

definition as_out :: "request_t \<Rightarrow> request_t multiset" where
  "as_out r = (if outgoing r then {#r#} else {#})"

text \<open>
  \<open>moves P D s s'\<close>: from \<open>s\<close> to \<open>s'\<close> the library took in the requests \<open>P\<close> and gave out \<open>D\<close> by return
  values; what it holds and what it gave to handlers changed accordingly.
\<close>

definition moves ::
  "request_t multiset \<Rightarrow> request_t multiset \<Rightarrow> ('q, 'z) rt_scheme \<Rightarrow> ('q, 'z) rt_scheme \<Rightarrow> bool" where
  "moves P D s s' \<longleftrightarrow> (fresh_ok s \<longrightarrow> fresh_ok s' \<and>
     D + out_heap (heap s') + handled_in (trace s') = P + out_heap (heap s) + handled_in (trace s) \<and>
     handled_in (trace s) \<subseteq># handled_in (trace s'))"

abbreviation quiet :: "('q, 'z) rt_scheme \<Rightarrow> ('q, 'z) rt_scheme \<Rightarrow> bool" where
  "quiet \<equiv> moves {#} {#}"

lemma one_simps [simp]: "req_op r = SEND \<Longrightarrow> as_out r = {#r#}" "req_op r = PUT \<Longrightarrow> as_out r = {#r#}"
  "req_op r = RECV \<Longrightarrow> as_out r = {#}" "req_op r = PUT_SIGNAL \<Longrightarrow> as_out r = {#}"
  by (simp_all add: as_out_def outgoing_def)

lemma out_heap_empty [simp]: "out_heap Map.empty = {#}"
  by (simp add: out_heap_def)

lemma out_heap_new:
  assumes "finite (dom h)" "h p = None"
  shows "out_heap (h(p \<mapsto> r)) = as_out r + out_heap h"
proof -
  have "image_mset (\<lambda>q. the ((h(p \<mapsto> r)) q)) (mset_set (dom h)) = image_mset (\<lambda>q. the (h q)) (mset_set (dom h))"
    using assms by (intro image_mset_cong) (auto simp: dom_def)
  moreover have "p \<notin> dom h" using assms(2) by auto
  ultimately show ?thesis using assms(1) by (simp add: out_heap_def as_out_def)
qed

lemma out_heap_delete:
  assumes "finite (dom h)" "h p = Some r"
  shows "out_heap h = as_out r + out_heap (h(p := None))"
proof -
  have "h = (h(p := None))(p \<mapsto> r)" using assms(2) by auto
  moreover have "finite (dom (h(p := None)))" using assms(1) by simp
  ultimately show ?thesis using out_heap_new [of "h(p := None)" p r] by simp
qed

lemma out_heap_replace:
  assumes "finite (dom h)" "h p = Some r" "as_out r' = as_out r"
  shows "out_heap (h(p \<mapsto> r')) = out_heap h"
  using out_heap_delete [OF assms(1,2)] out_heap_new [of "h(p := None)" p r'] assms by simp

lemma fresh_ok_finite: "fresh_ok s \<Longrightarrow> finite (dom (heap s))"
  by (rule finite_subset [of _ "{..<next_obj s}"]) (auto simp: fresh_ok_def)

lemma handled_in_append: "handled_in (t @ [e]) = handled_in t + (case handler_arg e of None \<Rightarrow> {#} | Some r \<Rightarrow> as_out r)"
  by (auto simp: handled_in_def map_filter_def as_out_def split: option.splits)

section \<open>Steps of the library\<close>

lemma moves_refl [simp, intro]: "quiet s s"
  by (simp add: moves_def)

lemma moves_trans:
  assumes a: "moves P D s s1" and b: "moves P' D' s1 s2" and eq: "P'' = P + P'" "D'' = D + D'"
  shows "moves P'' D'' s s2"
  unfolding moves_def
proof
  assume "fresh_ok s"
  with a have 1: "fresh_ok s1" "D + out_heap (heap s1) + handled_in (trace s1) = P + out_heap (heap s) + handled_in (trace s)"
    "handled_in (trace s) \<subseteq># handled_in (trace s1)" by (simp_all add: moves_def)
  with b have 2: "fresh_ok s2" "D' + out_heap (heap s2) + handled_in (trace s2) = P' + out_heap (heap s1) + handled_in (trace s1)"
    "handled_in (trace s1) \<subseteq># handled_in (trace s2)" by (simp_all add: moves_def)
  have "D + (D' + out_heap (heap s2) + handled_in (trace s2)) = P' + (D + out_heap (heap s1) + handled_in (trace s1))"
    using 2(2) by (simp add: ac_simps)
  then show "fresh_ok s2 \<and> D'' + out_heap (heap s2) + handled_in (trace s2) = P'' + out_heap (heap s) + handled_in (trace s) \<and>
      handled_in (trace s) \<subseteq># handled_in (trace s2)"
    using 1 2 eq by (auto simp: ac_simps dest: subset_mset.order_trans)
qed

lemma quiet_trans: "quiet s s1 \<Longrightarrow> moves P D s1 s2 \<Longrightarrow> moves P D s s2"
  by (erule (1) moves_trans) simp_all

lemma trans_quiet: "moves P D s s1 \<Longrightarrow> quiet s1 s2 \<Longrightarrow> moves P D s s2"
  by (erule (1) moves_trans) simp_all

text \<open>Whatever leaves the heap, the completion objects and the handler calls alone moves nothing.\<close>

lemma quiet_frame:
  assumes "heap s' = heap s" "dom (comps s') \<subseteq> dom (comps s)" "next_obj s \<le> next_obj s'"
    "handled_in (trace s') = handled_in (trace s)"
  shows "quiet s s'"
  unfolding moves_def using assms by (auto intro!: fresh_ok_grow [where s = s and s' = s'])

lemma moves_cong:
  assumes "heap t = heap t'" "comps t = comps t'" "next_obj t = next_obj t'" "handled_in (trace t) = handled_in (trace t')"
  shows "moves P D s t \<longleftrightarrow> moves P D s t'"
  using assms by (simp add: moves_def fresh_ok_def)

lemma moves_log [simp]: "handler_arg e = None \<Longrightarrow> moves P D s (log_event e t) \<longleftrightarrow> moves P D s t"
  by (rule moves_cong) (simp_all add: handled_in_append)

lemma moves_pcounter [simp]:
  "moves P D s (pcounter_add E h v t) \<longleftrightarrow> moves P D s t" "moves P D s (pcounter_begin E h t) \<longleftrightarrow> moves P D s t"
  "moves P D s (pcounter_end E h t) \<longleftrightarrow> moves P D s t"
  by (simp_all add: pcounter_add_def pcounter_begin_def pcounter_end_def)

lemma moves_mem [simp]:
  "moves P D s (t\<lparr>mem := m\<rparr>) \<longleftrightarrow> moves P D s t" "moves P D s (t\<lparr>blocks := b\<rparr>) \<longleftrightarrow> moves P D s t"
  by (rule moves_cong; simp)+

lemma quiet_pcounter:
  "quiet s (pcounter_add E h v s)" "quiet s (pcounter_begin E h s)" "quiet s (pcounter_end E h s)"
  by simp_all

lemma quiet_bump: "heap s' = heap s \<Longrightarrow> comps s' = comps s \<Longrightarrow> next_obj s \<le> next_obj s' \<Longrightarrow> trace s' = trace s \<Longrightarrow> quiet s s'"
  by (rule quiet_frame) simp_all

lemma moves_new_request:
  assumes "new_request r s = (p, s')"
  shows "moves (as_out r) {#} s s'"
proof -
  have s': "s' = s\<lparr>heap := (heap s)(next_obj s \<mapsto> r), next_obj := Suc (next_obj s)\<rparr>" using assms by (auto simp: new_request_def)
  show ?thesis unfolding moves_def
  proof
    assume f: "fresh_ok s"
    then have "fresh_ok s'" unfolding s' by (rule fresh_ok_grow) auto
    moreover have "out_heap (heap s') = as_out r + out_heap (heap s)"
      unfolding s' using f by (simp add: out_heap_new fresh_ok_finite)
    ultimately show "fresh_ok s' \<and> {#} + out_heap (heap s') + handled_in (trace s') =
        as_out r + out_heap (heap s) + handled_in (trace s) \<and> handled_in (trace s) \<subseteq># handled_in (trace s')"
      unfolding s' by simp
  qed
qed

lemma moves_delete:
  assumes "delete_request p s = Inr s'" "heap s p = Some r"
  shows "moves {#} (as_out r) s s'"
proof -
  have s': "s' = s\<lparr>heap := (heap s)(p := None)\<rparr>" using assms by simp
  show ?thesis unfolding moves_def
  proof
    assume f: "fresh_ok s"
    then have "fresh_ok s'" unfolding s' by (rule fresh_ok_grow) auto
    moreover have "out_heap (heap s) = as_out r + out_heap (heap s')"
      unfolding s' using out_heap_delete [OF fresh_ok_finite [OF f] assms(2)] by simp
    ultimately show "fresh_ok s' \<and> as_out r + out_heap (heap s') + handled_in (trace s') =
        {#} + out_heap (heap s) + handled_in (trace s) \<and> handled_in (trace s) \<subseteq># handled_in (trace s')"
      unfolding s' by simp
  qed
qed

lemma quiet_replace:
  assumes "heap s p = Some r" "as_out r' = as_out r" "heap s' = (heap s)(p \<mapsto> r')" "comps s' = comps s"
    "next_obj s' = next_obj s" "trace s' = trace s"
  shows "quiet s s'"
  unfolding moves_def
proof
  assume f: "fresh_ok s"
  then have "fresh_ok s'" using assms by (intro fresh_ok_grow [OF f]) auto
  then show "fresh_ok s' \<and> {#} + out_heap (heap s') + handled_in (trace s') = {#} + out_heap (heap s) + handled_in (trace s) \<and>
      handled_in (trace s) \<subseteq># handled_in (trace s')"
    using assms out_heap_replace [OF fresh_ok_finite [OF f] assms(1,2)] by simp
qed

section \<open>Completion objects\<close>

lemma moves_handler: "moves (as_out r) {#} s (log_event (Handler_call f r) s)"
  unfolding moves_def
proof
  assume f: "fresh_ok s"
  then have "fresh_ok (log_event (Handler_call f r) s)" by (rule fresh_ok_grow) simp_all
  then show "fresh_ok (log_event (Handler_call f r) s) \<and>
      {#} + out_heap (heap (log_event (Handler_call f r) s)) + handled_in (trace (log_event (Handler_call f r) s)) =
      as_out r + out_heap (heap s) + handled_in (trace s) \<and>
      handled_in (trace s) \<subseteq># handled_in (trace (log_event (Handler_call f r) s))"
    by (simp add: handled_in_append ac_simps)
qed

lemma moves_signal:
  assumes "util_signal_comp E c r s = Inr s'"
  shows "moves (as_out r) {#} s s'"
proof -
  obtain x where o: "comps s c = Some x" using assms by (auto simp: util_signal_comp_def deref_eq_Inr elim!: bind_resE)
  show ?thesis
  proof (cases x)
    case (Comp_cq q)
    let ?s1 = "snd (new_request r s)"
    have s': "s' = ?s1\<lparr>comps := (comps ?s1)(c \<mapsto> Comp_cq (LCT_queue_push E q (fst (new_request r s))))\<rparr>"
      using assms o Comp_cq by (simp add: util_signal_comp_def comp_cq_signal_def Let_def split: prod.splits)
    have "moves (as_out r) {#} s ?s1" by (rule moves_new_request [of r s "fst (new_request r s)"]) simp
    moreover have "quiet ?s1 s'" unfolding s' using o by (intro quiet_frame) (auto simp: new_request_def)
    ultimately show ?thesis by (rule trans_quiet)
  next
    case (Comp_handler f)
    then have "s' = log_event (Handler_call f r) s"
      using assms o by (simp add: util_signal_comp_def comp_handler_signal_def)
    moreover have "moves (as_out r) {#} s (log_event (Handler_call f r) s)" by (rule moves_handler)
    ultimately show ?thesis by simp
  qed
qed

lemma signal_heap: "util_signal_comp E c r s = Inr s' \<Longrightarrow> heap s p = Some r \<Longrightarrow> heap s' p = Some r"
  by (auto simp: util_signal_comp_def comp_cq_signal_def new_request_def comp_handler_signal_def
      split: comp_obj.splits elim!: bind_resE)

lemma moves_poll:
  assumes "util_poll_cq E c q s = Inr (ret, q', s')"
  shows "moves {#} (if ret then as_out q' else {#}) s s'"
proof -
  obtain cq where cq: "comps s c = Some (Comp_cq cq)" and p: "comp_cq_poll E c cq q s = Inr (ret, q', s')"
    using assms by (auto simp: util_poll_cq_def deref_eq_Inr split: comp_obj.splits elim!: bind_resE)
  let ?s1 = "s\<lparr>comps := (comps s)(c \<mapsto> Comp_cq (snd (LCT_queue_pop E cq)))\<rparr>"
  have 1: "quiet s ?s1" using cq by (intro quiet_frame) auto
  show ?thesis
  proof (cases "fst (LCT_queue_pop E cq) = nullptr")
    case True
    then show ?thesis using p 1 by (auto simp: comp_cq_poll_def Let_def split: prod.splits)
  next
    case False
    then have "heap ?s1 (fst (LCT_queue_pop E cq)) = Some q'" "delete_request (fst (LCT_queue_pop E cq)) ?s1 = Inr s'" "ret"
      using p by (auto simp: comp_cq_poll_def Let_def deref_eq_Inr split: prod.splits elim!: bind_resE)
    then show ?thesis using quiet_trans [OF 1 moves_delete] by simp
  qed
qed

lemma quiet_alloc_comp:
  "quiet s (snd (new_comp c s))" "util_free_cq p s = Inr s' \<Longrightarrow> quiet s s'" "util_free_handler p s = Inr s' \<Longrightarrow> quiet s s'"
proof -
  show "quiet s (snd (new_comp c s))" unfolding moves_def
  proof
    assume f: "fresh_ok s"
    then have "fresh_ok (snd (new_comp c s))" by (rule fresh_ok_grow) (auto simp: new_comp_def)
    then show "fresh_ok (snd (new_comp c s)) \<and>
        {#} + out_heap (heap (snd (new_comp c s))) + handled_in (trace (snd (new_comp c s))) =
        {#} + out_heap (heap s) + handled_in (trace s) \<and> handled_in (trace s) \<subseteq># handled_in (trace (snd (new_comp c s)))"
      by (simp add: new_comp_def)
  qed
  show "util_free_cq p s = Inr s' \<Longrightarrow> quiet s s'"
    by (rule quiet_frame) (auto simp: util_free_cq_def split: if_splits elim!: bind_resE)
  show "util_free_handler p s = Inr s' \<Longrightarrow> quiet s s'"
    by (rule quiet_frame) (auto simp: util_free_handler_def split: if_splits comp_obj.splits elim!: bind_resE)
qed

lemma base_quiet:
  "base_alloc_handler f s = Inr (c, s') \<Longrightarrow> quiet s s'" "base_alloc_cq E s = Inr (c, s') \<Longrightarrow> quiet s s'"
  "base_free_handler p s = Inr s' \<Longrightarrow> quiet s s'" "base_free_cq p s = Inr s' \<Longrightarrow> quiet s s'"
  using quiet_alloc_comp(1) [of s "Comp_handler f"] quiet_alloc_comp(1) [of s "Comp_cq (comp_cq_new E (to_size 65536))"]
  by (auto simp: base_alloc_handler_def base_alloc_cq_def util_alloc_handler_def util_alloc_cq_def base_free_handler_def
      base_free_cq_def quiet_alloc_comp)

section \<open>Programs and their history\<close>

text \<open>
  \<open>api_reply\<close> is one call with what it returns: the flag of the calls that return one, and the request
  \<^verbatim>\<open>poll_cq\<close> stores. The history of a program lists its calls with their replies.
\<close>

fun api_reply ::
  "('q, 'e) env_scheme \<Rightarrow> api_call \<Rightarrow> ('q, 'z) rt_scheme lcw_st \<Rightarrow> (bool \<times> request_t option \<times> ('q, 'z) rt_scheme lcw_st) res" where
  "api_reply E (Do_progress d) s = bind_res (lcw_do_progress E d s) (\<lambda>(ret, s). Inr (ret, None, s))"
| "api_reply E (Poll_cq c r) s = bind_res (lcw_poll_cq E c r s) (\<lambda>(ret, r, s). Inr (ret, Some r, s))"
| "api_reply E (Send d rank tag buf len c ctx) s =
     bind_res (lcw_send E d rank tag buf len c ctx s) (\<lambda>(ret, s). Inr (ret, None, s))"
| "api_reply E (Recv d rank tag buf len c ctx) s =
     bind_res (lcw_recv E d rank tag buf len c ctx s) (\<lambda>(ret, s). Inr (ret, None, s))"
| "api_reply E (Put d rank buf len c ctx) s =
     bind_res (lcw_put E d rank buf len c ctx s) (\<lambda>(ret, s). Inr (ret, None, s))"
| "api_reply E c s = bind_res (api_step E c s) (\<lambda>s. Inr (True, None, s))"

type_synonym history = "(api_call \<times> bool \<times> request_t option) list"

fun api_history ::
  "('q, 'e) env_scheme \<Rightarrow> api_call list \<Rightarrow> ('q, 'z) rt_scheme lcw_st \<Rightarrow> (history \<times> ('q, 'z) rt_scheme lcw_st) res" where
  "api_history E [] s = Inr ([], s)"
| "api_history E (c # cs) s =
     bind_res (api_reply E c s) (\<lambda>(ret, r, s).
     bind_res (api_history E cs s) (\<lambda>(h, s). Inr ((c, ret, r) # h, s)))"

text \<open>
  The request a call posts. A put does not name a tag; the one in its request is the backend's.
\<close>

fun posts :: "api_call \<Rightarrow> request_t \<Rightarrow> bool" where
  "posts (Send d rank tag buf len c ctx) r \<longleftrightarrow>
     r = \<lparr>req_op = SEND, req_device = d, req_rank = rank, req_tag = tag, req_buffer = buf, req_length = len, req_user_context = ctx\<rparr>"
| "posts (Put d rank buf len c ctx) r \<longleftrightarrow>
     r = \<lparr>req_op = PUT, req_device = d, req_rank = rank, req_tag = req_tag r, req_buffer = buf, req_length = len, req_user_context = ctx\<rparr>"
| "posts _ r \<longleftrightarrow> False"

fun is_post :: "api_call \<Rightarrow> bool" where
  "is_post (Send d rank tag buf len c ctx) = True"
| "is_post (Put d rank buf len c ctx) = True"
| "is_post _ = False"

definition accepted :: "history \<Rightarrow> api_call list" where
  "accepted h = map fst (filter (\<lambda>(c, ret, _). is_post c \<and> ret) h)"

fun reported :: "history \<Rightarrow> request_t multiset" where
  "reported [] = {#}"
| "reported ((_, ret, Some r) # h) = (if ret then as_out r else {#}) + reported h"
| "reported ((_, _, None) # h) = reported h"

locale exactly_once =
  fixes b :: "('q, 'z) rt_scheme backend_base_t"
  assumes alloc_device_quiet: "b_alloc_device b n c s = Inr (d, s') \<Longrightarrow> quiet s s'"
    and free_device_quiet: "b_free_device b d s = Inr s' \<Longrightarrow> quiet s s'"
    and do_progress_quiet: "b_do_progress b d s = Inr (ret, s') \<Longrightarrow> quiet s s'"
    and alloc_handler_quiet: "b_alloc_handler b f s = Inr (c, s') \<Longrightarrow> quiet s s'"
    and free_handler_quiet: "b_free_handler b c s = Inr s' \<Longrightarrow> quiet s s'"
    and alloc_cq_quiet: "b_alloc_cq b s = Inr (c, s') \<Longrightarrow> quiet s s'"
    and free_cq_quiet: "b_free_cq b c s = Inr s' \<Longrightarrow> quiet s s'"
    and barrier_quiet: "b_barrier b d s = Inr s' \<Longrightarrow> quiet s s'"
    and allocator_quiet: "quiet s (b_set_custom_allocator b a s)"
    and recv_quiet: "b_recv b d rank tag buf len c ctx s = Inr (ret, s') \<Longrightarrow> quiet s s'"
    and send_moves: "b_send b d rank tag buf len c ctx s = Inr (ret, s') \<Longrightarrow>
      \<exists>r. posts (Send d rank tag buf len c ctx) r \<and> moves (if ret then {#r#} else {#}) {#} s s'"
    and put_moves: "b_put b d rank buf len c ctx s = Inr (ret, s') \<Longrightarrow>
      \<exists>r. posts (Put d rank buf len c ctx) r \<and> moves (if ret then {#r#} else {#}) {#} s s'"
    and poll_moves: "b_poll_cq b c q s = Inr (ret, q', s') \<Longrightarrow> moves {#} (if ret then as_out q' else {#}) s s'"
begin

lemma counted_call_moves:
  assumes "counted_call E timer started retried f s = Inr (ret, s')"
    and "\<And>s ret s'. f s = Inr (ret, s') \<Longrightarrow> \<exists>r. Q r \<and> moves (P ret r) {#} s s'"
  shows "backend_p s' = backend_p s \<and> (\<exists>r. Q r \<and> moves (P ret r) {#} (inner s) (inner s'))"
proof -
  obtain i where i: "f (pcounter_begin E timer (inner s)) = Inr (ret, i)"
    and s': "s' = s\<lparr>inner := pcounter_add E (if ret then started else retried) 1 (pcounter_end E timer i)\<rparr>"
    using assms(1) by (auto simp: counted_call_def Let_def elim!: bind_resE)
  obtain r where r: "Q r" "moves (P ret r) {#} (pcounter_begin E timer (inner s)) i" using assms(2) [OF i] by blast
  have "moves (P ret r) {#} (inner s) i" by (rule quiet_trans [OF quiet_pcounter(2) r(2)])
  then have "moves (P ret r) {#} (inner s) (inner s')" unfolding s' by simp
  then show ?thesis unfolding s' using r(1) by auto
qed

lemma on_inner_quiet:
  "bind_res (on_inner r s) (\<lambda>(x, s). Inr (f x, g x, s)) = Inr (ret, y, s') \<Longrightarrow> (\<And>x i. r = Inr (x, i) \<Longrightarrow> quiet (inner s) i) \<Longrightarrow>
   backend_p s' = backend_p s \<and> quiet (inner s) (inner s')"
  by (auto simp: on_inner_def elim!: bind_resE)

lemma on_inner_step_quiet:
  "bind_res (bind_res (on_inner r s) (\<lambda>(_, s). Inr s)) (\<lambda>s. Inr (True, None, s)) = Inr (ret, y, s') \<Longrightarrow>
   (\<And>x i. r = Inr (x, i) \<Longrightarrow> quiet (inner s) i) \<Longrightarrow> backend_p s' = backend_p s \<and> quiet (inner s) (inner s') \<and> y = None"
  by (auto simp: on_inner_def elim!: bind_resE)

lemma on_inner_unit_quiet:
  "bind_res (on_inner_unit r s) (\<lambda>s. Inr (True, None, s)) = Inr (ret, y, s') \<Longrightarrow> (\<And>i. r = Inr i \<Longrightarrow> quiet (inner s) i) \<Longrightarrow>
   backend_p s' = backend_p s \<and> quiet (inner s) (inner s') \<and> y = None"
  by (auto simp: on_inner_unit_def elim!: bind_resE)

text \<open>One call takes in what it posts and gives out what it reports.\<close>

lemma reply_moves:
  assumes bp: "backend_p s = Some b" and c: "api_reply E c s = Inr (ret, y, s')"
  shows "backend_p s' = Some b \<and> (\<exists>ps. list_all2 posts (accepted [(c, ret, y)]) ps \<and>
    moves (mset ps) (reported [(c, ret, y)]) (inner s) (inner s'))"
proof -
  have w: "with_backend s f = f b" for f :: "_ \<Rightarrow> 'x res" using bp by (simp add: with_backend_def)
  have quietly: "backend_p s' = Some b \<and> (\<exists>ps. list_all2 posts (accepted [(c, ret, y)]) ps \<and>
      moves (mset ps) (reported [(c, ret, y)]) (inner s) (inner s'))"
    if "backend_p s' = backend_p s \<and> quiet (inner s) (inner s') \<and> y = None" "\<not> is_post c"
    using that bp by (intro conjI exI [of _ "[]"]) (simp_all add: accepted_def)
  have posting: "backend_p s' = Some b \<and> (\<exists>ps. list_all2 posts (accepted [(c, ret, y)]) ps \<and>
      moves (mset ps) (reported [(c, ret, y)]) (inner s) (inner s'))"
    if "backend_p s' = backend_p s" "posts c r" "moves (if ret then {#r#} else {#}) {#} (inner s) (inner s')" "y = None" "is_post c" for r
    using that bp by (intro conjI exI [of _ "if ret then [r] else []"]) (auto simp: accepted_def)
  show ?thesis
  proof (cases c)
    case (Alloc_device n p)
    show ?thesis using c alloc_device_quiet unfolding Alloc_device api_reply.simps api_step.simps lcw_alloc_device_def w
      by (intro quietly [unfolded Alloc_device]) (blast dest: on_inner_step_quiet, simp)
  next
    case (Free_device d)
    show ?thesis using c free_device_quiet unfolding Free_device api_reply.simps api_step.simps lcw_free_device_def w
      by (intro quietly [unfolded Free_device]) (blast dest: on_inner_unit_quiet, simp)
  next
    case (Do_progress d)
    obtain i where i: "b_do_progress b d (pcounter_add E progress 1 (inner s)) = Inr (ret, i)" "s' = s\<lparr>inner := i\<rparr>" "y = None"
      using c unfolding Do_progress api_reply.simps lcw_do_progress_def w by (auto simp: on_inner_def elim!: bind_resE)
    then show ?thesis unfolding Do_progress
      by (intro quietly [unfolded Do_progress]) (simp_all add: quiet_trans [OF quiet_pcounter(1) do_progress_quiet])
  next
    case (Alloc_handler f)
    show ?thesis using c alloc_handler_quiet unfolding Alloc_handler api_reply.simps api_step.simps lcw_alloc_handler_def w
      by (intro quietly [unfolded Alloc_handler]) (blast dest: on_inner_step_quiet, simp)
  next
    case (Free_handler p)
    show ?thesis using c free_handler_quiet unfolding Free_handler api_reply.simps api_step.simps lcw_free_handler_def w
      by (intro quietly [unfolded Free_handler]) (blast dest: on_inner_unit_quiet, simp)
  next
    case Alloc_cq
    show ?thesis using c alloc_cq_quiet unfolding Alloc_cq api_reply.simps api_step.simps lcw_alloc_cq_def w
      by (intro quietly [unfolded Alloc_cq]) (blast dest: on_inner_step_quiet, simp)
  next
    case (Free_cq p)
    show ?thesis using c free_cq_quiet unfolding Free_cq api_reply.simps api_step.simps lcw_free_cq_def w
      by (intro quietly [unfolded Free_cq]) (blast dest: on_inner_unit_quiet, simp)
  next
    case (Poll_cq p q)
    obtain q' j where j: "b_poll_cq b p q (pcounter_add E comp_poll 1 (inner s)) = Inr (ret, q', j)"
      and s': "s' = s\<lparr>inner := (if ret then pcounter_add E comp_consume 1 j else j)\<rparr>" "y = Some q'"
      using c unfolding Poll_cq api_reply.simps lcw_poll_cq_def w by (auto elim!: bind_resE)
    have "moves {#} (if ret then as_out q' else {#}) (inner s) j" by (rule quiet_trans [OF quiet_pcounter(1) poll_moves [OF j]])
    then have "moves {#} (if ret then as_out q' else {#}) (inner s) (inner s')"
      by (cases ret) (simp_all add: s')
    then show ?thesis unfolding Poll_cq s'(2) using s'(1) bp by (intro conjI exI [of _ "[]"]) (simp_all add: accepted_def)
  next
    case (Send d rank tag buf len p ctx)
    obtain "y = None" and call: "counted_call E send_timer send_start send_retry (b_send b d rank tag buf len p ctx) s = Inr (ret, s')"
      using c unfolding Send api_reply.simps lcw_send_def w by (auto elim!: bind_resE)
    have "backend_p s' = backend_p s \<and> (\<exists>r. posts c r \<and> moves (if ret then {#r#} else {#}) {#} (inner s) (inner s'))"
      by (rule counted_call_moves [OF call, where P = "\<lambda>ret r. if ret then {#r#} else {#}"]) (unfold Send, rule send_moves)
    then obtain r where r: "backend_p s' = backend_p s" "posts c r" "moves (if ret then {#r#} else {#}) {#} (inner s) (inner s')"
      by blast
    show ?thesis by (rule posting [OF r \<open>y = None\<close>]) (simp add: Send)
  next
    case (Put d rank buf len p ctx)
    obtain "y = None" and call: "counted_call E put_timer put_start put_retry (b_put b d rank buf len p ctx) s = Inr (ret, s')"
      using c unfolding Put api_reply.simps lcw_put_def w by (auto elim!: bind_resE)
    have "backend_p s' = backend_p s \<and> (\<exists>r. posts c r \<and> moves (if ret then {#r#} else {#}) {#} (inner s) (inner s'))"
      by (rule counted_call_moves [OF call, where P = "\<lambda>ret r. if ret then {#r#} else {#}"]) (unfold Put, rule put_moves)
    then obtain r where r: "backend_p s' = backend_p s" "posts c r" "moves (if ret then {#r#} else {#}) {#} (inner s) (inner s')"
      by blast
    show ?thesis by (rule posting [OF r \<open>y = None\<close>]) (simp add: Put)
  next
    case (Recv d rank tag buf len p ctx)
    obtain "y = None" and call: "counted_call E recv_timer recv_start recv_retry (b_recv b d rank tag buf len p ctx) s = Inr (ret, s')"
      using c unfolding Recv api_reply.simps lcw_recv_def w by (auto elim!: bind_resE)
    have "backend_p s' = backend_p s \<and> (\<exists>r::nat. True \<and> quiet (inner s) (inner s'))"
      by (rule counted_call_moves [OF call, where P = "\<lambda>_ _. {#}"]) (simp add: recv_quiet)
    then show ?thesis using \<open>y = None\<close> unfolding Recv by (intro quietly [unfolded Recv]) simp_all
  next
    case (Barrier d)
    show ?thesis using c barrier_quiet unfolding Barrier api_reply.simps api_step.simps lcw_barrier_def w
      by (intro quietly [unfolded Barrier]) (blast dest: on_inner_unit_quiet, simp)
  next
    case (Set_custom_allocator p)
    show ?thesis using c allocator_quiet unfolding Set_custom_allocator api_reply.simps api_step.simps lcw_set_custom_allocator_def w
      by (intro quietly [unfolded Set_custom_allocator]) auto
  qed
qed

lemma accepted_Cons: "accepted (x # h) = accepted [x] @ accepted h"
  by (simp add: accepted_def)

lemma reported_Cons: "reported (x # h) = reported [x] + reported h"
proof (cases x)
  case (fields c ret y)
  then show ?thesis by (cases y) simp_all
qed

lemma history_moves:
  "backend_p s = Some b \<Longrightarrow> api_history E cs s = Inr (h, s') \<Longrightarrow>
   backend_p s' = Some b \<and> (\<exists>ps. list_all2 posts (accepted h) ps \<and> moves (mset ps) (reported h) (inner s) (inner s'))"
proof (induction cs arbitrary: s h)
  case Nil
  then show ?case by (auto simp: accepted_def)
next
  case (Cons c cs)
  obtain ret y s1 h1 where c: "api_reply E c s = Inr (ret, y, s1)" and h1: "api_history E cs s1 = Inr (h1, s')"
    and h: "h = (c, ret, y) # h1" using Cons.prems(2) by (auto elim!: bind_resE)
  obtain ps where ps: "list_all2 posts (accepted [(c, ret, y)]) ps" "moves (mset ps) (reported [(c, ret, y)]) (inner s) (inner s1)"
    and b1: "backend_p s1 = Some b" using reply_moves [OF Cons.prems(1) c] by blast
  obtain qs where qs: "list_all2 posts (accepted h1) qs" "moves (mset qs) (reported h1) (inner s1) (inner s')"
    using Cons.IH [OF b1 h1] by blast
  have "list_all2 posts (accepted h) (ps @ qs)"
    unfolding h using list_all2_appendI [OF ps(1) qs(1)] accepted_Cons by metis
  moreover have "moves (mset (ps @ qs)) (reported h) (inner s) (inner s')"
    unfolding h by (rule moves_trans [OF ps(2) qs(2)]) (simp, rule reported_Cons)
  ultimately show ?case using Cons.IH [OF b1 h1] by blast
qed

text \<open>
  What a program posted is what was reported to it, what went to handlers and what is still held;
  in particular nothing is reported that was not posted.
\<close>

lemma history_exactly_once:
  assumes "backend_p s = Some b" and "api_history E cs s = Inr (h, s')"
    and "fresh_ok (inner s)" and "out_heap (heap (inner s)) = {#}" and "handled_in (trace (inner s)) = {#}"
  shows "\<exists>ps. list_all2 posts (accepted h) ps \<and>
    mset ps = reported h + out_heap (heap (inner s')) + handled_in (trace (inner s'))"
  using history_moves [OF assms(1,2)] assms(3-5) by (auto simp: moves_def)

end

end
