(* ===== verification/LCW_Cq_Owners.thy ===== *)
theory LCW_Cq_Owners
  imports LCW_Api
begin

text \<open>
  Ownership in a backend whose requests live in completion queues only (the GASNet-EX backend):
  every \<^verbatim>\<open>request_t\<close> on the heap is in exactly one place of exactly one queue. Signalling,
  polling, allocating and freeing completion objects keep this.
\<close>

definition cqs_inv :: "('q, 'e) env_scheme \<Rightarrow> ('q \<Rightarrow> ptr list) \<Rightarrow> ('q, 'z) rt_scheme \<Rightarrow> bool" where
  "cqs_inv E view s \<longleftrightarrow>
     lct_queue_fifo E view \<and> fresh_ok s \<and> partitioned (\<lambda>c. cq_ids view c s) (dom (heap s))"

lemma cqs_invD:
  assumes "cqs_inv E view s"
  shows "lct_queue_fifo E view" "fresh_ok s" "partitioned (\<lambda>c. cq_ids view c s) (dom (heap s))"
  using assms by (simp_all add: cqs_inv_def)

lemma cqs_inv_frame:
  assumes "cqs_inv E view s" and "heap s' = heap s" "comps s' = comps s" "next_obj s \<le> next_obj s'"
  shows "cqs_inv E view s'"
proof -
  have "fresh_ok s'" by (rule fresh_ok_grow [OF cqs_invD(2) [OF assms(1)]]) (simp_all add: assms(2-4))
  then show ?thesis using assms by (simp add: cqs_inv_def cq_ids_def)
qed

lemma cqs_inv_cq:
  assumes I: "cqs_inv E view s" and "is_cq c s"
  shows "cq_inv E view c s"
proof -
  note D = cqs_invD [OF I]
  have "set (cq_ids view c s) \<subseteq> dom (heap s)" using partitioned_mem [OF D(3), of _ c] by blast
  then show ?thesis using assms(2) D(1,2) partitioned_distinct [OF D(3), of c] unfolding cq_inv_def by blast
qed

text \<open>Replacing one completion object by one that holds the given requests.\<close>

lemma cq_ids_update:
  "comps s' = (comps s)(c := x) \<Longrightarrow>
   (\<lambda>d. cq_ids view d s') = (\<lambda>d. cq_ids view d s)(c := (case x of Some (Comp_cq q) \<Rightarrow> view q | _ \<Rightarrow> []))"
  by (auto simp: fun_eq_iff cq_ids_def)

lemma cqs_inv_signal:
  assumes I: "cqs_inv E view s" and sg: "util_signal_comp E c r s = Inr s'"
  shows "cqs_inv E view s'"
proof -
  note D = cqs_invD [OF I]
  obtain x where x: "comps s c = Some x"
    and s': "s' = (case x of Comp_cq q \<Rightarrow> comp_cq_signal E c q r s | Comp_handler h \<Rightarrow> comp_handler_signal h r s)"
    using sg by (auto simp: util_signal_comp_def deref_eq_Inr split: comp_obj.splits elim!: bind_resE)
  show ?thesis
  proof (cases x)
    case (Comp_cq q)
    let ?q = "LCT_queue_push E q (next_obj s)"
    have c: "comps s' = (comps s)(c \<mapsto> Comp_cq ?q)" "heap s' = (heap s)(next_obj s \<mapsto> r)" "next_obj s' = Suc (next_obj s)"
      using s' Comp_cq by (simp_all add: comp_cq_signal_def new_request_def)
    have v: "view ?q = view q @ [next_obj s]" using D(1,2) by (simp add: lct_queue_fifo_def)
    have "partitioned ((\<lambda>d. cq_ids view d s)(c := view ?q)) (insert (next_obj s) (dom (heap s)))"
      using D(2) x Comp_cq by (intro partitioned_alloc [OF D(3)]) (simp_all add: v cq_ids_def domIff)
    moreover have "fresh_ok s'" using x by (intro fresh_ok_grow [OF D(2)]) (auto simp: c)
    ultimately show ?thesis using D(1) by (simp add: cqs_inv_def cq_ids_update [OF c(1)] c(2))
  next
    case (Comp_handler h)
    then show ?thesis using s' by (intro cqs_inv_frame [OF I]) (simp_all add: comp_handler_signal_def)
  qed
qed

lemma cqs_inv_poll:
  assumes I: "cqs_inv E view s" and p: "util_poll_cq E c out s = Inr (b, r, s')"
  shows "cqs_inv E view s'"
proof -
  note D = cqs_invD [OF I]
  obtain q where q: "comps s c = Some (Comp_cq q)" and p': "comp_cq_poll E c q out s = Inr (b, r, s')"
    using p by (auto simp: util_poll_cq_def deref_eq_Inr split: comp_obj.splits elim!: bind_resE)
  obtain a q' where a: "LCT_queue_pop E q = (a, q')" by fastforce
  let ?s1 = "s\<lparr>comps := (comps s)(c \<mapsto> Comp_cq q')\<rparr>"
  have w: "(\<lambda>d. cq_ids view d ?s1) = (\<lambda>d. cq_ids view d s)(c := view q')"
    by (subst cq_ids_update [of _ s c "Some (Comp_cq q')"]) simp_all
  have fr: "fresh_ok ?s1" using D(2) q by (auto simp: fresh_ok_def)
  have own: "cq_ids view c s = view q" using q by (simp add: cq_ids_def)
  show ?thesis
  proof (cases "view q")
    case Nil
    then have e: "a = nullptr" "view q' = []" using D(1) a by (auto simp: lct_queue_fifo_def dest: spec [of _ q])
    then have "s' = ?s1" using p' a by (simp add: comp_cq_poll_def)
    moreover have "partitioned ((\<lambda>d. cq_ids view d s)(c := view q')) (dom (heap s))"
      using own Nil e by (intro partitioned_permute [OF D(3)]) simp
    ultimately show ?thesis using D(1) fr w by (simp add: cqs_inv_def)
  next
    case (Cons x xs)
    then have e: "a = x" "view q' = xs" using D(1) a by (auto simp: lct_queue_fifo_def dest: spec [of _ q])
    have live: "x \<in> dom (heap s)" using partitioned_mem [OF D(3), of x c] own Cons by simp
    then have "x \<noteq> nullptr" using D(2) by (auto simp: fresh_ok_def)
    then have "s' = ?s1\<lparr>heap := (heap s)(x := None)\<rparr>"
      using p' a e live by (auto simp: comp_cq_poll_def)
    moreover have "partitioned ((\<lambda>d. cq_ids view d s)(c := view q')) (dom (heap s) - {x})"
      using own Cons e by (intro partitioned_free [OF D(3)]) simp
    moreover have "fresh_ok (?s1\<lparr>heap := (heap s)(x := None)\<rparr>)" using fr by (auto simp: fresh_ok_def)
    moreover have "(\<lambda>d. cq_ids view d (?s1\<lparr>heap := (heap s)(x := None)\<rparr>)) = (\<lambda>d. cq_ids view d ?s1)"
      by (simp add: cq_ids_def)
    ultimately show ?thesis using D(1) w by (simp add: cqs_inv_def)
  qed
qed

lemma cqs_inv_new_comp:
  assumes I: "cqs_inv E view s" and x: "(case x of Comp_cq q \<Rightarrow> view q | Comp_handler _ \<Rightarrow> []) = []"
    and n: "new_comp x s = (c, s')"
  shows "cqs_inv E view s'"
proof -
  note D = cqs_invD [OF I]
  have s': "comps s' = (comps s)(next_obj s \<mapsto> x)" "heap s' = heap s" "next_obj s' = Suc (next_obj s)"
    using n by (auto simp: new_comp_def)
  have e: "cq_ids view (next_obj s) s = []" using D(2) by (simp add: cq_ids_def)
  have "(\<lambda>d. cq_ids view d s') = (\<lambda>d. cq_ids view d s)"
    unfolding cq_ids_update [OF s'(1)] using x e by (auto simp: fun_eq_iff split: comp_obj.splits)
  moreover have "fresh_ok s'" by (intro fresh_ok_grow [OF D(2)]) (auto simp: s')
  ultimately show ?thesis using D(1,3) s'(2) by (simp add: cqs_inv_def)
qed

lemma cqs_inv_alloc_cq: "cqs_inv E view s \<Longrightarrow> util_alloc_cq E n s = (c, s') \<Longrightarrow> cqs_inv E view s'"
  unfolding util_alloc_cq_def
  by (erule cqs_inv_new_comp [rotated 2]) (auto simp: comp_cq_new_def lct_queue_fifo_def dest: cqs_invD(1))

lemma cqs_inv_alloc_handler: "cqs_inv E view s \<Longrightarrow> util_alloc_handler f s = (c, s') \<Longrightarrow> cqs_inv E view s'"
  unfolding util_alloc_handler_def by (erule cqs_inv_new_comp [rotated 2]) simp_all

lemma cqs_inv_drop:
  assumes I: "cqs_inv E view s" and "cq_ids view c s = []"
  shows "cqs_inv E view (s\<lparr>comps := (comps s)(c := None)\<rparr>)"
proof -
  note D = cqs_invD [OF I]
  have "(\<lambda>d. cq_ids view d (s\<lparr>comps := (comps s)(c := None)\<rparr>)) = (\<lambda>d. cq_ids view d s)"
    using assms(2) by (subst cq_ids_update [of _ s c None]) (auto simp: fun_eq_iff)
  moreover have "fresh_ok (s\<lparr>comps := (comps s)(c := None)\<rparr>)" using D(2) by (auto simp: fresh_ok_def)
  ultimately show ?thesis using D by (simp add: cqs_inv_def)
qed

lemma cqs_inv_free_cq:
  "cqs_inv E view s \<Longrightarrow> cq_ids view c s = [] \<Longrightarrow> util_free_cq c s = Inr s' \<Longrightarrow> cqs_inv E view s'"
  by (auto simp: util_free_cq_def split: if_splits elim!: bind_resE intro: cqs_inv_drop)

lemma cqs_inv_free_handler:
  "cqs_inv E view s \<Longrightarrow> util_free_handler c s = Inr s' \<Longrightarrow> cqs_inv E view s'"
  by (auto simp: util_free_handler_def deref_eq_Inr cq_ids_def split: if_splits comp_obj.splits elim!: bind_resE
      intro!: cqs_inv_drop)

end
