(* ===== verification/LCW_Routing.thy ===== *)
theory LCW_Routing
  imports LCW_Delivery LCW_Cq_Owners
begin

text \<open>
  Which completion goes where. An operation is posted with a completion object, and its completion has
  to reach that object and no other. The library does not record the object in the \<^verbatim>\<open>request_t\<close>: it
  travels beside it, in the entries of completion managers and in the queues. \<open>route\<close> is an
  assignment of destinations to request objects that what the state holds agrees with.
\<close>

section \<open>Operations by destination\<close>

text \<open>
  What a completion says of the posted operation: everything for a send or a put; a receive learns its
  length, tag and source from the message.
\<close>

definition essence :: "request_t \<Rightarrow> request_t" where
  "essence r = (if req_op r = RECV then r\<lparr>req_rank := 0, req_tag := 0, req_length := 0\<rparr> else r)"

definition as_op :: "request_t \<Rightarrow> request_t multiset" where
  "as_op r = (if req_op r = PUT_SIGNAL then {#} else {#essence r#})"

definition toward :: "ptr \<Rightarrow> request_t \<Rightarrow> ptr \<Rightarrow> request_t multiset" where
  "toward c r c' = (if c' = c then as_op r else {#})"

type_synonym route = "ptr \<Rightarrow> ptr"

definition held_to :: "route \<Rightarrow> ptr \<Rightarrow> (ptr \<rightharpoonup> request_t) \<Rightarrow> request_t multiset" where
  "held_to G c h = (\<Sum>p\<in>dom h. if G p = c then as_op (the (h p)) else {#})"

lemma as_op_signal [simp]: "req_op r = PUT_SIGNAL \<Longrightarrow> as_op r = {#}"
  by (simp add: as_op_def)

lemma held_to_empty [simp]: "held_to G c Map.empty = {#}"
  by (simp add: held_to_def)

lemma held_to_new:
  assumes "finite (dom h)" "h p = None" "\<And>q. q \<in> dom h \<Longrightarrow> G' q = G q"
  shows "held_to G' c (h(p \<mapsto> r)) = toward (G' p) r c + held_to G c h"
proof -
  have p: "p \<notin> dom h" using assms(2) by auto
  have "(\<Sum>q\<in>dom h. if G' q = c then as_op (the ((h(p \<mapsto> r)) q)) else {#}) = (\<Sum>q\<in>dom h. if G q = c then as_op (the (h q)) else {#})"
    using p assms(3) by (intro sum.cong) auto
  then show ?thesis using assms(1) p by (simp add: held_to_def toward_def)
qed

lemma held_to_delete:
  assumes "finite (dom h)" "h p = Some r"
  shows "held_to G c h = toward (G p) r c + held_to G c (h(p := None))"
  using held_to_new [of "h(p := None)" p G G c r] assms by (simp add: fun_upd_idem)

lemma held_to_replace:
  assumes "finite (dom h)" "h p = Some r" "as_op r' = as_op r"
  shows "held_to G c (h(p \<mapsto> r')) = held_to G c h"
  using held_to_delete [OF assms(1,2), of G c] held_to_new [of "h(p := None)" p G G c r'] assms by (simp add: toward_def)

text \<open>A completion queue, or an address at which one may still be allocated.\<close>

definition open_cq :: "ptr \<Rightarrow> ('q, 'z) rt_scheme \<Rightarrow> bool" where
  "open_cq c s \<longleftrightarrow> is_cq c s \<or> next_obj s \<le> c"

lemma open_cq_same: "comps s' = comps s \<Longrightarrow> next_obj s \<le> next_obj s' \<Longrightarrow> open_cq c s' \<Longrightarrow> open_cq c s"
  by (auto simp: open_cq_def is_cq_def)

lemma toward_signal [simp]: "req_op r = PUT_SIGNAL \<Longrightarrow> toward c r = (\<lambda>_. {#})"
  by (simp add: toward_def fun_eq_iff)

section \<open>Flow\<close>

definition routed :: "(ptr \<times> ptr) set \<Rightarrow> route \<Rightarrow> ptr \<Rightarrow> bool" where
  "routed A G n \<longleftrightarrow> (\<forall>(p, c)\<in>A. p \<noteq> nullptr \<longrightarrow> p < n \<and> G p = c)"

text \<open>
  \<open>flows P D A s A' s'\<close>: from \<open>s\<close>, whose pairs of a request object and its destination are \<open>A\<close>, to \<open>s'\<close> with \<open>A'\<close>,
  the library took in \<open>P c\<close> for each queue \<open>c\<close> and gave out \<open>D c\<close>; destinations do not change.
\<close>

definition flows ::
  "(ptr \<Rightarrow> request_t multiset) \<Rightarrow> (ptr \<Rightarrow> request_t multiset) \<Rightarrow> (ptr \<times> ptr) set \<Rightarrow> ('q, 'z) rt_scheme \<Rightarrow>
   (ptr \<times> ptr) set \<Rightarrow> ('q, 'z) rt_scheme \<Rightarrow> bool" where
  "flows P D A s A' s' \<longleftrightarrow> (fresh_ok s \<longrightarrow> fresh_ok s' \<and> next_obj s \<le> next_obj s' \<and> (\<forall>c. open_cq c s' \<longrightarrow> open_cq c s) \<and>
     (\<forall>G. routed A G (next_obj s) \<longrightarrow> (\<exists>G'. (\<forall>p<next_obj s. G' p = G p) \<and> routed A' G' (next_obj s') \<and>
        (\<forall>c. open_cq c s' \<longrightarrow> D c + held_to G' c (heap s') = P c + held_to G c (heap s)))))"

abbreviation none :: "ptr \<Rightarrow> request_t multiset" where
  "none \<equiv> \<lambda>_. {#}"

abbreviation still :: "(ptr \<times> ptr) set \<Rightarrow> ('q, 'z) rt_scheme \<Rightarrow> (ptr \<times> ptr) set \<Rightarrow> ('q, 'z) rt_scheme \<Rightarrow> bool" where
  "still \<equiv> flows none none"

lemma flowsD:
  assumes "flows P D A s A' s'" "fresh_ok s"
  shows "fresh_ok s'" "next_obj s \<le> next_obj s'" "open_cq c s' \<Longrightarrow> open_cq c s"
  using assms by (auto simp: flows_def)

lemma flowsE:
  assumes "flows P D A s A' s'" "fresh_ok s" "routed A G (next_obj s)"
  obtains G' where "\<forall>p<next_obj s. G' p = G p" "routed A' G' (next_obj s')"
    "\<And>c. open_cq c s' \<Longrightarrow> D c + held_to G' c (heap s') = P c + held_to G c (heap s)"
  using assms unfolding flows_def by blast

lemma routed_mono: "routed A G n \<Longrightarrow> B \<subseteq> A \<Longrightarrow> routed B G n"
  by (auto simp: routed_def)

lemma routed_Un [simp]: "routed (A \<union> B) G n \<longleftrightarrow> routed A G n \<and> routed B G n"
  by (simp only: routed_def ball_Un)

lemma routed_null [simp]: "routed (insert (nullptr, c) A) G n \<longleftrightarrow> routed A G n"
  by (simp add: routed_def)

lemma routed_grow: "routed A G n \<Longrightarrow> \<forall>p<n. G' p = G p \<Longrightarrow> n \<le> n' \<Longrightarrow> routed A G' n'"
  by (force simp: routed_def)

lemma flows_trans:
  assumes a: "flows P D A s A1 s1" and b: "flows P' D' A1 s1 A2 s2"
  shows "flows (\<lambda>c. P c + P' c) (\<lambda>c. D c + D' c) A s A2 s2"
  unfolding flows_def
proof (intro impI conjI allI)
  assume f: "fresh_ok s"
  note 1 = flowsD [OF a f]
  note 2 = flowsD [OF b 1(1)]
  show "fresh_ok s2" by (rule 2(1))
  show "next_obj s \<le> next_obj s2" using 1(2) 2(2) by simp
  show "open_cq c s" if "open_cq c s2" for c using 1(3) 2(3) that by blast
  fix G assume "routed A G (next_obj s)"
  then obtain G1 where g1: "\<forall>p<next_obj s. G1 p = G p" "routed A1 G1 (next_obj s1)"
    "\<And>c. open_cq c s1 \<Longrightarrow> D c + held_to G1 c (heap s1) = P c + held_to G c (heap s)" using flowsE [OF a f] by blast
  then obtain G2 where g2: "\<forall>p<next_obj s1. G2 p = G1 p" "routed A2 G2 (next_obj s2)"
    "\<And>c. open_cq c s2 \<Longrightarrow> D' c + held_to G2 c (heap s2) = P' c + held_to G1 c (heap s1)" using flowsE [OF b 1(1)] by blast
  have "D c + D' c + held_to G2 c (heap s2) = P c + P' c + held_to G c (heap s)" if "open_cq c s2" for c
    using g2(3) [OF that] g1(3) [OF 2(3) [OF that]] by (metis add.assoc add.commute)
  then show "\<exists>G'. (\<forall>p<next_obj s. G' p = G p) \<and> routed A2 G' (next_obj s2) \<and>
      (\<forall>c. open_cq c s2 \<longrightarrow> D c + D' c + held_to G' c (heap s2) = P c + P' c + held_to G c (heap s))"
    using g1(1) g2(1,2) 1(2) by (intro exI [of _ G2]) auto
qed

lemma still_flows: "still A s A1 s1 \<Longrightarrow> flows P D A1 s1 A2 s2 \<Longrightarrow> flows P D A s A2 s2"
  using flows_trans [of none none A s A1 s1 P D A2 s2] by simp

lemma flows_still: "flows P D A s A1 s1 \<Longrightarrow> still A1 s1 A2 s2 \<Longrightarrow> flows P D A s A2 s2"
  using flows_trans [of P D A s A1 s1 none none A2 s2] by simp

lemma flows_cancel: "flows P P A s A' s' \<Longrightarrow> still A s A' s'"
  by (simp add: flows_def)

text \<open>What other threads know is kept, and forgetting does no harm.\<close>

lemma flows_frame:
  assumes "flows P D A s A' s'"
  shows "flows P D (A \<union> B) s (A' \<union> B) s'"
  unfolding flows_def
proof (intro impI conjI allI)
  assume f: "fresh_ok s"
  note 1 = flowsD [OF assms f]
  show "fresh_ok s'" "next_obj s \<le> next_obj s'" "open_cq c s' \<Longrightarrow> open_cq c s" for c using 1 by blast+
  fix G assume g: "routed (A \<union> B) G (next_obj s)"
  then obtain G' where g': "\<forall>p<next_obj s. G' p = G p" "routed A' G' (next_obj s')"
    "\<And>c. open_cq c s' \<Longrightarrow> D c + held_to G' c (heap s') = P c + held_to G c (heap s)" using flowsE [OF assms f] by auto
  then show "\<exists>G'. (\<forall>p<next_obj s. G' p = G p) \<and> routed (A' \<union> B) G' (next_obj s') \<and>
      (\<forall>c. open_cq c s' \<longrightarrow> D c + held_to G' c (heap s') = P c + held_to G c (heap s))"
    using g routed_grow [of B G "next_obj s" G'] 1(2) by (intro exI [of _ G']) simp
qed

lemma flows_weaken:
  assumes "flows P D A s A' s'" "A \<subseteq> B" "B' \<subseteq> A'"
  shows "flows P D B s B' s'"
  unfolding flows_def
proof (intro impI conjI allI)
  assume f: "fresh_ok s"
  show "fresh_ok s'" "next_obj s \<le> next_obj s'" "open_cq c s' \<Longrightarrow> open_cq c s" for c using flowsD [OF assms(1) f] by blast+
  fix G assume "routed B G (next_obj s)"
  then obtain G' where "\<forall>p<next_obj s. G' p = G p" "routed A' G' (next_obj s')"
    "\<And>c. open_cq c s' \<Longrightarrow> D c + held_to G' c (heap s') = P c + held_to G c (heap s)"
    using flowsE [OF assms(1) f] routed_mono [OF _ assms(2)] by blast
  then show "\<exists>G'. (\<forall>p<next_obj s. G' p = G p) \<and> routed B' G' (next_obj s') \<and>
      (\<forall>c. open_cq c s' \<longrightarrow> D c + held_to G' c (heap s') = P c + held_to G c (heap s))"
    using routed_mono [OF _ assms(3)] by blast
qed

lemma flows_within:
  assumes "flows P D A s A' s'" "A \<subseteq> B" "B' \<subseteq> A' \<union> B"
  shows "flows P D B s B' s'"
  by (rule flows_weaken [OF flows_frame [OF assms(1), of B] _ assms(3)]) (use assms(2) in simp)

section \<open>Steps\<close>

lemma still_same:
  assumes "heap s' = heap s" "next_obj s \<le> next_obj s'" "dom (comps s') \<subseteq> dom (comps s)"
    "\<And>c. is_cq c s' \<Longrightarrow> is_cq c s" "A' \<subseteq> A"
  shows "still A s A' s'"
  unfolding flows_def
proof (intro impI conjI allI)
  assume f: "fresh_ok s"
  show "fresh_ok s'" using assms by (intro fresh_ok_grow [OF f]) auto
  show "open_cq c s" if "open_cq c s'" for c using that assms(2,4) by (auto simp: open_cq_def)
  fix G assume "routed A G (next_obj s)"
  then have "routed A' G (next_obj s')" using assms(2,5) routed_grow [of A G "next_obj s" G] routed_mono by blast
  then show "\<exists>G'. (\<forall>p<next_obj s. G' p = G p) \<and> routed A' G' (next_obj s') \<and>
      (\<forall>c. open_cq c s' \<longrightarrow> {#} + held_to G' c (heap s') = {#} + held_to G c (heap s))"
    using assms(1) by auto
qed (use assms(2) in simp)

lemma still_quietly: "heap s' = heap s \<Longrightarrow> next_obj s' = next_obj s \<Longrightarrow> comps s' = comps s \<Longrightarrow> A' \<subseteq> A \<Longrightarrow> still A s A' s'"
  by (rule still_same) (simp_all add: is_cq_def)

lemma flows_new_request:
  assumes "s' = s\<lparr>heap := (heap s)(next_obj s \<mapsto> r), next_obj := Suc (next_obj s)\<rparr>"
  shows "flows (toward c r) none A s (insert (next_obj s, c) A) s'"
  unfolding flows_def
proof (intro impI conjI allI)
  assume f: "fresh_ok s"
  show "fresh_ok s'" unfolding assms by (rule fresh_ok_grow [OF f]) auto
  show "next_obj s \<le> next_obj s'" by (simp add: assms)
  show "open_cq c s" if "open_cq c s'" for c using that by (auto simp: open_cq_def is_cq_def assms)
  fix G assume g: "routed A G (next_obj s)"
  let ?G = "G(next_obj s := c)"
  have "routed A ?G (Suc (next_obj s))" using routed_grow [OF g, of ?G] by simp
  then have "routed (insert (next_obj s, c) A) ?G (next_obj s')" by (simp add: routed_def assms)
  moreover have "held_to ?G c' (heap s') = toward c r c' + held_to G c' (heap s)" for c'
  proof -
    have "q < next_obj s" if "q \<in> dom (heap s)" for q using f that by (simp add: fresh_ok_def)
    then have "?G q = G q" if "q \<in> dom (heap s)" for q using that by force
    then have "held_to ?G c' ((heap s)(next_obj s \<mapsto> r)) = toward (?G (next_obj s)) r c' + held_to G c' (heap s)"
      by (rule held_to_new [OF fresh_ok_finite [OF f] fresh_ok_next(1) [OF f]])
    then show ?thesis by (simp add: assms)
  qed
  ultimately show "\<exists>G'. (\<forall>p<next_obj s. G' p = G p) \<and> routed (insert (next_obj s, c) A) G' (next_obj s') \<and>
      (\<forall>c'. open_cq c' s' \<longrightarrow> {#} + held_to G' c' (heap s') = toward c r c' + held_to G c' (heap s))"
    by (intro exI [of _ ?G]) simp
qed

lemma flows_delete:
  assumes "s' = s\<lparr>heap := (heap s)(p := None)\<rparr>" "heap s p = Some r" "(p, c) \<in> A"
  shows "flows none (toward c r) A s A s'"
  unfolding flows_def
proof (intro impI conjI allI)
  assume f: "fresh_ok s"
  show "fresh_ok s'" unfolding assms(1) by (rule fresh_ok_grow [OF f]) auto
  show "open_cq c s" if "open_cq c s'" for c using that by (auto simp: open_cq_def is_cq_def assms(1))
  fix G assume g: "routed A G (next_obj s)"
  moreover have "p \<noteq> nullptr" using f assms(2) unfolding fresh_ok_def by (metis domI less_irrefl)
  ultimately have "G p = c" using assms(3) by (auto simp: routed_def)
  then have "toward c r c' + held_to G c' (heap s') = held_to G c' (heap s)" for c'
    using held_to_delete [OF fresh_ok_finite [OF f] assms(2), of G c'] by (simp add: assms(1))
  then show "\<exists>G'. (\<forall>p<next_obj s. G' p = G p) \<and> routed A G' (next_obj s') \<and>
      (\<forall>c'. open_cq c' s' \<longrightarrow> toward c r c' + held_to G' c' (heap s') = {#} + held_to G c' (heap s))"
    using g by (intro exI [of _ G]) (simp add: assms(1))
qed (simp add: assms(1))

lemma still_replace:
  assumes "heap s' = (heap s)(p \<mapsto> r')" "heap s p = Some r" "as_op r' = as_op r" "comps s' = comps s" "next_obj s' = next_obj s" "A' \<subseteq> A"
  shows "still A s A' s'"
  unfolding flows_def
proof (intro impI conjI allI)
  assume f: "fresh_ok s"
  show "fresh_ok s'" using assms by (intro fresh_ok_grow [OF f]) auto
  show "open_cq c s" if "open_cq c s'" for c using that by (auto simp: open_cq_def is_cq_def assms(4,5))
  fix G assume "routed A G (next_obj s)"
  then show "\<exists>G'. (\<forall>p<next_obj s. G' p = G p) \<and> routed A' G' (next_obj s') \<and>
      (\<forall>c. open_cq c s' \<longrightarrow> {#} + held_to G' c (heap s') = {#} + held_to G c (heap s))"
    using assms held_to_replace [OF fresh_ok_finite [OF f] assms(2,3)] routed_mono by (intro exI [of _ G]) auto
qed (simp add: assms(5))

section \<open>Completion objects\<close>

definition cq_pairs :: "('q \<Rightarrow> ptr list) \<Rightarrow> ('q, 'z) rt_scheme \<Rightarrow> (ptr \<times> ptr) set" where
  "cq_pairs view s = {(p, c). p \<in> set (cq_ids view c s)}"

lemma cq_pairs_cong: "comps s' = comps s \<Longrightarrow> cq_pairs view s' = cq_pairs view s"
  by (simp add: cq_pairs_def cq_ids_def)

lemma flows_signal:
  assumes q: "lct_queue_fifo E view" and u: "util_signal_comp E c r s = Inr s'"
  shows "flows (toward c r) none (cq_pairs view s \<union> B) s (cq_pairs view s' \<union> B) s'"
proof -
  obtain x where o: "comps s c = Some x" using u by (auto simp: util_signal_comp_def deref_eq_Inr elim!: bind_resE)
  show ?thesis
  proof (cases x)
    case (Comp_cq k)
    let ?s1 = "s\<lparr>heap := (heap s)(next_obj s \<mapsto> r), next_obj := Suc (next_obj s)\<rparr>"
    have s': "s' = ?s1\<lparr>comps := (comps s)(c \<mapsto> Comp_cq (LCT_queue_push E k (next_obj s)))\<rparr>"
      using u o Comp_cq by (simp add: util_signal_comp_def comp_cq_signal_def new_request_def)
    show ?thesis unfolding flows_def
    proof
      assume f: "fresh_ok s"
      then have v: "view (LCT_queue_push E k (next_obj s)) = view k @ [next_obj s]"
        using q by (simp add: lct_queue_fifo_def)
      have c: "is_cq d s' \<longleftrightarrow> is_cq d s" for d using o Comp_cq by (simp add: is_cq_def s')
      have "cq_pairs view s' = insert (next_obj s, c) (cq_pairs view s)"
        using o Comp_cq v by (auto simp: cq_pairs_def cq_ids_def s' split: if_splits)
      moreover have "still (insert (next_obj s, c) (cq_pairs view s \<union> B)) ?s1 (insert (next_obj s, c) (cq_pairs view s \<union> B)) s'"
        using o by (intro still_same) (auto simp: s' is_cq_def Comp_cq split: if_splits)
      ultimately have "flows (toward c r) none (cq_pairs view s \<union> B) s (cq_pairs view s' \<union> B) s'"
        using flows_still [OF flows_new_request [OF refl, of c r "cq_pairs view s \<union> B" s]] by simp
      from this [unfolded flows_def, rule_format, OF f]
      show "fresh_ok s' \<and> next_obj s \<le> next_obj s' \<and> (\<forall>c. open_cq c s' \<longrightarrow> open_cq c s) \<and>
        (\<forall>G. routed (cq_pairs view s \<union> B) G (next_obj s) \<longrightarrow> (\<exists>G'. (\<forall>p<next_obj s. G' p = G p) \<and>
          routed (cq_pairs view s' \<union> B) G' (next_obj s') \<and>
          (\<forall>d. open_cq d s' \<longrightarrow> {#} + held_to G' d (heap s') = toward c r d + held_to G d (heap s))))" by blast
    qed
  next
    case (Comp_handler g)
    then have s': "s' = log_event (Handler_call g r) s"
      using u o by (simp add: util_signal_comp_def comp_handler_signal_def)
    then have "still (cq_pairs view s \<union> B) s (cq_pairs view s' \<union> B) s'"
      using cq_pairs_cong [of s' s view] by (intro still_quietly) simp_all
    moreover have "\<not> open_cq c s'" if "fresh_ok s"
    proof -
      have "c < next_obj s" using that o unfolding fresh_ok_def by blast
      then show ?thesis using o Comp_handler by (simp add: s' open_cq_def is_cq_def)
    qed
    then have "toward c r d = {#}" if "fresh_ok s" "open_cq d s'" for d using that by (auto simp: toward_def)
    ultimately show ?thesis unfolding flows_def by simp
  qed
qed

lemma flows_poll:
  assumes q: "lct_queue_fifo E view" and u: "util_poll_cq E c out s = Inr (ret, r, s')"
  shows "flows none (if ret then toward c r else none) (cq_pairs view s \<union> B) s (cq_pairs view s' \<union> B) s'"
proof -
  obtain k where k: "comps s c = Some (Comp_cq k)" and p: "comp_cq_poll E c k out s = Inr (ret, r, s')"
    using u by (auto simp: util_poll_cq_def deref_eq_Inr split: comp_obj.splits elim!: bind_resE)
  obtain a k' where a: "LCT_queue_pop E k = (a, k')" by fastforce
  let ?s1 = "s\<lparr>comps := (comps s)(c \<mapsto> Comp_cq k')\<rparr>"
  have v: "set (view k') \<subseteq> set (view k)" "a \<noteq> nullptr \<Longrightarrow> a \<in> set (view k)"
  proof -
    show "set (view k') \<subseteq> set (view k)" using q a by (cases "view k") (force simp: lct_queue_fifo_def)+
    show "a \<noteq> nullptr \<Longrightarrow> a \<in> set (view k)" using q a by (cases "view k") (force simp: lct_queue_fifo_def)+
  qed
  have sub: "cq_pairs view ?s1 \<subseteq> cq_pairs view s" using v(1) k by (auto simp: cq_pairs_def cq_ids_def split: if_splits)
  have 1: "still A s (A' \<union> B) ?s1" if "A' \<union> B \<subseteq> A" for A A'
    using that k by (intro still_same) (auto simp: is_cq_def split: if_splits)
  show ?thesis
  proof (cases "a = nullptr")
    case True
    then have "\<not> ret" "s' = ?s1" using p a by (auto simp: comp_cq_poll_def)
    then show ?thesis using 1 [of "cq_pairs view ?s1" "cq_pairs view s \<union> B"] sub by auto
  next
    case False
    then have h: "heap ?s1 a = Some r" and s': "s' = ?s1\<lparr>heap := (heap ?s1)(a := None)\<rparr>" and ret
      using p a by (auto simp: comp_cq_poll_def deref_eq_Inr elim!: bind_resE)
    have "(a, c) \<in> cq_pairs view s" using v(2) False k by (simp add: cq_pairs_def cq_ids_def)
    then have "flows none (toward c r) (cq_pairs view s \<union> B) ?s1 (cq_pairs view s \<union> B) s'"
      by (intro flows_delete [OF s' h]) simp
    moreover have "cq_pairs view s' = cq_pairs view ?s1" by (rule cq_pairs_cong) (simp add: s')
    ultimately have "flows none (toward c r) (cq_pairs view s \<union> B) s (cq_pairs view s' \<union> B) s'"
      using sub by (intro flows_weaken [OF still_flows [OF 1 [of "cq_pairs view s", OF subset_refl]]]) auto
    then show ?thesis using \<open>ret\<close> by simp
  qed
qed

end
