(* ===== verification/LCW_Mpi_Types.thy ===== *)
theory LCW_Mpi_Types
  imports LCW_Comp LCW_Pcounter LCW_Spinlock
begin

text \<open>
  The state of the MPI backend (\<^verbatim>\<open>src/src/backend/mpi/backend_mpi.{hpp,cpp}\<close> and
  \<^verbatim>\<open>comp_manager/*.hpp\<close>) as an extension of the shared state, and MPI itself as the record
  \<open>mpi_env\<close> of parameters over an abstract library state \<open>'m\<close>. A call reports an error code
  first; the backend wraps almost every call into \<^verbatim>\<open>MPI_SAFECALL\<close>, which asserts success.
  Also here: \<^verbatim>\<open>signal_comp\<close>, the stream critical section, and the completion callback that MPI
  runs for an attached continuation.
\<close>

section \<open>MPI\<close>

datatype mpi_request = MPI_REQUEST_NULL | Mpi_request nat

record mpi_status =
  MPI_SOURCE :: int
  MPI_TAG :: int
  status_bytes :: int

type_synonym mpi_comm = nat
type_synonym mpi_stream = nat

datatype mpi_thread_level =
  MPI_THREAD_SINGLE | MPI_THREAD_FUNNELED | MPI_THREAD_SERIALIZED | MPI_THREAD_MULTIPLE

datatype cont_flag = MPIX_CONT_IMMEDIATE | MPIX_CONT_DEFER_COMPLETE | MPIX_CONT_POLL_ONLY

text \<open>
  The outcome of \<^verbatim>\<open>MPI_Test\<close>: besides flag, status and the request handle (which MPI may set to
  null), the continuations MPI ran meanwhile (their status and user data) and the memory, into
  which MPI delivers received data.
\<close>

record 'm test_result =
  t_err :: int
  t_flag :: bool
  t_status :: mpi_status
  t_req :: mpi_request
  t_callbacks :: "(int \<times> ptr) list"
  t_mem :: mem
  t_lib :: 'm

record ('q, 'm) mpi_env = "'q env" +
  MPI_VERSION :: int
  MPI_COMM_WORLD :: mpi_comm
  MPI_ANY_SOURCE :: int
  MPI_Init_thread :: "'m \<Rightarrow> int \<times> mpi_thread_level \<times> 'm"
  MPI_Comm_rank :: "mpi_comm \<Rightarrow> 'm \<Rightarrow> int \<times> int"
  MPI_Comm_size :: "mpi_comm \<Rightarrow> 'm \<Rightarrow> int \<times> int"
  MPI_Finalize :: "'m \<Rightarrow> int \<times> 'm"
  MPI_Comm_dup :: "mpi_comm \<Rightarrow> 'm \<Rightarrow> int \<times> mpi_comm \<times> 'm"
  MPI_Comm_free :: "mpi_comm \<Rightarrow> 'm \<Rightarrow> int \<times> 'm"
  MPI_Comm_set_info :: "mpi_comm \<Rightarrow> (string \<times> string) list \<Rightarrow> 'm \<Rightarrow> 'm"
  MPI_Comm_get_tag_ub :: "mpi_comm \<Rightarrow> 'm \<Rightarrow> int option"
  MPI_Isend :: "ptr \<Rightarrow> int \<Rightarrow> mpi_datatype \<Rightarrow> int \<Rightarrow> int \<Rightarrow> mpi_comm \<Rightarrow> mem \<Rightarrow> 'm \<Rightarrow> int \<times> mpi_request \<times> 'm"
  MPI_Irecv :: "ptr \<Rightarrow> int \<Rightarrow> mpi_datatype \<Rightarrow> int \<Rightarrow> int \<Rightarrow> mpi_comm \<Rightarrow> mem \<Rightarrow> 'm \<Rightarrow> int \<times> mpi_request \<times> 'm"
  MPI_Test :: "mpi_request \<Rightarrow> mem \<Rightarrow> 'm \<Rightarrow> 'm test_result"
  MPI_Get_count :: "mpi_status \<Rightarrow> mpi_datatype \<Rightarrow> int \<times> int"
  MPI_Barrier :: "mpi_comm \<Rightarrow> 'm \<Rightarrow> int \<times> 'm"
  MPI_Start :: "mpi_request \<Rightarrow> 'm \<Rightarrow> int \<times> 'm"
  MPI_Request_free :: "mpi_request \<Rightarrow> 'm \<Rightarrow> int \<times> 'm"
  MPIX_Stream_create :: "'m \<Rightarrow> int \<times> mpi_stream \<times> 'm"
  MPIX_Stream_comm_create :: "mpi_comm \<Rightarrow> mpi_stream \<Rightarrow> 'm \<Rightarrow> int \<times> mpi_comm \<times> 'm"
  MPIX_Stream_free :: "mpi_stream \<Rightarrow> 'm \<Rightarrow> int \<times> 'm"
  MPIX_Continue_init :: "cont_flag list \<Rightarrow> 'm \<Rightarrow> int \<times> mpi_request \<times> 'm"
  MPIX_Continue ::
    "mpi_request \<Rightarrow> ptr \<Rightarrow> cont_flag list \<Rightarrow> mpi_request \<Rightarrow> 'm \<Rightarrow> int \<times> (int \<times> ptr) list \<times> 'm"
  LCT_queue_type_value :: "lct_queue_type \<Rightarrow> int"
  LCT_str_int_search :: "(string option \<times> int) list \<Rightarrow> string option \<Rightarrow> int \<Rightarrow> bool \<times> int"

definition MPI_SUCCESS :: int where
  "MPI_SUCCESS = 0"

definition MPI_SAFECALL :: "int \<Rightarrow> unit res" where
  "MPI_SAFECALL mpi_errno = lcw_assert (MPI_SUCCESS = mpi_errno) ''MPI call failed''"

lemma MPI_SAFECALL_Inr [simp]: "MPI_SAFECALL err = Inr u \<longleftrightarrow> err = MPI_SUCCESS"
  by (auto simp: MPI_SAFECALL_def)

lemma MPI_SAFECALL_success [simp]: "MPI_SAFECALL MPI_SUCCESS = Inr ()"
  by (simp add: MPI_SAFECALL_def)

section \<open>Data of the backend\<close>

datatype comp_type_t = REQUEST | CONTINUE

record mpi_config =
  cq_type :: int
  default_max_put :: int
  default_cq_length :: int
  comp_type :: comp_type_t
  use_stream :: bool
  use_cont_imm :: bool
  use_cont_req :: bool
  use_cont_poll_only :: bool
  use_cont_defer :: bool
  g_pending_msg_max :: int
  g_num_comp_managers :: int

definition mpi_config_default :: "('q, 'm) mpi_env \<Rightarrow> mpi_config" where
  "mpi_config_default E =
     \<lparr>cq_type = LCT_queue_type_value E LCT_QUEUE_LCRQ, default_max_put = 8192, default_cq_length = 65536,
      comp_type = (if LCW_MPI_USE_CONT (build E) then CONTINUE else REQUEST),
      use_stream = False, use_cont_imm = False, use_cont_req = False, use_cont_poll_only = False,
      use_cont_defer = False, g_pending_msg_max = 0, g_num_comp_managers = 0\<rparr>"

record entry_t =
  mpi_req :: mpi_request
  ent_device :: ptr
  completion :: ptr
  ent_request :: ptr

record manager_req_t =
  entries :: "entry_t list"
  req_lock :: spin

record manager_cont_t =
  cont_req :: mpi_request
  cont_lock :: spin

datatype manager_t = Man_req manager_req_t | Man_cont manager_cont_t

text \<open>
  A device, with its \<^verbatim>\<open>progress_engine_t\<close> inlined: \<open>put_entry\<close>, \<open>put_entry_lock\<close> and
  \<open>comp_manager_p\<close>. The vector \<^verbatim>\<open>put_rbuf\<close> is its address and its size.
\<close>

record mpi_device_t =
  stream_lock :: spin
  stream :: mpi_stream
  dev_id :: int
  enable_put :: bool
  comm :: mpi_comm
  max_tag_2sided :: int
  put_tag :: int
  put_rbuf_data :: ptr
  put_rbuf_size :: int
  put_entry :: entry_t
  put_entry_lock :: spin
  comp_manager_p :: ptr

text \<open>
  The globals of namespace \<^verbatim>\<open>mpi\<close> and the objects of the backend. Completion managers are held by
  \<^verbatim>\<open>shared_ptr\<close>; \<open>mgr_refs\<close> is their use count. \<open>centries\<close> are the entries that
  \<^verbatim>\<open>manager_cont_t\<close> allocates and hands to MPI.
\<close>

record ('q, 'm) mpi_st = "'q rt" +
  lib :: 'm
  config :: mpi_config
  g_rank :: int
  g_nranks :: int
  g_pending_msg :: int
  g_comp_managers :: "ptr list"
  g_ndevices :: int
  devices :: "ptr \<rightharpoonup> mpi_device_t"
  managers :: "ptr \<rightharpoonup> manager_t"
  mgr_refs :: "ptr \<Rightarrow> nat"
  centries :: "ptr \<rightharpoonup> entry_t"

section \<open>Operations shared by the backend and its completion managers\<close>

definition set_device :: "ptr \<Rightarrow> mpi_device_t \<Rightarrow> ('q, 'm) mpi_st \<Rightarrow> ('q, 'm) mpi_st" where
  "set_device p d s = s\<lparr>devices := (devices s)(p \<mapsto> d)\<rparr>"

definition enter_stream_cs :: "('q, 'm) mpi_env \<Rightarrow> ptr \<Rightarrow> ('q, 'm) mpi_st \<Rightarrow> ('q, 'm) mpi_st res" where
  "enter_stream_cs E device s =
     (if LCW_MPI_USE_STREAM (build E) \<and> use_stream (config s) then
        bind_res (deref (devices s) device) (\<lambda>d.
        bind_res (spin_lock (stream_lock d)) (\<lambda>l. Inr (set_device device (d\<lparr>stream_lock := l\<rparr>) s)))
      else Inr s)"

definition leave_stream_cs :: "('q, 'm) mpi_env \<Rightarrow> ptr \<Rightarrow> ('q, 'm) mpi_st \<Rightarrow> ('q, 'm) mpi_st res" where
  "leave_stream_cs E device s =
     (if LCW_MPI_USE_STREAM (build E) \<and> use_stream (config s) then
        bind_res (deref (devices s) device) (\<lambda>d.
        bind_res (spin_unlock (stream_lock d)) (\<lambda>l. Inr (set_device device (d\<lparr>stream_lock := l\<rparr>) s)))
      else Inr s)"

text \<open>\<^verbatim>\<open>fetch_add\<close> and \<^verbatim>\<open>fetch_sub\<close> on the 32-bit counter of pending messages, which wraps.\<close>

definition add_pending :: "int \<Rightarrow> ('q, 'm) mpi_st \<Rightarrow> ('q, 'm) mpi_st" where
  "add_pending k s = s\<lparr>g_pending_msg := to_int (g_pending_msg s + k)\<rparr>"

definition signal_account :: "('q, 'm) mpi_env \<Rightarrow> op_t \<Rightarrow> ('q, 'm) mpi_st \<Rightarrow> ('q, 'm) mpi_st" where
  "signal_account E op s =
     (let dec = (\<lambda>s. if g_pending_msg_max (config s) > 0 then add_pending (- 1) s else s);
          s = (case op of
                 SEND \<Rightarrow> pcounter_add E send_end 1 (dec s)
               | RECV \<Rightarrow> pcounter_add E recv_end 1 s
               | PUT \<Rightarrow> pcounter_add E put_end 1 (dec s)
               | PUT_SIGNAL \<Rightarrow> pcounter_add E put_signal 1 s)
      in pcounter_add E comp_produce 1 s)"

definition signal_comp :: "('q, 'm) mpi_env \<Rightarrow> entry_t \<Rightarrow> ('q, 'm) mpi_st \<Rightarrow> ('q, 'm) mpi_st res" where
  "signal_comp E entry s =
     bind_res (deref (heap s) (ent_request entry)) (\<lambda>r.
     bind_res (util_signal_comp E (completion entry) r (signal_account E (req_op r) s)) (\<lambda>s.
     delete_request (ent_request entry) s))"

definition complete_cb :: "('q, 'm) mpi_env \<Rightarrow> int \<Rightarrow> ptr \<Rightarrow> ('q, 'm) mpi_st \<Rightarrow> ('q, 'm) mpi_st res" where
  "complete_cb E status user_data s =
     bind_res (lcw_assert (user_data \<noteq> nullptr) '''') (\<lambda>_.
     bind_res (lcw_assert (status = MPI_SUCCESS) '''') (\<lambda>_.
     bind_res (deref (centries s) user_data) (\<lambda>entry.
     bind_res (signal_comp E entry s) (\<lambda>s.
     Inr (s\<lparr>centries := (centries s)(user_data := None)\<rparr>)))))"

fun run_callbacks ::
  "('q, 'm) mpi_env \<Rightarrow> (int \<times> ptr) list \<Rightarrow> ('q, 'm) mpi_st \<Rightarrow> ('q, 'm) mpi_st res" where
  "run_callbacks E [] s = Inr s"
| "run_callbacks E ((status, user_data) # cbs) s =
     bind_res (complete_cb E status user_data s) (run_callbacks E cbs)"

text \<open>\<^verbatim>\<open>MPI_SAFECALL(MPI_Test(&req, &flag, &status))\<close>.\<close>

definition mpi_test ::
  "('q, 'm) mpi_env \<Rightarrow> mpi_request \<Rightarrow> ('q, 'm) mpi_st \<Rightarrow>
   (bool \<times> mpi_status \<times> mpi_request \<times> ('q, 'm) mpi_st) res" where
  "mpi_test E req s =
     (let t = MPI_Test E req (mem s) (lib s)
      in bind_res (run_callbacks E (t_callbacks t) (s\<lparr>mem := t_mem t, lib := t_lib t\<rparr>)) (\<lambda>s.
         bind_res (MPI_SAFECALL (t_err t)) (\<lambda>_. Inr (t_flag t, t_status t, t_req t, s))))"

section \<open>Instances\<close>

text \<open>
  A small MPI for the examples: requests are numbered, and those listed in \<open>lib_done\<close> (with the
  status they complete with) are the ones a test finds complete.
\<close>

record ref_lib =
  lib_next :: nat
  lib_done :: "(nat \<times> mpi_status) list"

definition ref_post :: "ref_lib \<Rightarrow> int \<times> mpi_request \<times> ref_lib" where
  "ref_post l = (MPI_SUCCESS, Mpi_request (lib_next l), l\<lparr>lib_next := Suc (lib_next l)\<rparr>)"

definition ref_status :: mpi_status where
  "ref_status = \<lparr>MPI_SOURCE = 0, MPI_TAG = 0, status_bytes = 0\<rparr>"

definition ref_test :: "mpi_request \<Rightarrow> mem \<Rightarrow> ref_lib \<Rightarrow> ref_lib test_result" where
  "ref_test r m l =
     (case (case r of MPI_REQUEST_NULL \<Rightarrow> Some ref_status | Mpi_request n \<Rightarrow> map_of (lib_done l) n) of
        None \<Rightarrow> \<lparr>t_err = MPI_SUCCESS, t_flag = False, t_status = ref_status, t_req = r,
                 t_callbacks = [], t_mem = m, t_lib = l\<rparr>
      | Some st \<Rightarrow> \<lparr>t_err = MPI_SUCCESS, t_flag = True, t_status = st, t_req = MPI_REQUEST_NULL,
                    t_callbacks = [], t_mem = m, t_lib = l\<rparr>)"

definition ref_mpi :: "build_flags \<Rightarrow> (ptr list, ref_lib) mpi_env" where
  "ref_mpi B = env.extend (ref_env\<lparr>build := B\<rparr>)
     \<lparr>MPI_VERSION = 3, MPI_COMM_WORLD = 0, MPI_ANY_SOURCE = - 1,
      MPI_Init_thread = (\<lambda>l. (MPI_SUCCESS, MPI_THREAD_MULTIPLE, l)),
      MPI_Comm_rank = (\<lambda>_ _. (MPI_SUCCESS, 0)), MPI_Comm_size = (\<lambda>_ _. (MPI_SUCCESS, 2)),
      MPI_Finalize = (\<lambda>l. (MPI_SUCCESS, l)),
      MPI_Comm_dup = (\<lambda>_ l. (MPI_SUCCESS, 1, l)), MPI_Comm_free = (\<lambda>_ l. (MPI_SUCCESS, l)),
      MPI_Comm_set_info = (\<lambda>_ _ l. l), MPI_Comm_get_tag_ub = (\<lambda>_ _. Some 1048575),
      MPI_Isend = (\<lambda>_ _ _ _ _ _ _. ref_post), MPI_Irecv = (\<lambda>_ _ _ _ _ _ _. ref_post),
      MPI_Test = ref_test, MPI_Get_count = (\<lambda>st _. (MPI_SUCCESS, status_bytes st)),
      MPI_Barrier = (\<lambda>_ l. (MPI_SUCCESS, l)), MPI_Start = (\<lambda>_ l. (MPI_SUCCESS, l)),
      MPI_Request_free = (\<lambda>_ l. (MPI_SUCCESS, l)),
      MPIX_Stream_create = (\<lambda>l. (MPI_SUCCESS, 1, l)),
      MPIX_Stream_comm_create = (\<lambda>_ _ l. (MPI_SUCCESS, 1, l)),
      MPIX_Stream_free = (\<lambda>_ l. (MPI_SUCCESS, l)),
      MPIX_Continue_init = (\<lambda>_. ref_post), MPIX_Continue = (\<lambda>_ _ _ _ l. (MPI_SUCCESS, [], l)),
      LCT_queue_type_value = (\<lambda>_. 6),
      LCT_str_int_search = (\<lambda>_ _ d. (True, d))\<rparr>"

lemma ref_mpi_simps [simp]:
  "build (ref_mpi B) = B" "MPI_Isend (ref_mpi B) a n t r g c m l = ref_post l"
  "MPI_Irecv (ref_mpi B) a n t r g c m l = ref_post l" "MPI_Test (ref_mpi B) = ref_test"
  "MPI_Get_count (ref_mpi B) st t = (MPI_SUCCESS, status_bytes st)"
  "LCT_queue_alloc (ref_mpi B) = (\<lambda>_ _. [])" "LCT_queue_push (ref_mpi B) = (\<lambda>q a. q @ [a])"
  "LCT_queue_pop (ref_mpi B) = (\<lambda>q. case q of [] \<Rightarrow> (nullptr, []) | a # as \<Rightarrow> (a, as))"
  "allocate (ref_mpi B) = (\<lambda>_ _ bs. Suc (sum_list (map (\<lambda>(a, n). a + n) bs)))"
  "MPI_VERSION (ref_mpi B) = 3" "MPI_COMM_WORLD (ref_mpi B) = 0" "MPI_ANY_SOURCE (ref_mpi B) = - 1"
  "MPI_Init_thread (ref_mpi B) l = (MPI_SUCCESS, MPI_THREAD_MULTIPLE, l)"
  "MPI_Comm_rank (ref_mpi B) c l = (MPI_SUCCESS, 0)" "MPI_Comm_size (ref_mpi B) c l = (MPI_SUCCESS, 2)"
  "MPI_Comm_dup (ref_mpi B) c l = (MPI_SUCCESS, 1, l)" "MPI_Comm_free (ref_mpi B) c l = (MPI_SUCCESS, l)"
  "MPI_Comm_set_info (ref_mpi B) c i l = l" "MPI_Comm_get_tag_ub (ref_mpi B) c l = Some 1048575"
  "MPI_Finalize (ref_mpi B) l = (MPI_SUCCESS, l)" "MPI_Barrier (ref_mpi B) c l = (MPI_SUCCESS, l)"
  "LCT_str_int_search (ref_mpi B) d k v = (True, v)" "LCT_queue_type_value (ref_mpi B) qt = 6"
  by (simp_all add: ref_mpi_def ref_env_def env.defs)

lemma ref_mpi_fifo: "lct_queue_fifo (ref_mpi B) (\<lambda>q. q)"
  by (simp add: lct_queue_fifo_def)

definition ref_mpi_st :: "mpi_config \<Rightarrow> (ptr list, ref_lib) mpi_st" where
  "ref_mpi_st cfg = rt.extend ref_rt
     \<lparr>lib = \<lparr>lib_next = 1, lib_done = []\<rparr>, config = cfg, g_rank = - 1, g_nranks = - 1,
      g_pending_msg = 0, g_comp_managers = [], g_ndevices = 0, devices = Map.empty,
      managers = Map.empty, mgr_refs = (\<lambda>_. 0), centries = Map.empty\<rparr>"

lemma ref_mpi_st_simps [simp]:
  "heap (ref_mpi_st c) = Map.empty" "comps (ref_mpi_st c) = Map.empty" "next_obj (ref_mpi_st c) = 1"
  "mem (ref_mpi_st c) = (\<lambda>_. 0)" "blocks (ref_mpi_st c) = []" "trace (ref_mpi_st c) = []"
  "lib (ref_mpi_st c) = \<lparr>lib_next = 1, lib_done = []\<rparr>" "config (ref_mpi_st c) = c"
  "g_pending_msg (ref_mpi_st c) = 0" "g_comp_managers (ref_mpi_st c) = []" "g_ndevices (ref_mpi_st c) = 0"
  "devices (ref_mpi_st c) = Map.empty" "managers (ref_mpi_st c) = Map.empty"
  "mgr_refs (ref_mpi_st c) = (\<lambda>_. 0)" "centries (ref_mpi_st c) = Map.empty" "m_allocator (ref_mpi_st c) = Alloc_default"
  "g_rank (ref_mpi_st c) = - 1" "g_nranks (ref_mpi_st c) = - 1"
  by (simp_all add: ref_mpi_st_def ref_rt_def rt.defs)

end
