(* ===== verification/LCW_Mpi_Bigcount.thy ===== *)
theory LCW_Mpi_Bigcount
  imports LCW_Mpi_Types
begin

text \<open>
  \<^verbatim>\<open>src/src/backend/mpi/bigcount_wrapper.hpp\<close>: messages longer than \<^verbatim>\<open>INT_MAX\<close> bytes are sent as
  one element of a derived MPI datatype of chunks and a remainder. Sizes are \<^verbatim>\<open>size_t\<close> values;
  the conversions to MPI's \<^verbatim>\<open>int\<close> arguments are written out. The construction and release of
  the datatypes is recorded in the trace.
\<close>

section \<open>The wrapper\<close>

definition type_contiguous :: "int \<Rightarrow> ('q, 'z) rt_scheme \<Rightarrow> (mpi_datatype \<times> ('q, 'z) rt_scheme) res" where
  "type_contiguous nbytes s =
     (let c = nbytes div int_max;
          r = nbytes mod int_max
      in bind_res (lcw_assert (c < int_max) ''c is too large'') (\<lambda>_.
         bind_res (lcw_assert (r < int_max) ''r is too large'') (\<lambda>_.
         let chunks = Type_vector (to_int c) (to_int int_max) (to_int int_max) MPI_BYTE;
             s = log_event (Type_created chunks) s;
             remainder = Type_contiguous (to_int r) MPI_BYTE;
             s = log_event (Type_created remainder) s;
             remdisp = to_int64 (to_size (c * int_max));
             newtype = Type_struct [(1, 0, chunks), (1, remdisp, remainder)];
             s = log_event (Type_created newtype) s;
             s = log_event (Type_free chunks) s;
             s = log_event (Type_free remainder) s
         in Inr (newtype, s))))"

definition choose_type :: "int \<Rightarrow> ('q, 'z) rt_scheme \<Rightarrow> (mpi_datatype \<times> int \<times> ('q, 'z) rt_scheme) res" where
  "choose_type sz s =
     (if sz > int_max then
        bind_res (type_contiguous sz s) (\<lambda>(datatype, s).
        Inr (datatype, 1, log_event (Type_commit datatype) s))
      else Inr (MPI_BYTE, to_int sz, s))"

definition release_type :: "mpi_datatype \<Rightarrow> ('q, 'z) rt_scheme \<Rightarrow> ('q, 'z) rt_scheme" where
  "release_type datatype s = (if datatype \<noteq> MPI_BYTE then log_event (Type_free datatype) s else s)"

definition isend ::
  "('q, 'm) mpi_env \<Rightarrow> ptr \<Rightarrow> int \<Rightarrow> int \<Rightarrow> int \<Rightarrow> mpi_comm \<Rightarrow> ('q, 'm) mpi_st \<Rightarrow>
   (mpi_request \<times> ('q, 'm) mpi_st) res" where
  "isend E address sz rank tag c s =
     bind_res (choose_type sz s) (\<lambda>(datatype, len, s).
       let (err, request, l) = MPI_Isend E address len datatype rank tag c (mem s) (lib s);
           s = s\<lparr>lib := l\<rparr>
       in bind_res (MPI_SAFECALL err) (\<lambda>_. Inr (request, release_type datatype s)))"

definition irecv ::
  "('q, 'm) mpi_env \<Rightarrow> ptr \<Rightarrow> int \<Rightarrow> int \<Rightarrow> int \<Rightarrow> mpi_comm \<Rightarrow> ('q, 'm) mpi_st \<Rightarrow>
   (mpi_request \<times> ('q, 'm) mpi_st) res" where
  "irecv E address sz rank tag c s =
     bind_res (choose_type sz s) (\<lambda>(datatype, len, s).
       let (err, request, l) = MPI_Irecv E address len datatype rank tag c (mem s) (lib s);
           s = s\<lparr>lib := l\<rparr>
       in bind_res (MPI_SAFECALL err) (\<lambda>_. Inr (request, release_type datatype s)))"

section \<open>The datatype covers the message\<close>

text \<open>
  What the MPI standard says of the type constructors used here: the displacements, in order,
  of the bytes of one element (the type map) for a vector and a contiguous type of bytes, and
  for a struct of two blocks of one element each.
\<close>

definition mpi_typemap :: "(mpi_datatype \<Rightarrow> int list) \<Rightarrow> bool" where
  "mpi_typemap tm \<longleftrightarrow>
     tm MPI_BYTE = [0] \<and>
     (\<forall>n. tm (Type_contiguous n MPI_BYTE) = [0..n - 1]) \<and>
     (\<forall>c b st. tm (Type_vector c b st MPI_BYTE) =
        concat (map (\<lambda>i. map (\<lambda>j. i * st + j) [0..b - 1]) [0..c - 1])) \<and>
     (\<forall>d1 t1 d2 t2. tm (Type_struct [(1, d1, t1), (1, d2, t2)]) =
        map (\<lambda>d. d1 + d) (tm t1) @ map (\<lambda>d. d2 + d) (tm t2))"

lemma map_plus_upto: "map (\<lambda>j. a + j) [i..k] = [a + i..a + (k :: int)]"
proof (induction i k rule: upto.induct)
  case (1 i k)
  show ?case
  proof (cases "i \<le> k")
    case True
    then show ?thesis using "1.IH" upto_rec1 [of i k] upto_rec1 [of "a + i" "a + k"] by (simp add: add.assoc)
  qed simp
qed

lemma upto_join: "i \<le> j + 1 \<Longrightarrow> j \<le> k \<Longrightarrow> [i..j] @ [j + 1..k] = [i..(k :: int)]"
proof (induction i j rule: upto.induct)
  case (1 i j)
  show ?case
  proof (cases "i \<le> j")
    case True
    then show ?thesis using "1.IH" "1.prems" upto_rec1 [of i j] upto_rec1 [of i k] by simp
  next
    case False
    with "1.prems" have "i = j + 1" by simp
    then show ?thesis by simp
  qed
qed

lemma chunks_tile:
  assumes "0 < b"
  shows "concat (map (\<lambda>i. map (\<lambda>j. i * b + j) [0..b - 1]) [0..int n - 1]) = [0..int n * b - 1]"
proof (induction n)
  case 0
  then show ?case by simp
next
  case (Suc n)
  have "[0..int (Suc n) - 1] = [0..int n - 1] @ [int n]"
    using upto_join [of 0 "int n - 1" "int n"] by simp
  then have "concat (map (\<lambda>i. map (\<lambda>j. i * b + j) [0..b - 1]) [0..int (Suc n) - 1]) =
      [0..int n * b - 1] @ [int n * b..int n * b + (b - 1)]"
    using Suc.IH by (simp add: map_plus_upto)
  also have "\<dots> = [0..int n * b + (b - 1)]"
    using upto_join [of 0 "int n * b - 1" "int n * b + (b - 1)"] assms by simp
  also have "int n * b + (b - 1) = int (Suc n) * b - 1"
    by (simp add: algebra_simps)
  finally show ?case .
qed

lemma int_max_square: "int_max * int_max = 4611686014132420609"
  by (simp add: int_max_def)

lemma type_contiguous_succeeds:
  assumes "0 \<le> nbytes" and "nbytes < int_max * int_max"
  shows "\<exists>dt. type_contiguous nbytes s = Inr (dt, s\<lparr>trace := trace s @
           (let chunks = Type_vector (nbytes div int_max) int_max int_max MPI_BYTE;
                remainder = Type_contiguous (nbytes mod int_max) MPI_BYTE
            in [Type_created chunks, Type_created remainder, Type_created dt,
                Type_free chunks, Type_free remainder])\<rparr>) \<and>
         dt = Type_struct [(1, 0, Type_vector (nbytes div int_max) int_max int_max MPI_BYTE),
           (1, nbytes div int_max * int_max, Type_contiguous (nbytes mod int_max) MPI_BYTE)]"
proof -
  have pos: "0 < int_max" by (simp add: int_max_def)
  have r: "0 \<le> nbytes mod int_max" "nbytes mod int_max < int_max"
    using pos by simp_all
  have le: "nbytes div int_max * int_max \<le> nbytes"
    using r div_mult_mod_eq [of nbytes int_max] by linarith
  with assms(2) have "nbytes div int_max * int_max < int_max * int_max" by linarith
  with pos have c: "0 \<le> nbytes div int_max" "nbytes div int_max < int_max"
    using assms(1) by (simp_all add: pos_imp_zdiv_nonneg_iff)
  have conv: "to_int (nbytes div int_max) = nbytes div int_max"
    "to_int (nbytes mod int_max) = nbytes mod int_max" "to_int int_max = int_max"
    using c r by (auto intro!: to_int_id simp: is_int_def) (simp_all add: int_max_def)
  have disp: "to_int64 (to_size (nbytes div int_max * int_max)) = nbytes div int_max * int_max"
  proof -
    have b: "0 \<le> nbytes div int_max * int_max" "nbytes div int_max * int_max < 2 ^ 62"
      using c pos le assms(2) int_max_square by simp_all
    have "to_size (nbytes div int_max * int_max) = nbytes div int_max * int_max"
      using b by (intro to_size_id) simp_all
    moreover have "to_int64 (nbytes div int_max * int_max) = nbytes div int_max * int_max"
      using b by (intro to_int64_id) (simp add: is_int64_def)
    ultimately show ?thesis by simp
  qed
  show ?thesis
    unfolding type_contiguous_def Let_def conv disp using c r by (simp add: log_event_def)
qed

lemma type_contiguous_typemap:
  assumes "mpi_typemap tm" and "0 \<le> nbytes" and "nbytes < int_max * int_max"
  shows "\<exists>dt s'. type_contiguous nbytes s = Inr (dt, s') \<and> tm dt = [0..nbytes - 1]"
proof -
  define c r where "c = nbytes div int_max" and "r = nbytes mod int_max"
  have pos: "0 < int_max" by (simp add: int_max_def)
  have cr: "nbytes = c * int_max + r" "0 \<le> r" "0 \<le> c"
    using assms(2) pos by (simp_all add: c_def r_def pos_imp_zdiv_nonneg_iff)
  have "tm (Type_vector c int_max int_max MPI_BYTE) = [0..c * int_max - 1]"
    using assms(1) chunks_tile [OF pos, of "nat c"] cr(3) by (simp add: mpi_typemap_def)
  moreover have "tm (Type_contiguous r MPI_BYTE) = [0..r - 1]"
    using assms(1) by (simp add: mpi_typemap_def)
  ultimately have "tm (Type_struct [(1, 0, Type_vector c int_max int_max MPI_BYTE),
      (1, c * int_max, Type_contiguous r MPI_BYTE)]) = [0..c * int_max - 1] @ [c * int_max..c * int_max + r - 1]"
    using assms(1) map_plus_upto [of "c * int_max" 0 "r - 1"]
    by (simp add: mpi_typemap_def add_diff_eq)
  also have "\<dots> = [0..nbytes - 1]"
    using upto_join [of 0 "c * int_max - 1" "c * int_max + r - 1"] cr pos by simp
  finally show ?thesis
    using type_contiguous_succeeds [OF assms(2,3), of s] by (auto simp: c_def r_def)
qed

section \<open>Nothing is truncated or leaked\<close>

fun created_types :: "event list \<Rightarrow> mpi_datatype list" where
  "created_types [] = []"
| "created_types (Type_created t # es) = t # created_types es"
| "created_types (e # es) = created_types es"

fun freed_types :: "event list \<Rightarrow> mpi_datatype list" where
  "freed_types [] = []"
| "freed_types (Type_free t # es) = t # freed_types es"
| "freed_types (e # es) = freed_types es"

lemma created_types_append [simp]: "created_types (es @ es') = created_types es @ created_types es'"
  by (induction es rule: created_types.induct) auto

lemma freed_types_append [simp]: "freed_types (es @ es') = freed_types es @ freed_types es'"
  by (induction es rule: freed_types.induct) auto

lemma choose_type_small:
  "0 \<le> sz \<Longrightarrow> sz \<le> int_max \<Longrightarrow> choose_type sz s = Inr (MPI_BYTE, sz, s)"
  by (simp add: choose_type_def is_int_def int_max_def)

lemma choose_type_big:
  assumes "int_max < sz" and "sz < int_max * int_max"
  shows "\<exists>dt es. choose_type sz s = Inr (dt, 1, s\<lparr>trace := trace s @ es\<rparr>) \<and> dt \<noteq> MPI_BYTE \<and>
           mset (created_types es) = add_mset dt (mset (freed_types es)) \<and>
           (\<exists>s'. type_contiguous sz s = Inr (dt, s'))"
proof -
  have "0 \<le> sz" using assms(1) by (simp add: int_max_def)
  from type_contiguous_succeeds [OF this assms(2), of s] show ?thesis
    using assms(1) by (auto simp: choose_type_def log_event_def Let_def)
qed

lemma type_contiguous_too_large:
  assumes "int_max * int_max \<le> nbytes"
  shows "type_contiguous nbytes s = Inl (Assert_failed ''c is too large'')"
proof -
  have "int_max * int_max div int_max \<le> nbytes div int_max"
    using assms by (intro zdiv_mono1) (simp_all add: int_max_def)
  then have "int_max \<le> nbytes div int_max" by (simp add: int_max_def)
  then show ?thesis by (simp add: type_contiguous_def Let_def)
qed

lemma choose_type_too_large:
  "int_max * int_max \<le> sz \<Longrightarrow> choose_type sz s = Inl (Assert_failed ''c is too large'')"
  using type_contiguous_too_large [of sz s] by (auto simp: choose_type_def int_max_def)

lemma choose_type_spec:
  assumes "mpi_typemap tm" and "0 \<le> sz" and "choose_type sz s = Inr (dt, len, s')"
  shows "(sz \<le> int_max \<and> dt = MPI_BYTE \<and> len = sz \<or> int_max < sz \<and> len = 1 \<and> tm dt = [0..sz - 1]) \<and>
         (\<exists>es. release_type dt s' = s\<lparr>trace := trace s @ es\<rparr> \<and>
               mset (created_types es) = mset (freed_types es)) \<and>
         (\<exists>es. s' = s\<lparr>trace := trace s @ es\<rparr>)"
proof (cases "sz \<le> int_max")
  case True
  then have "dt = MPI_BYTE" "len = sz" "s' = s"
    using choose_type_small [OF assms(2) True, of s] assms(3) by auto
  then show ?thesis using True by (auto simp: release_type_def intro: exI [of _ "[]"])
next
  case False
  have lt: "sz < int_max * int_max"
    using assms(3) choose_type_too_large [of sz s] by (cases "sz < int_max * int_max") auto
  obtain es where es: "s' = s\<lparr>trace := trace s @ es\<rparr>" "len = 1" "dt \<noteq> MPI_BYTE"
      "mset (created_types es) = add_mset dt (mset (freed_types es))" "\<exists>s'. type_contiguous sz s = Inr (dt, s')"
    using choose_type_big [of sz s] False lt assms(3) by auto
  have "tm dt = [0..sz - 1]"
    using type_contiguous_typemap [OF assms(1,2) lt, of s] es(5) by auto
  moreover have "release_type dt s' = s\<lparr>trace := trace s @ (es @ [Type_free dt])\<rparr>"
    using es(1,3) by (simp add: release_type_def log_event_def)
  moreover have "mset (created_types (es @ [Type_free dt])) = mset (freed_types (es @ [Type_free dt]))"
    using es(4) by simp
  ultimately show ?thesis using False es(1,2) by fastforce
qed

text \<open>C26: Posting a send of \<open>sz\<close> bytes hands MPI the whole message (its byte count, or one
  element of a datatype that covers it when the count does not fit an \<^verbatim>\<open>int\<close>) with the given
  peer and tag, and of the datatypes it creates none is left unreleased when it returns.\<close>

theorem isend_posts_whole_message:
  assumes "mpi_typemap tm" and "0 \<le> sz"
    and "isend E address sz rank tag c s = Inr (req, s')"
  shows "\<exists>len dt es.
           MPI_Isend E address len dt rank tag c (mem s) (lib s) = (MPI_SUCCESS, req, lib s') \<and>
           (sz \<le> int_max \<and> dt = MPI_BYTE \<and> len = sz \<or> int_max < sz \<and> len = 1 \<and> tm dt = [0..sz - 1]) \<and>
           s' = s\<lparr>trace := trace s @ es, lib := lib s'\<rparr> \<and>
           mset (created_types es) = mset (freed_types es)"
proof -
  obtain dt len s1 where t: "choose_type sz s = Inr (dt, len, s1)"
    using assms(3) by (auto simp: isend_def elim!: bind_resE)
  note spec = choose_type_spec [OF assms(1,2) t]
  obtain es where es: "release_type dt s1 = s\<lparr>trace := trace s @ es\<rparr>"
      "mset (created_types es) = mset (freed_types es)"
    using spec by blast
  have fr: "mem s1 = mem s" "lib s1 = lib s" using spec by auto
  obtain l where l: "MPI_Isend E address len dt rank tag c (mem s) (lib s) = (MPI_SUCCESS, req, l)"
      "s' = release_type dt (s1\<lparr>lib := l\<rparr>)"
    using assms(3) t fr by (auto simp: isend_def split: prod.splits elim!: bind_resE)
  moreover have "release_type dt (s1\<lparr>lib := l\<rparr>) = (release_type dt s1)\<lparr>lib := l\<rparr>"
    by (simp add: release_type_def log_event_def)
  ultimately show ?thesis
    using spec es by (auto intro!: exI [of _ len] exI [of _ dt] exI [of _ es])
qed

text \<open>A message of \<^verbatim>\<open>INT_MAX\<close> squared bytes or more is refused by an assertion before anything
  is posted; that includes every negative \<^verbatim>\<open>int64_t\<close> length, which becomes such a \<^verbatim>\<open>size_t\<close>.\<close>

theorem oversized_message_refused:
  assumes "int_max * int_max \<le> sz \<or> (\<exists>n. is_int64 n \<and> n < 0 \<and> sz = to_size n)"
  shows "isend E address sz rank tag c s = Inl (Assert_failed ''c is too large'') \<and>
         irecv E address sz rank tag c s = Inl (Assert_failed ''c is too large'')"
proof -
  have "int_max * int_max \<le> sz"
    using assms
  proof
    assume "\<exists>n. is_int64 n \<and> n < 0 \<and> sz = to_size n"
    then obtain n where "is_int64 n" "sz = n + 2 ^ 64" using to_size_neg by blast
    then show ?thesis by (simp add: is_int64_def int_max_square)
  qed
  then show ?thesis by (simp add: isend_def irecv_def choose_type_too_large)
qed

section \<open>Statements and instances\<close>

text \<open>C27: The datatype built for a message of \<open>nbytes\<close> bytes describes exactly its bytes
  0, 1, ..., \<open>nbytes - 1\<close>, each once and in order, whatever the size up to
  \<^verbatim>\<open>INT_MAX\<close> squared.\<close>

theorem type_contiguous_covers:
  assumes "mpi_typemap tm" and "0 \<le> nbytes" and "nbytes < int_max * int_max"
  shows "\<exists>dt s'. type_contiguous nbytes s = Inr (dt, s') \<and> tm dt = [0..nbytes - 1]"
  using assms by (rule type_contiguous_typemap)

fun ref_typemap :: "mpi_datatype \<Rightarrow> int list" where
  "ref_typemap (Type_contiguous n t) = [0..n - 1]"
| "ref_typemap (Type_vector c b st t) = concat (map (\<lambda>i. map (\<lambda>j. i * st + j) [0..b - 1]) [0..c - 1])"
| "ref_typemap (Type_struct [(n, d1, t1), (k, d2, t2)]) =
     map (\<lambda>d. d1 + d) (ref_typemap t1) @ map (\<lambda>d. d2 + d) (ref_typemap t2)"
| "ref_typemap t = [0]"

lemma ref_typemap_ok: "mpi_typemap ref_typemap"
  by (simp add: mpi_typemap_def)

theorem type_contiguous_covers_witness:
  "\<exists>dt s'. type_contiguous 3000000000 ref_rt = Inr (dt, s') \<and> ref_typemap dt = [0..3000000000 - 1]"
  by (rule type_contiguous_covers [OF ref_typemap_ok]) (simp_all add: int_max_def)

lemma ref_isend_big:
  "\<exists>req s'. isend (ref_mpi ref_build) 64 3000000000 1 5 1 (ref_mpi_st (mpi_config_default (ref_mpi ref_build)))
     = Inr (req, s')"
  by (simp add: isend_def choose_type_def type_contiguous_def int_max_def ref_post_def Let_def)

theorem isend_posts_whole_message_witness:
  "\<exists>req s' len dt es. isend (ref_mpi ref_build) 64 3000000000 1 5 1
       (ref_mpi_st (mpi_config_default (ref_mpi ref_build))) = Inr (req, s') \<and>
     (3000000000 \<le> int_max \<and> dt = MPI_BYTE \<and> len = 3000000000 \<or>
      int_max < 3000000000 \<and> len = 1 \<and> ref_typemap dt = [0..3000000000 - 1]) \<and>
     trace s' = es \<and> mset (created_types es) = mset (freed_types es)"
proof -
  obtain req s' where s': "isend (ref_mpi ref_build) 64 3000000000 1 5 1
      (ref_mpi_st (mpi_config_default (ref_mpi ref_build))) = Inr (req, s')"
    using ref_isend_big by blast
  obtain len dt es where
    r: "(3000000000 \<le> int_max \<and> dt = MPI_BYTE \<and> len = 3000000000 \<or>
      int_max < 3000000000 \<and> len = 1 \<and> ref_typemap dt = [0..3000000000 - 1])"
    and t: "s' = ref_mpi_st (mpi_config_default (ref_mpi ref_build))
      \<lparr>trace := trace (ref_mpi_st (mpi_config_default (ref_mpi ref_build))) @ es, lib := lib s'\<rparr>"
    and m: "mset (created_types es) = mset (freed_types es)"
    using isend_posts_whole_message [OF ref_typemap_ok _ s'] by auto
  have "trace s' = es" by (subst t) simp
  then show ?thesis using s' r m by blast
qed

theorem oversized_message_refused_witness:
  "irecv (ref_mpi ref_build) 0 (to_size (- 1)) 0 0 0
     (ref_mpi_st (mpi_config_default (ref_mpi ref_build))) = Inl (Assert_failed ''c is too large'')"
proof -
  have "\<exists>n. is_int64 n \<and> n < 0 \<and> to_size (- 1) = to_size n"
    by (rule exI [of _ "- 1"]) (simp add: is_int64_def)
  then show ?thesis using oversized_message_refused by blast
qed

end
