(* ===== verification/LCW_Mpi_Manager.thy ===== *)
theory LCW_Mpi_Manager
  imports LCW_Mpi_Bigcount
begin

text \<open>
  The completion managers of \<^verbatim>\<open>src/src/backend/mpi/comp_manager\<close>: \<^verbatim>\<open>manager_req_t\<close> keeps the
  outstanding operations in a queue and tests the front one per call, putting it back when it
  is not complete; \<^verbatim>\<open>manager_cont_t\<close> attaches an MPI continuation to each operation.
\<close>

section \<open>\<open>manager_req_t\<close>\<close>

definition manager_req_new :: manager_req_t where
  "manager_req_new = \<lparr>entries = [], req_lock = False\<rparr>"

definition set_manager :: "ptr \<Rightarrow> manager_t \<Rightarrow> ('q, 'm) mpi_st \<Rightarrow> ('q, 'm) mpi_st" where
  "set_manager p m s = s\<lparr>managers := (managers s)(p \<mapsto> m)\<rparr>"

definition get_manager_req :: "ptr \<Rightarrow> ('q, 'm) mpi_st \<Rightarrow> manager_req_t res" where
  "get_manager_req this s =
     bind_res (deref (managers s) this) (\<lambda>m. case m of Man_req x \<Rightarrow> Inr x | Man_cont _ \<Rightarrow> Inl Bad_cast)"

definition manager_req_add_entry ::
  "ptr \<Rightarrow> entry_t \<Rightarrow> ('q, 'm) mpi_st \<Rightarrow> ('q, 'm) mpi_st res" where
  "manager_req_add_entry this entry s =
     bind_res (get_manager_req this s) (\<lambda>m.
     bind_res (spin_lock (req_lock m)) (\<lambda>l.
     let m = m\<lparr>req_lock := l, entries := entries m @ [entry]\<rparr>
     in bind_res (spin_unlock (req_lock m)) (\<lambda>l.
        Inr (set_manager this (Man_req (m\<lparr>req_lock := l\<rparr>)) s))))"

text \<open>
  The status is a local variable that \<^verbatim>\<open>MPI_Test\<close> fills; it stays uninitialised (\<open>None\<close>) when the
  request handle is null and no test is made.
\<close>

definition manager_req_test ::
  "('q, 'm) mpi_env \<Rightarrow> entry_t \<Rightarrow> ('q, 'm) mpi_st \<Rightarrow>
   (bool \<times> mpi_status option \<times> entry_t \<times> ('q, 'm) mpi_st) res" where
  "manager_req_test E entry s =
     (if mpi_req entry = MPI_REQUEST_NULL then Inr (True, None, entry, s)
      else bind_res (enter_stream_cs E (ent_device entry) s) (\<lambda>s.
           bind_res (mpi_test E (mpi_req entry) s) (\<lambda>(succeed, status, r, s).
           bind_res (leave_stream_cs E (ent_device entry) s) (\<lambda>s.
           Inr (succeed, Some status, entry\<lparr>mpi_req := r\<rparr>, s)))))"

text \<open>What follows a successful test: the fields a receive learns from the status, and the signal.\<close>

definition set_received ::
  "('q, 'm) mpi_env \<Rightarrow> ptr \<Rightarrow> mpi_status \<Rightarrow> ('q, 'm) mpi_st \<Rightarrow> ('q, 'm) mpi_st res" where
  "set_received E p status s =
     bind_res (deref (heap s) p) (\<lambda>r.
       let (err, count) = MPI_Get_count E status MPI_CHAR
       in bind_res (MPI_SAFECALL err) (\<lambda>_.
          Inr (s\<lparr>heap := (heap s)(p \<mapsto> r\<lparr>req_length := count, req_tag := MPI_TAG status,
                                          req_rank := MPI_SOURCE status\<rparr>)\<rparr>)))"

definition manager_req_complete ::
  "('q, 'm) mpi_env \<Rightarrow> entry_t \<Rightarrow> mpi_status option \<Rightarrow> ('q, 'm) mpi_st \<Rightarrow> ('q, 'm) mpi_st res" where
  "manager_req_complete E entry status s =
     bind_res (deref (heap s) (ent_request entry)) (\<lambda>r.
     bind_res (lcw_assert (req_op r \<noteq> PUT_SIGNAL) ''Unexpected op'') (\<lambda>_.
     bind_res (if req_op r = RECV
               then (case status of None \<Rightarrow> Inl Uninit_read
                     | Some st \<Rightarrow> set_received E (ent_request entry) st s)
               else Inr s) (\<lambda>s.
     signal_comp E entry s)))"

definition manager_req_do_progress ::
  "('q, 'm) mpi_env \<Rightarrow> ptr \<Rightarrow> ('q, 'm) mpi_st \<Rightarrow> (bool \<times> ('q, 'm) mpi_st) res" where
  "manager_req_do_progress E this s =
     bind_res (get_manager_req this s) (\<lambda>m.
     if entries m = [] then Inr (False, s)
     else
       let (ok, l) = spin_try_lock (req_lock m)
       in if \<not> ok then Inr (False, s)
       else
         let m = m\<lparr>req_lock := l\<rparr>
         in case entries m of
              [] \<Rightarrow> bind_res (spin_unlock (req_lock m)) (\<lambda>l.
                     Inr (False, set_manager this (Man_req (m\<lparr>req_lock := l\<rparr>)) s))
            | entry # rest \<Rightarrow>
                bind_res (manager_req_test E entry
                            (set_manager this (Man_req (m\<lparr>entries := rest\<rparr>)) s)) (\<lambda>(succeed, status, entry, s).
                bind_res (get_manager_req this s) (\<lambda>m.
                let m = (if succeed then m else m\<lparr>entries := entries m @ [entry]\<rparr>)
                in bind_res (spin_unlock (req_lock m)) (\<lambda>l.
                   let s = set_manager this (Man_req (m\<lparr>req_lock := l\<rparr>)) s
                   in if \<not> succeed then Inr (False, s)
                      else bind_res (manager_req_complete E entry status s) (\<lambda>s. Inr (True, s))))))"

section \<open>\<open>manager_cont_t\<close>\<close>

definition manager_cont_new ::
  "('q, 'm) mpi_env \<Rightarrow> ('q, 'm) mpi_st \<Rightarrow> (manager_cont_t \<times> ('q, 'm) mpi_st) res" where
  "manager_cont_new E s =
     (if use_cont_req (config s) then
        let flags = (if use_cont_poll_only (config s) then [MPIX_CONT_POLL_ONLY] else []);
            (err, r, l) = MPIX_Continue_init E flags (lib s)
        in bind_res (MPI_SAFECALL err) (\<lambda>_.
           let (err, l) = MPI_Start E r l
           in bind_res (MPI_SAFECALL err) (\<lambda>_.
              Inr (\<lparr>cont_req = r, cont_lock = False\<rparr>, s\<lparr>lib := l\<rparr>)))
      else Inr (\<lparr>cont_req = MPI_REQUEST_NULL, cont_lock = False\<rparr>, s))"

definition manager_cont_delete ::
  "('q, 'm) mpi_env \<Rightarrow> manager_cont_t \<Rightarrow> ('q, 'm) mpi_st \<Rightarrow> ('q, 'm) mpi_st res" where
  "manager_cont_delete E m s =
     (if cont_req m \<noteq> MPI_REQUEST_NULL then
        let (err, l) = MPI_Request_free E (cont_req m) (lib s)
        in bind_res (MPI_SAFECALL err) (\<lambda>_. Inr (s\<lparr>lib := l\<rparr>))
      else Inr s)"

definition new_centry :: "entry_t \<Rightarrow> ('q, 'm) mpi_st \<Rightarrow> ptr \<times> ('q, 'm) mpi_st" where
  "new_centry e s =
     (next_obj s, s\<lparr>centries := (centries s)(next_obj s \<mapsto> e), next_obj := Suc (next_obj s)\<rparr>)"

definition manager_cont_add_entry ::
  "('q, 'm) mpi_env \<Rightarrow> manager_cont_t \<Rightarrow> entry_t \<Rightarrow> ('q, 'm) mpi_st \<Rightarrow> ('q, 'm) mpi_st res" where
  "manager_cont_add_entry E m entry s =
     (let (entry_p, s) = new_centry entry s;
          flags = (if use_cont_imm (config s) then [MPIX_CONT_IMMEDIATE] else []) @
                  (if use_cont_defer (config s) then [MPIX_CONT_DEFER_COMPLETE] else [])
      in bind_res (enter_stream_cs E (ent_device entry) s) (\<lambda>s.
         let (err, cbs, l) = MPIX_Continue E (mpi_req entry) entry_p flags (cont_req m) (lib s)
         in bind_res (run_callbacks E cbs (s\<lparr>lib := l\<rparr>)) (\<lambda>s.
            bind_res (MPI_SAFECALL err) (\<lambda>_.
            leave_stream_cs E (ent_device entry) s))))"

definition manager_cont_do_progress ::
  "('q, 'm) mpi_env \<Rightarrow> ptr \<Rightarrow> manager_cont_t \<Rightarrow> ('q, 'm) mpi_st \<Rightarrow> (bool \<times> ('q, 'm) mpi_st) res" where
  "manager_cont_do_progress E this m s =
     (if cont_req m \<noteq> MPI_REQUEST_NULL then
        let (ok, lk) = spin_try_lock (cont_lock m)
        in if \<not> ok then Inr (False, s)
           else
             bind_res (mpi_test E (cont_req m) (set_manager this (Man_cont (m\<lparr>cont_lock := lk\<rparr>)) s))
               (\<lambda>(succeed, _, r, s).
             let (err, l) = (if succeed then MPI_Start E r (lib s) else (MPI_SUCCESS, lib s))
             in bind_res (MPI_SAFECALL err) (\<lambda>_.
                bind_res (spin_unlock lk) (\<lambda>lk.
                Inr (False, set_manager this (Man_cont (m\<lparr>cont_req := r, cont_lock := lk\<rparr>)) (s\<lparr>lib := l\<rparr>)))))
      else Inr (False, s))"

section \<open>The virtual methods of \<open>manager_base_t\<close>\<close>

definition manager_add_entry ::
  "('q, 'm) mpi_env \<Rightarrow> ptr \<Rightarrow> entry_t \<Rightarrow> ('q, 'm) mpi_st \<Rightarrow> ('q, 'm) mpi_st res" where
  "manager_add_entry E this entry s =
     bind_res (deref (managers s) this) (\<lambda>m.
       case m of Man_req _ \<Rightarrow> manager_req_add_entry this entry s
       | Man_cont x \<Rightarrow> manager_cont_add_entry E x entry s)"

definition manager_do_progress ::
  "('q, 'm) mpi_env \<Rightarrow> ptr \<Rightarrow> ('q, 'm) mpi_st \<Rightarrow> (bool \<times> ('q, 'm) mpi_st) res" where
  "manager_do_progress E this s =
     bind_res (deref (managers s) this) (\<lambda>m.
       case m of Man_req _ \<Rightarrow> manager_req_do_progress E this s
       | Man_cont x \<Rightarrow> manager_cont_do_progress E this x s)"

end
