(* ===== verification/LCW_Mpi_Backend.thy ===== *)
theory LCW_Mpi_Backend
  imports LCW_Mpi_Manager
begin

text \<open>
  The class \<^verbatim>\<open>backend_mpi_t\<close> of \<^verbatim>\<open>src/src/backend/mpi/backend_mpi.cpp\<close>: initialization from the
  environment variables, devices, the posting of sends, receives and puts, and progress. The
  calls are sequential; a lock another thread holds is a lock that is held in the state.
\<close>

section \<open>Initialization and finalization\<close>

definition comp_type_value :: "comp_type_t \<Rightarrow> int" where
  "comp_type_value t = (case t of REQUEST \<Rightarrow> 0 | CONTINUE \<Rightarrow> 1)"

definition value_comp_type :: "int \<Rightarrow> comp_type_t" where
  "value_comp_type v = (if v = 0 then REQUEST else CONTINUE)"

definition cq_type_dict :: "('q, 'm) mpi_env \<Rightarrow> int \<Rightarrow> (string option \<times> int) list" where
  "cq_type_dict E dflt =
     [(None, dflt),
      (Some ''array_atomic_faa'', LCT_queue_type_value E LCT_QUEUE_ARRAY_ATOMIC_FAA),
      (Some ''array_atomic_cas'', LCT_queue_type_value E LCT_QUEUE_ARRAY_ATOMIC_CAS),
      (Some ''array_atomic_basic'', LCT_queue_type_value E LCT_QUEUE_ARRAY_ATOMIC_BASIC),
      (Some ''array_mutex'', LCT_queue_type_value E LCT_QUEUE_ARRAY_MUTEX),
      (Some ''std_mutex'', LCT_queue_type_value E LCT_QUEUE_STD_MUTEX),
      (Some ''ms'', LCT_queue_type_value E LCT_QUEUE_MS),
      (Some ''lcrq'', LCT_queue_type_value E LCT_QUEUE_LCRQ),
      (Some ''lprq'', LCT_queue_type_value E LCT_QUEUE_LPRQ),
      (Some ''faaarray'', LCT_queue_type_value E LCT_QUEUE_FAAARRAY),
      (Some ''lazy_index'', LCT_queue_type_value E LCT_QUEUE_LAZY_INDEX)]"

definition comp_type_dict :: "int \<Rightarrow> (string option \<times> int) list" where
  "comp_type_dict dflt =
     [(None, dflt), (Some ''req'', comp_type_value REQUEST), (Some ''cont'', comp_type_value CONTINUE)]"

text \<open>\<^verbatim>\<open>if (p) x = atoi(p);\<close> for an integer and for a boolean variable.\<close>

definition env_int :: "string option \<Rightarrow> int \<Rightarrow> int" where
  "env_int p x = (case p of None \<Rightarrow> x | Some str \<Rightarrow> atoi str)"

definition env_bool :: "string option \<Rightarrow> bool \<Rightarrow> bool" where
  "env_bool p x = (case p of None \<Rightarrow> x | Some str \<Rightarrow> atoi str \<noteq> 0)"

definition mpi_read_config ::
  "('q, 'm) mpi_env \<Rightarrow> (string \<rightharpoonup> string) \<Rightarrow> mpi_config \<Rightarrow> mpi_config res" where
  "mpi_read_config E getenv c =
     (let c = c\<lparr>cq_type := snd (LCT_str_int_search E (cq_type_dict E (cq_type c))
                                  (getenv ''LCW_MPI_CQ_TYPE'') (cq_type c))\<rparr>;
          c = c\<lparr>default_cq_length := env_int (getenv ''LCW_MPI_DEFAULT_QUEUE_LENGTH'') (default_cq_length c)\<rparr>;
          ct = comp_type_value (comp_type c);
          c = c\<lparr>comp_type := value_comp_type (snd (LCT_str_int_search E (comp_type_dict ct)
                                  (getenv ''LCW_MPI_COMP_TYPE'') ct))\<rparr>
      in bind_res (lcw_assert (LCW_MPI_USE_STREAM (build E) \<or> comp_type c \<noteq> CONTINUE)
                     ''MPIX Continue is not enabled!'') (\<lambda>_.
         let c = c\<lparr>use_stream := env_bool (getenv ''LCW_MPI_USE_STREAM'') (use_stream c)\<rparr>
         in bind_res (lcw_assert (LCW_MPI_USE_STREAM (build E) \<or> \<not> use_stream c)
                        ''MPIX Stream is not enabled!'') (\<lambda>_.
            let c = c\<lparr>g_pending_msg_max := env_int (getenv ''LCW_MPI_MAX_PENDING_MSG'') (g_pending_msg_max c),
                      g_num_comp_managers := env_int (getenv ''LCW_MPI_NUM_COMP_MANAGERS'') (g_num_comp_managers c)\<rparr>
            in Inr (if LCW_MPI_USE_CONT (build E) then
                      c\<lparr>use_cont_imm := env_bool (getenv ''LCW_MPI_CONT_IMM'') (use_cont_imm c),
                        use_cont_req := env_bool (getenv ''LCW_MPI_CONT_REQ'') (use_cont_req c),
                        use_cont_poll_only := env_bool (getenv ''LCW_MPI_CONT_POLL_ONLY'') (use_cont_poll_only c),
                        use_cont_defer := env_bool (getenv ''LCW_MPI_CONT_DEFER'') (use_cont_defer c)\<rparr>
                    else c))))"

text \<open>\<^verbatim>\<open>std::make_shared\<close> of the configured manager class.\<close>

definition make_manager ::
  "('q, 'm) mpi_env \<Rightarrow> ('q, 'm) mpi_st \<Rightarrow> (ptr \<times> ('q, 'm) mpi_st) res" where
  "make_manager E s =
     bind_res (case comp_type (config s) of
                 REQUEST \<Rightarrow> Inr (Man_req manager_req_new, s)
               | CONTINUE \<Rightarrow>
                   if LCW_MPI_USE_CONT (build E)
                   then bind_res (manager_cont_new E s) (\<lambda>(m, s). Inr (Man_cont m, s))
                   else Inl (Assert_failed ''comp_type cont is not enabled!''))
       (\<lambda>(m, s). let p = next_obj s
                 in Inr (p, s\<lparr>managers := (managers s)(p \<mapsto> m), mgr_refs := (mgr_refs s)(p := 1),
                              next_obj := Suc p\<rparr>))"

fun make_managers ::
  "('q, 'm) mpi_env \<Rightarrow> nat \<Rightarrow> ('q, 'm) mpi_st \<Rightarrow> (ptr list \<times> ('q, 'm) mpi_st) res" where
  "make_managers E 0 s = Inr ([], s)"
| "make_managers E (Suc n) s =
     bind_res (make_manager E s) (\<lambda>(p, s).
     bind_res (make_managers E n s) (\<lambda>(ps, s). Inr (p # ps, s)))"

text \<open>Dropping one \<^verbatim>\<open>shared_ptr\<close>: the last one destroys the manager.\<close>

definition release_manager ::
  "('q, 'm) mpi_env \<Rightarrow> ptr \<Rightarrow> ('q, 'm) mpi_st \<Rightarrow> ('q, 'm) mpi_st res" where
  "release_manager E p s =
     bind_res (deref (managers s) p) (\<lambda>m.
       let n = mgr_refs s p - 1; s = s\<lparr>mgr_refs := (mgr_refs s)(p := n)\<rparr>
       in if n > 0 then Inr s
          else bind_res (case m of Man_req _ \<Rightarrow> Inr s | Man_cont x \<Rightarrow> manager_cont_delete E x s) (\<lambda>s.
               Inr (s\<lparr>managers := (managers s)(p := None)\<rparr>)))"

fun release_managers ::
  "('q, 'm) mpi_env \<Rightarrow> ptr list \<Rightarrow> ('q, 'm) mpi_st \<Rightarrow> ('q, 'm) mpi_st res" where
  "release_managers E [] s = Inr s"
| "release_managers E (p # ps) s = bind_res (release_manager E p s) (release_managers E ps)"

definition mpi_initialize ::
  "('q, 'm) mpi_env \<Rightarrow> (string \<rightharpoonup> string) \<Rightarrow> ('q, 'm) mpi_st \<Rightarrow> ('q, 'm) mpi_st res" where
  "mpi_initialize E getenv s =
     (let (err, provided, l) = MPI_Init_thread E (lib s)
      in bind_res (MPI_SAFECALL err) (\<lambda>_.
         bind_res (lcw_assert (provided = MPI_THREAD_MULTIPLE) ''Cannot enable multithreaded MPI!'') (\<lambda>_.
         let (err, rank) = MPI_Comm_rank E (MPI_COMM_WORLD E) l
         in bind_res (MPI_SAFECALL err) (\<lambda>_.
         let (err, nranks) = MPI_Comm_size E (MPI_COMM_WORLD E) l
         in bind_res (MPI_SAFECALL err) (\<lambda>_.
         bind_res (mpi_read_config E getenv (config s)) (\<lambda>c.
         let s = s\<lparr>lib := l, g_rank := rank, g_nranks := nranks, config := c\<rparr>
         in if g_num_comp_managers c \<noteq> 0 then
              if g_num_comp_managers c < 0 then Inl (Exception ''std::length_error'')
              else bind_res (make_managers E (nat (g_num_comp_managers c)) s) (\<lambda>(ps, s).
                   Inr (s\<lparr>g_comp_managers := ps\<rparr>))
            else Inr s))))))"

definition mpi_finalize :: "('q, 'm) mpi_env \<Rightarrow> ('q, 'm) mpi_st \<Rightarrow> ('q, 'm) mpi_st res" where
  "mpi_finalize E s =
     bind_res (release_managers E (g_comp_managers s) (s\<lparr>g_comp_managers := []\<rparr>)) (\<lambda>s.
       let (err, l) = MPI_Finalize E (lib s)
       in bind_res (MPI_SAFECALL err) (\<lambda>_. Inr (s\<lparr>lib := l\<rparr>)))"

definition mpi_get_rank :: "('q, 'm) mpi_st \<Rightarrow> int" where
  "mpi_get_rank s = g_rank s"

definition mpi_get_nranks :: "('q, 'm) mpi_st \<Rightarrow> int" where
  "mpi_get_nranks s = g_nranks s"

section \<open>Devices\<close>

definition post_put_recv ::
  "('q, 'm) mpi_env \<Rightarrow> ptr \<Rightarrow> ptr \<Rightarrow> ('q, 'm) mpi_st \<Rightarrow> ('q, 'm) mpi_st res" where
  "post_put_recv E device cmp s =
     bind_res (deref (devices s) device) (\<lambda>d.
     let (p, s) = new_request
           \<lparr>req_op = PUT_SIGNAL, req_device = device, req_rank = - 1, req_tag = put_tag d,
            req_buffer = put_rbuf_data d, req_length = to_int64 (put_rbuf_size d),
            req_user_context = nullptr\<rparr> s;
         entry = \<lparr>mpi_req = MPI_REQUEST_NULL, ent_device = device, completion = cmp, ent_request = p\<rparr>
     in bind_res (enter_stream_cs E device s) (\<lambda>s.
        bind_res (irecv E (put_rbuf_data d) (to_size (to_int64 (put_rbuf_size d))) (MPI_ANY_SOURCE E)
                    (to_int (put_tag d)) (comm d) s) (\<lambda>(r, s).
        bind_res (leave_stream_cs E device s) (\<lambda>s.
        bind_res (deref (devices s) device) (\<lambda>d.
        Inr (set_device device (d\<lparr>put_entry := entry\<lparr>mpi_req := r\<rparr>\<rparr>) s))))))"

text \<open>\<^verbatim>\<open>std::vector<char>::resize\<close> on an empty vector: zeroed storage of that size.\<close>

definition vector_resize ::
  "('q, 'm) mpi_env \<Rightarrow> int \<Rightarrow> ('q, 'm) mpi_st \<Rightarrow> (ptr \<times> ('q, 'm) mpi_st) res" where
  "vector_resize E n s =
     (let p = allocate E Alloc_default n (blocks s)
      in if p = nullptr then Inl (Exception ''std::bad_alloc'')
         else Inr (p, s\<lparr>blocks := (p, nat n) # blocks s,
                        mem := (\<lambda>a. if p \<le> a \<and> a < p + nat n then 0 else mem s a)\<rparr>))"

definition device_comm ::
  "('q, 'm) mpi_env \<Rightarrow> ('q, 'm) mpi_st \<Rightarrow> (mpi_stream \<times> mpi_comm \<times> ('q, 'm) mpi_st) res" where
  "device_comm E s =
     (if use_stream (config s) then
        if LCW_MPI_USE_STREAM (build E) then
          let (err, st, l) = MPIX_Stream_create E (lib s)
          in bind_res (MPI_SAFECALL err) (\<lambda>_.
             let (err, c, l) = MPIX_Stream_comm_create E (MPI_COMM_WORLD E) st l
             in bind_res (MPI_SAFECALL err) (\<lambda>_. Inr (st, c, s\<lparr>lib := l\<rparr>)))
        else Inl Uninit_read
      else
        let (err, c, l) = MPI_Comm_dup E (MPI_COMM_WORLD E) (lib s)
        in bind_res (MPI_SAFECALL err) (\<lambda>_. Inr (0, c, s\<lparr>lib := l\<rparr>)))"

definition comm_hints :: "(string \<times> string) list" where
  "comm_hints = [(''mpi_assert_no_any_tag'', ''true''), (''mpi_assert_allow_overtaking'', ''true'')]"

definition device_max_tag :: "('q, 'm) mpi_env \<Rightarrow> mpi_comm \<Rightarrow> 'm \<Rightarrow> int" where
  "device_max_tag E c l = (case MPI_Comm_get_tag_ub E c l of None \<Rightarrow> 32767 | Some ub \<Rightarrow> to_int ub)"

text \<open>The shared manager with index \<^verbatim>\<open>id % size\<close>, or a new one of the device's own.\<close>

definition device_manager ::
  "('q, 'm) mpi_env \<Rightarrow> int \<Rightarrow> ('q, 'm) mpi_st \<Rightarrow> (ptr \<times> ('q, 'm) mpi_st) res" where
  "device_manager E ident s =
     (if g_comp_managers s \<noteq> [] then
        let p = g_comp_managers s ! nat (to_size ident mod int (length (g_comp_managers s)))
        in Inr (p, s\<lparr>mgr_refs := (mgr_refs s)(p := Suc (mgr_refs s p))\<rparr>)
      else make_manager E s)"

definition null_entry :: entry_t where
  "null_entry = \<lparr>mpi_req = MPI_REQUEST_NULL, ent_device = nullptr, completion = nullptr, ent_request = nullptr\<rparr>"

definition mpi_alloc_device ::
  "('q, 'm) mpi_env \<Rightarrow> int \<Rightarrow> ptr \<Rightarrow> ('q, 'm) mpi_st \<Rightarrow> (ptr \<times> ('q, 'm) mpi_st) res" where
  "mpi_alloc_device E max_put_length put_comp s =
     (let device = next_obj s;
          ident = g_ndevices s;
          s = s\<lparr>next_obj := Suc device, g_ndevices := to_int (ident + 1)\<rparr>
      in bind_res (device_comm E s) (\<lambda>(st, c, s).
         let s = (if MPI_VERSION E \<ge> 3 then s\<lparr>lib := MPI_Comm_set_info E c comm_hints (lib s)\<rparr> else s);
             max_tag = device_max_tag E c (lib s)
         in bind_res (device_manager E ident s) (\<lambda>(m, s).
            let n = to_size (if max_put_length > 0 then max_put_length else default_max_put (config s))
            in bind_res (vector_resize E n s) (\<lambda>(buf, s).
               let d = \<lparr>stream_lock = False, stream = st, dev_id = ident, enable_put = True, comm = c,
                        max_tag_2sided = to_int (max_tag - 1), put_tag = max_tag,
                        put_rbuf_data = buf, put_rbuf_size = n,
                        put_entry = null_entry, put_entry_lock = False, comp_manager_p = m\<rparr>
               in bind_res (post_put_recv E device put_comp (set_device device d s)) (\<lambda>s.
                  Inr (device, s))))))"

definition mpi_free_device ::
  "('q, 'm) mpi_env \<Rightarrow> ptr \<Rightarrow> ('q, 'm) mpi_st \<Rightarrow> ('q, 'm) mpi_st res" where
  "mpi_free_device E device s =
     bind_res (deref (devices s) device) (\<lambda>d.
     let (err, l) = (if dev_id d \<noteq> 0 then MPI_Comm_free E (comm d) (lib s) else (MPI_SUCCESS, lib s))
     in bind_res (MPI_SAFECALL err) (\<lambda>_.
     let (err, l) = (if LCW_MPI_USE_STREAM (build E) \<and> use_stream (config s)
                     then MPIX_Stream_free E (stream d) l else (MPI_SUCCESS, l))
     in bind_res (MPI_SAFECALL err) (\<lambda>_.
     if stream_lock d \<or> put_entry_lock d then Inl Undefined
     else release_manager E (comp_manager_p d)
            (s\<lparr>lib := l, devices := (devices s)(device := None),
               blocks := remove1 (put_rbuf_data d, nat (put_rbuf_size d)) (blocks s)\<rparr>))))"

section \<open>Progress\<close>

text \<open>
  A completed put: learn its length, tag and source, copy the data out of the receive buffer
  into fresh memory, and post the receive again.
\<close>

definition copy_out ::
  "('q, 'm) mpi_env \<Rightarrow> ptr \<Rightarrow> ('q, 'm) mpi_st \<Rightarrow> ('q, 'm) mpi_st res" where
  "copy_out E p s =
     bind_res (deref (heap s) p) (\<lambda>r.
     bind_res (lcw_assert (req_op r = PUT_SIGNAL) ''Unexpected op'') (\<lambda>_.
       let n = to_size (req_length r);
           buffer = allocate E (m_allocator s) n (blocks s)
       in bind_res (lcw_assert (buffer \<noteq> nullptr) ''Out of memory'') (\<lambda>_.
          Inr (s\<lparr>blocks := (buffer, nat n) # blocks s,
                 mem := memcpy buffer (req_buffer r) (nat n) (mem s),
                 heap := (heap s)(p \<mapsto> r\<lparr>req_buffer := buffer\<rparr>)\<rparr>))))"

definition put_completed ::
  "('q, 'm) mpi_env \<Rightarrow> entry_t \<Rightarrow> mpi_status \<Rightarrow> ('q, 'm) mpi_st \<Rightarrow> ('q, 'm) mpi_st res" where
  "put_completed E entry status s =
     bind_res (set_received E (ent_request entry) status s) (\<lambda>s.
     bind_res (copy_out E (ent_request entry) s) (\<lambda>s.
     bind_res (deref (heap s) (ent_request entry)) (\<lambda>r.
     post_put_recv E (req_device r) (completion entry) s)))"

definition unlock_put_entry :: "ptr \<Rightarrow> ('q, 'm) mpi_st \<Rightarrow> ('q, 'm) mpi_st res" where
  "unlock_put_entry device s =
     bind_res (deref (devices s) device) (\<lambda>d.
     bind_res (spin_unlock (put_entry_lock d)) (\<lambda>l.
     Inr (set_device device (d\<lparr>put_entry_lock := l\<rparr>) s)))"

definition progress_put ::
  "('q, 'm) mpi_env \<Rightarrow> ptr \<Rightarrow> mpi_device_t \<Rightarrow> ('q, 'm) mpi_st \<Rightarrow> (bool \<times> ('q, 'm) mpi_st) res" where
  "progress_put E device d s =
     (let (ok, lk) = spin_try_lock (put_entry_lock d)
      in if \<not> ok then Inr (False, s)
      else
        let s = set_device device (d\<lparr>put_entry_lock := lk\<rparr>) s
        in bind_res
             (if mpi_req (put_entry d) \<noteq> MPI_REQUEST_NULL then
                bind_res (enter_stream_cs E device s) (\<lambda>s.
                bind_res (mpi_test E (mpi_req (put_entry d)) s) (\<lambda>(succeed, status, r, s).
                bind_res (deref (devices s) device) (\<lambda>d.
                let entry = (put_entry d)\<lparr>mpi_req := r\<rparr>;
                    s = set_device device (d\<lparr>put_entry := entry\<rparr>) s
                in bind_res (leave_stream_cs E device s) (\<lambda>s.
                   if succeed
                   then bind_res (put_completed E entry status s) (\<lambda>s. Inr (True, entry, s))
                   else Inr (False, entry, s)))))
              else Inr (False, put_entry d, s))
             (\<lambda>(succeed, entry, s).
              bind_res (unlock_put_entry device s) (\<lambda>s.
              if succeed then bind_res (signal_comp E entry s) (\<lambda>s. Inr (True, s))
              else Inr (False, s))))"

definition mpi_do_progress ::
  "('q, 'm) mpi_env \<Rightarrow> ptr \<Rightarrow> ('q, 'm) mpi_st \<Rightarrow> (bool \<times> ('q, 'm) mpi_st) res" where
  "mpi_do_progress E device s =
     bind_res (deref (devices s) device) (\<lambda>d.
     bind_res (if enable_put d \<and> mpi_req (put_entry d) \<noteq> MPI_REQUEST_NULL
               then progress_put E device d s else Inr (False, s)) (\<lambda>(succeed, s).
     bind_res (deref (devices s) device) (\<lambda>d.
     bind_res (manager_do_progress E (comp_manager_p d) s) (\<lambda>(made, s).
     Inr (made \<or> succeed, s)))))"

section \<open>Communication\<close>

text \<open>The throttle at the head of \<^verbatim>\<open>send\<close> and \<^verbatim>\<open>put\<close>: \<open>None\<close> asks the caller to retry.\<close>

definition throttle :: "('q, 'm) mpi_st \<Rightarrow> ('q, 'm) mpi_st option" where
  "throttle s =
     (if g_pending_msg_max (config s) > 0 then
        if g_pending_msg s > g_pending_msg_max (config s) then None
        else Some (add_pending 1 s)
      else Some s)"

definition mpi_send ::
  "('q, 'm) mpi_env \<Rightarrow> ptr \<Rightarrow> int \<Rightarrow> int \<Rightarrow> ptr \<Rightarrow> int \<Rightarrow> ptr \<Rightarrow> ptr \<Rightarrow> ('q, 'm) mpi_st \<Rightarrow>
   (bool \<times> ('q, 'm) mpi_st) res" where
  "mpi_send E device rank tag buf len cmp user_context s =
     (case throttle s of
        None \<Rightarrow> Inr (False, s)
      | Some s \<Rightarrow>
          let (p, s) = new_request
                \<lparr>req_op = SEND, req_device = device, req_rank = rank, req_tag = tag,
                 req_buffer = buf, req_length = len, req_user_context = user_context\<rparr> s;
              entry = \<lparr>mpi_req = MPI_REQUEST_NULL, ent_device = device, completion = cmp, ent_request = p\<rparr>
          in bind_res (deref (devices s) device) (\<lambda>d.
             bind_res (enter_stream_cs E device s) (\<lambda>s.
             bind_res (isend E buf (to_size len) (to_int rank) (to_int tag) (comm d) s) (\<lambda>(r, s).
             bind_res (leave_stream_cs E device s) (\<lambda>s.
             bind_res (manager_add_entry E (comp_manager_p d) (entry\<lparr>mpi_req := r\<rparr>) s) (\<lambda>s.
             Inr (True, s)))))))"

definition mpi_recv ::
  "('q, 'm) mpi_env \<Rightarrow> ptr \<Rightarrow> int \<Rightarrow> int \<Rightarrow> ptr \<Rightarrow> int \<Rightarrow> ptr \<Rightarrow> ptr \<Rightarrow> ('q, 'm) mpi_st \<Rightarrow>
   (bool \<times> ('q, 'm) mpi_st) res" where
  "mpi_recv E device rank tag buf len cmp user_context s =
     (let (p, s) = new_request
            \<lparr>req_op = RECV, req_device = device, req_rank = rank, req_tag = tag,
             req_buffer = buf, req_length = len, req_user_context = user_context\<rparr> s;
          entry = \<lparr>mpi_req = MPI_REQUEST_NULL, ent_device = device, completion = cmp, ent_request = p\<rparr>
      in bind_res (deref (devices s) device) (\<lambda>d.
         bind_res (enter_stream_cs E device s) (\<lambda>s.
         bind_res (irecv E buf (to_size len) (to_int rank) (to_int tag) (comm d) s) (\<lambda>(r, s).
         bind_res (leave_stream_cs E device s) (\<lambda>s.
         bind_res (manager_add_entry E (comp_manager_p d) (entry\<lparr>mpi_req := r\<rparr>) s) (\<lambda>s.
         Inr (True, s)))))))"

definition mpi_put ::
  "('q, 'm) mpi_env \<Rightarrow> ptr \<Rightarrow> int \<Rightarrow> ptr \<Rightarrow> int \<Rightarrow> ptr \<Rightarrow> ptr \<Rightarrow> ('q, 'm) mpi_st \<Rightarrow>
   (bool \<times> ('q, 'm) mpi_st) res" where
  "mpi_put E device rank buf len cmp user_context s =
     bind_res (deref (devices s) device) (\<lambda>d.
     bind_res (lcw_assert (enable_put d) ''Put is not enabled!'') (\<lambda>_.
     case throttle s of
        None \<Rightarrow> Inr (False, s)
      | Some s \<Rightarrow>
          let (p, s) = new_request
                \<lparr>req_op = PUT, req_device = device, req_rank = rank, req_tag = put_tag d,
                 req_buffer = buf, req_length = len, req_user_context = user_context\<rparr> s;
              entry = \<lparr>mpi_req = MPI_REQUEST_NULL, ent_device = device, completion = cmp, ent_request = p\<rparr>
          in bind_res (enter_stream_cs E device s) (\<lambda>s.
             bind_res (isend E buf (to_size len) (to_int rank) (to_int (put_tag d)) (comm d) s) (\<lambda>(r, s).
             bind_res (leave_stream_cs E device s) (\<lambda>s.
             bind_res (manager_add_entry E (comp_manager_p d) (entry\<lparr>mpi_req := r\<rparr>) s) (\<lambda>s.
             Inr (True, s)))))))"

definition mpi_get_max_tag :: "ptr \<Rightarrow> ('q, 'm) mpi_st \<Rightarrow> int res" where
  "mpi_get_max_tag device s = bind_res (deref (devices s) device) (\<lambda>d. Inr (max_tag_2sided d))"

definition mpi_barrier :: "('q, 'm) mpi_env \<Rightarrow> ptr \<Rightarrow> ('q, 'm) mpi_st \<Rightarrow> ('q, 'm) mpi_st res" where
  "mpi_barrier E device s =
     bind_res (deref (devices s) device) (\<lambda>d.
       let (err, l) = MPI_Barrier E (comm d) (lib s)
       in bind_res (MPI_SAFECALL err) (\<lambda>_. Inr (s\<lparr>lib := l\<rparr>)))"

definition mpi_alloc_cq :: "('q, 'm) mpi_env \<Rightarrow> ('q, 'm) mpi_st \<Rightarrow> ptr \<times> ('q, 'm) mpi_st" where
  "mpi_alloc_cq E s = util_alloc_cq E (default_cq_length (config s)) s"

end
