(* ===== verification/LCW_Mpi_Inv.thy ===== *)
theory LCW_Mpi_Inv
  imports LCW_Mpi_Backend
begin

text \<open>
  The invariant of the MPI backend and its preservation by every operation. Every
  \<^verbatim>\<open>request_t\<close> on the heap has exactly one owner: the posted put receive of a device, the queue
  of a \<^verbatim>\<open>manager_req_t\<close>, an entry handed to an MPI continuation, a completion queue, or the
  operation that is running (\<open>hand\<close>). The counter of pending messages is the number of sends
  and puts that are owned and not yet signalled, and it never exceeds the configured maximum
  by more than one.
\<close>

section \<open>Owners and accounting\<close>

datatype owner = Own_put ptr | Own_man ptr | Own_cont ptr | Own_cq ptr | Own_hand

fun cq_owner :: "owner \<Rightarrow> bool" where
  "cq_owner (Own_cq c) = True"
| "cq_owner w = False"

text \<open>Which requests an owner may hold.\<close>

fun req_ok :: "owner \<Rightarrow> request_t \<Rightarrow> bool" where
  "req_ok (Own_put d) r = (req_op r = PUT_SIGNAL \<and> req_device r = d)"
| "req_ok (Own_man m) r = (req_op r \<noteq> PUT_SIGNAL)"
| "req_ok (Own_cont p) r = (req_op r \<noteq> PUT_SIGNAL)"
| "req_ok w r = True"

lemma req_ok_cong: "req_op r' = req_op r \<Longrightarrow> req_device r' = req_device r \<Longrightarrow> req_ok i r' = req_ok i r"
  by (cases i) simp_all

definition throttled :: "op_t \<Rightarrow> bool" where
  "throttled k \<longleftrightarrow> k = SEND \<or> k = PUT"

definition pend :: "(owner \<Rightarrow> ptr list) \<Rightarrow> (ptr \<rightharpoonup> request_t) \<Rightarrow> ptr set" where
  "pend w h = {p. (\<exists>i. \<not> cq_owner i \<and> p \<in> set (w i)) \<and> (\<exists>r. h p = Some r \<and> throttled (req_op r))}"

text \<open>
  The counter is ahead of the owned sends and puts by \<open>ah\<close>, the messages that threads have counted and
  not yet allocated, and exceeds the maximum by at most \<open>rm\<close>.
\<close>

definition acct :: "int \<Rightarrow> int \<Rightarrow> (owner \<Rightarrow> ptr list) \<Rightarrow> (ptr \<rightharpoonup> request_t) \<Rightarrow> int \<Rightarrow> int \<Rightarrow> bool" where
  "acct ah rm w h g mx \<longleftrightarrow>
     partitioned w (dom h) \<and> finite (dom h) \<and>
     (\<forall>i p r. p \<in> set (w i) \<longrightarrow> h p = Some r \<longrightarrow> req_ok i r) \<and>
     (mx > 0 \<longrightarrow> 0 \<le> ah \<and> mx + rm \<le> int_max \<and> g = int (card (pend w h)) + ah \<and> g \<le> mx + rm)"

lemma acctD:
  assumes "acct ah rm w h g mx"
  shows "partitioned w (dom h)" "finite (dom h)"
    "p \<in> set (w i) \<Longrightarrow> h p = Some r \<Longrightarrow> req_ok i r"
    "mx > 0 \<Longrightarrow> mx + rm \<le> int_max" "mx > 0 \<Longrightarrow> g = int (card (pend w h)) + ah" "mx > 0 \<Longrightarrow> g \<le> mx + rm"
    "mx > 0 \<Longrightarrow> 0 \<le> ah"
  using assms by (auto simp: acct_def)

lemma acct_live: "acct ah rm w h g mx \<Longrightarrow> p \<in> set (w i) \<Longrightarrow> \<exists>r. h p = Some r"
  using partitioned_mem [OF acctD(1)] by fastforce

lemma pend_finite: "acct ah rm w h g mx \<Longrightarrow> finite (pend w h)"
  by (rule finite_subset [of _ "dom h"]) (auto simp: pend_def dest: acctD(2))

lemma acct_alloc:
  assumes A: "acct ah rm w h g mx" and new: "h p = None" and xs: "mset xs = add_mset p (mset (w i))"
    and ok: "req_ok i r"
    and g': "mx > 0 \<Longrightarrow> g' = g + (if \<not> cq_owner i \<and> throttled (req_op r) then 1 else 0)"
    and mx: "mx > 0 \<Longrightarrow> g' \<le> mx + rm"
  shows "acct ah rm (w(i := xs)) (h(p \<mapsto> r)) g' mx"
proof -
  note D = acctD [OF A]
  have fresh: "p \<notin> set (w j)" for j using D(1) new by (auto dest: partitioned_mem)
  have sxs: "set xs = insert p (set (w i))" using xs by (rule mset_eq_add_set)
  have part: "partitioned (w(i := xs)) (dom (h(p \<mapsto> r)))"
    using partitioned_alloc [OF D(1) _ xs] new by (simp add: domIff)
  have ops: "req_ok j q" if "x \<in> set ((w(i := xs)) j)" "(h(p \<mapsto> r)) x = Some q" for j x q
    using that D(3) ok sxs fresh by (auto split: if_splits)
  have pe: "pend (w(i := xs)) (h(p \<mapsto> r)) =
      (if \<not> cq_owner i \<and> throttled (req_op r) then insert p (pend w h) else pend w h)"
  proof (rule set_eqI)
    fix x
    have own: "(\<exists>j. \<not> cq_owner j \<and> x \<in> set ((w(i := xs)) j)) \<longleftrightarrow>
        (\<exists>j. \<not> cq_owner j \<and> x \<in> set (w j)) \<or> x = p \<and> \<not> cq_owner i"
      using sxs by (metis fun_upd_other fun_upd_same insert_iff)
    show "x \<in> pend (w(i := xs)) (h(p \<mapsto> r)) \<longleftrightarrow>
        x \<in> (if \<not> cq_owner i \<and> throttled (req_op r) then insert p (pend w h) else pend w h)"
      unfolding pend_def if_split [of "\<lambda>A. x \<in> A"] mem_Collect_eq own insert_iff
      using fresh by (cases "x = p") auto
  qed
  have "p \<notin> pend w h" using fresh by (auto simp: pend_def)
  then have card: "int (card (pend (w(i := xs)) (h(p \<mapsto> r)))) =
      int (card (pend w h)) + (if \<not> cq_owner i \<and> throttled (req_op r) then 1 else 0)"
    unfolding pe using pend_finite [OF A] by simp
  show ?thesis unfolding acct_def
    using part D ops card g' mx by auto
qed

lemma acct_free:
  assumes A: "acct ah rm w h g mx" and xs: "mset (w i) = add_mset p (mset xs)" and r: "h p = Some r"
    and g': "mx > 0 \<Longrightarrow> g' = g - (if \<not> cq_owner i \<and> throttled (req_op r) then 1 else 0)"
  shows "acct ah rm (w(i := xs)) (h(p := None)) g' mx"
proof -
  note D = acctD [OF A]
  have so: "set (w i) = insert p (set xs)" using xs by (rule mset_eq_add_set)
  have part: "partitioned (w(i := xs)) (dom (h(p := None)))"
    using partitioned_free [OF D(1) xs] by simp
  have ops: "req_ok j q" if "x \<in> set ((w(i := xs)) j)" "(h(p := None)) x = Some q" for j x q
    using that D(3) so by (auto split: if_splits)
  have only: "j = i" if "p \<in> set (w j)" for j
    using partitioned_owner_unique [OF D(1) that, of i] so by simp
  have "pend (w(i := xs)) (h(p := None)) \<subseteq> pend w h - {p}"
    using so by (auto simp: pend_def split: if_splits)
  moreover have "pend w h - {p} \<subseteq> pend (w(i := xs)) (h(p := None))"
  proof
    fix x assume x: "x \<in> pend w h - {p}"
    then obtain j where j: "\<not> cq_owner j" "x \<in> set (w j)" by (auto simp: pend_def)
    have "x \<in> set ((w(i := xs)) j)" using j x so by (cases "j = i") auto
    then show "x \<in> pend (w(i := xs)) (h(p := None))" using j x by (auto simp: pend_def)
  qed
  ultimately have pe: "pend (w(i := xs)) (h(p := None)) = pend w h - {p}" by blast
  have mem: "p \<in> pend w h \<longleftrightarrow> \<not> cq_owner i \<and> throttled (req_op r)"
    using only so r by (auto simp: pend_def)
  have card: "int (card (pend w h - {p})) =
      int (card (pend w h)) - (if \<not> cq_owner i \<and> throttled (req_op r) then 1 else 0)"
  proof (cases "p \<in> pend w h")
    case True
    then have "card (pend w h) = Suc (card (pend w h - {p}))"
      using pend_finite [OF A] by (intro card.remove)
    with True show ?thesis using mem by simp
  next
    case False
    then show ?thesis using mem by simp
  qed
  show ?thesis unfolding acct_def pe card
    using part D ops g' by auto
qed

lemma acct_move:
  assumes A: "acct ah rm w h g mx" and ij: "i \<noteq> j" "\<not> cq_owner i" "\<not> cq_owner j"
    and xs: "mset (w i) = add_mset p (mset xs)" and ys: "mset ys = add_mset p (mset (w j))"
    and ok: "\<And>r. h p = Some r \<Longrightarrow> req_ok j r"
  shows "acct ah rm (w(i := xs, j := ys)) h g mx"
proof -
  note D = acctD [OF A]
  have so: "set (w i) = insert p (set xs)" using xs by (rule mset_eq_add_set)
  have sy: "set ys = insert p (set (w j))" using ys by (rule mset_eq_add_set)
  have live: "p \<in> dom h" using so by (intro partitioned_mem [OF D(1), of p i]) simp
  have "partitioned ((w(i := xs))(j := ys)) (insert p (dom h - {p}))"
    using ys ij by (intro partitioned_alloc partitioned_free [OF D(1) xs]) auto
  then have part: "partitioned (w(i := xs, j := ys)) (dom h)"
    using live by (simp add: insert_absorb)
  have ops: "req_ok k q" if "x \<in> set ((w(i := xs, j := ys)) k)" "h x = Some q" for k x q
    using that D(3) so sy ok by (auto split: if_splits)
  have pe: "pend (w(i := xs, j := ys)) h = pend w h"
  proof -
    have "(\<exists>k. \<not> cq_owner k \<and> x \<in> set ((w(i := xs, j := ys)) k)) \<longleftrightarrow> (\<exists>k. \<not> cq_owner k \<and> x \<in> set (w k))" for x
    proof
      assume "\<exists>k. \<not> cq_owner k \<and> x \<in> set ((w(i := xs, j := ys)) k)"
      then show "\<exists>k. \<not> cq_owner k \<and> x \<in> set (w k)" using so sy ij by (auto split: if_splits)
    next
      assume "\<exists>k. \<not> cq_owner k \<and> x \<in> set (w k)"
      then obtain k where k: "\<not> cq_owner k" "x \<in> set (w k)" by blast
      show "\<exists>k. \<not> cq_owner k \<and> x \<in> set ((w(i := xs, j := ys)) k)"
      proof (cases "x = p")
        case True
        then show ?thesis using sy ij by (intro exI [of _ j]) simp
      next
        case False
        then have "x \<in> set ((w(i := xs, j := ys)) k)"
          using k so sy by (cases "k = i"; cases "k = j") auto
        then show ?thesis using k by blast
      qed
    qed
    then show ?thesis by (simp add: pend_def)
  qed
  show ?thesis unfolding acct_def pe using part D ops by auto
qed

lemma acct_update:
  assumes A: "acct ah rm w h g mx" and r: "h p = Some r" "req_op r' = req_op r" "req_device r' = req_device r"
  shows "acct ah rm w (h(p \<mapsto> r')) g mx"
proof -
  note D = acctD [OF A]
  have "dom (h(p \<mapsto> r')) = dom h" using r by auto
  moreover have "pend w (h(p \<mapsto> r')) = pend w h" using r by (auto simp: pend_def)
  moreover have "req_ok i q" if "x \<in> set (w i)" "(h(p \<mapsto> r')) x = Some q" for i x q
    using that D(3) [of x i] r req_ok_cong [OF r(2,3)] by (auto split: if_splits)
  ultimately show ?thesis unfolding acct_def using D by auto
qed

lemma acct_permute:
  assumes A: "acct ah rm w h g mx" and xs: "mset xs = mset (w i)"
  shows "acct ah rm (w(i := xs)) h g mx"
proof -
  note D = acctD [OF A]
  have s: "set ((w(i := xs)) j) = set (w j)" for j using xs by (auto dest: mset_eq_setD)
  have "pend (w(i := xs)) h = pend w h" by (simp only: pend_def s)
  then show ?thesis unfolding acct_def
    using D partitioned_permute [OF D(1) xs] s by auto
qed

section \<open>The invariant\<close>

definition man_ids :: "manager_t \<Rightarrow> ptr list" where
  "man_ids m = (case m of Man_req x \<Rightarrow> map ent_request (entries x) | Man_cont _ \<Rightarrow> [])"

fun mpi_owns :: "('q \<Rightarrow> ptr list) \<Rightarrow> ptr list \<Rightarrow> ('q, 'm) mpi_st \<Rightarrow> owner \<Rightarrow> ptr list" where
  "mpi_owns view hand s (Own_put d) =
     (case map_option (\<lambda>dv. ent_request (put_entry dv)) (devices s d) of
        None \<Rightarrow> [] | Some p \<Rightarrow> if p = nullptr then [] else [p])"
| "mpi_owns view hand s (Own_man m) =
     (case map_option man_ids (managers s m) of None \<Rightarrow> [] | Some ps \<Rightarrow> ps)"
| "mpi_owns view hand s (Own_cont c) =
     (case map_option ent_request (centries s c) of None \<Rightarrow> [] | Some p \<Rightarrow> [p])"
| "mpi_owns view hand s (Own_cq c) = cq_ids view c s"
| "mpi_owns view hand s Own_hand = hand"

definition mpi_fresh :: "('q, 'm) mpi_st \<Rightarrow> bool" where
  "mpi_fresh s \<longleftrightarrow> fresh_ok s \<and>
     (\<forall>p. next_obj s \<le> p \<longrightarrow> devices s p = None \<and> managers s p = None \<and> centries s p = None)"

definition mpi_inv_by ::
  "int \<Rightarrow> int \<Rightarrow> ('q, 'm) mpi_env \<Rightarrow> ('q \<Rightarrow> ptr list) \<Rightarrow> ptr list \<Rightarrow> ('q, 'm) mpi_st \<Rightarrow> bool" where
  "mpi_inv_by ah rm E view hand s \<longleftrightarrow>
     lct_queue_fifo E view \<and> mpi_fresh s \<and>
     acct ah rm (mpi_owns view hand s) (heap s) (g_pending_msg s) (g_pending_msg_max (config s))"

text \<open>Between calls of a single thread nothing is announced, and one message beyond the maximum fits.\<close>

abbreviation mpi_inv ::
  "('q, 'm) mpi_env \<Rightarrow> ('q \<Rightarrow> ptr list) \<Rightarrow> ptr list \<Rightarrow> ('q, 'm) mpi_st \<Rightarrow> bool" where
  "mpi_inv \<equiv> mpi_inv_by 0 1"

lemma mpi_invD:
  assumes "mpi_inv_by ah rm E view hand s"
  shows "lct_queue_fifo E view" "mpi_fresh s" "fresh_ok s"
    "acct ah rm (mpi_owns view hand s) (heap s) (g_pending_msg s) (g_pending_msg_max (config s))"
  using assms by (auto simp: mpi_inv_by_def mpi_fresh_def)

text \<open>What the invariant depends on; everything else an operation may change freely.\<close>

definition core where
  "core s = (heap s, comps s, next_obj s, g_pending_msg s, g_pending_msg_max (config s),
     (\<lambda>d. map_option (\<lambda>dv. ent_request (put_entry dv)) (devices s d)),
     (\<lambda>m. map_option man_ids (managers s m)), (\<lambda>c. map_option ent_request (centries s c)))"

lemma coreD:
  assumes "core s' = core s"
  shows "heap s' = heap s" "comps s' = comps s" "next_obj s' = next_obj s"
    "g_pending_msg s' = g_pending_msg s"
    "g_pending_msg_max (config s') = g_pending_msg_max (config s)"
    "map_option (\<lambda>dv. ent_request (put_entry dv)) (devices s' d) =
     map_option (\<lambda>dv. ent_request (put_entry dv)) (devices s d)"
    "map_option man_ids (managers s' m) = map_option man_ids (managers s m)"
    "map_option ent_request (centries s' c) = map_option ent_request (centries s c)"
  using assms by (auto simp: core_def dest: fun_cong)

lemma core_owns: "core s' = core s \<Longrightarrow> mpi_owns view hand s' = mpi_owns view hand s"
proof (rule ext)
  fix i assume c: "core s' = core s"
  show "mpi_owns view hand s' i = mpi_owns view hand s i"
    by (cases i) (simp_all only: mpi_owns.simps coreD [OF c] cq_ids_def)
qed

lemma core_fresh:
  assumes c: "core s' = core s"
  shows "mpi_fresh s' \<longleftrightarrow> mpi_fresh s"
proof -
  have "devices s' p = None \<longleftrightarrow> devices s p = None" "managers s' p = None \<longleftrightarrow> managers s p = None"
    "centries s' p = None \<longleftrightarrow> centries s p = None" for p
    using coreD(6-8) [OF c, of p] by (metis map_option_is_None)+
  then show ?thesis by (simp add: mpi_fresh_def fresh_ok_def coreD(1-3) [OF c])
qed

lemma mpi_inv_core: "core s' = core s \<Longrightarrow> mpi_inv_by ah rm E view hand s' \<longleftrightarrow> mpi_inv_by ah rm E view hand s"
  unfolding mpi_inv_by_def by (simp only: core_owns [of s' s] core_fresh [of s' s] coreD(1,4,5) [of s' s])

subsection \<open>How the primitive steps change the owners\<close>

lemma owns_hand: "mpi_owns view hand' s = (mpi_owns view hand s)(Own_hand := hand')"
proof (rule ext)
  fix i show "mpi_owns view hand' s i = ((mpi_owns view hand s)(Own_hand := hand')) i" by (cases i) auto
qed

lemma mpi_inv_hand:
  assumes "mpi_inv_by ah rm E view hand s" and "mset hand' = mset hand"
  shows "mpi_inv_by ah rm E view hand' s"
  unfolding mpi_inv_by_def owns_hand [of view hand' s hand]
  using mpi_invD [OF assms(1)] assms(2) by (auto intro: acct_permute)

lemma owns_manager:
  assumes "managers s' = (managers s)(m \<mapsto> x)" "devices s' = devices s" "centries s' = centries s"
    "comps s' = comps s"
  shows "mpi_owns view hand s' = (mpi_owns view hand s)(Own_man m := man_ids x)"
proof (rule ext)
  fix i show "mpi_owns view hand s' i = ((mpi_owns view hand s)(Own_man m := man_ids x)) i"
    using assms by (cases i) (auto simp: cq_ids_def)
qed

lemma owns_device:
  assumes "devices s' = (devices s)(d \<mapsto> dv)" "managers s' = managers s" "centries s' = centries s"
    "comps s' = comps s" "ent_request (put_entry dv) = p"
  shows "mpi_owns view hand s' = (mpi_owns view hand s)(Own_put d := (if p = nullptr then [] else [p]))"
proof (rule ext)
  fix i show "mpi_owns view hand s' i = ((mpi_owns view hand s)(Own_put d := (if p = nullptr then [] else [p]))) i"
    using assms by (cases i) (auto simp: cq_ids_def)
qed

lemma owns_centry:
  assumes "centries s' = (centries s)(c := e)" "managers s' = managers s" "devices s' = devices s"
    "comps s' = comps s"
  shows "mpi_owns view hand s' = (mpi_owns view hand s)
    (Own_cont c := (case e of None \<Rightarrow> [] | Some x \<Rightarrow> [ent_request x]))"
proof (rule ext)
  fix i show "mpi_owns view hand s' i = ((mpi_owns view hand s)
      (Own_cont c := (case e of None \<Rightarrow> [] | Some x \<Rightarrow> [ent_request x]))) i"
    using assms by (cases i) (auto simp: cq_ids_def split: option.splits)
qed

lemma owns_comp:
  assumes "comps s' = (comps s)(c := x)" "managers s' = managers s" "devices s' = devices s"
    "centries s' = centries s"
  shows "mpi_owns view hand s' = (mpi_owns view hand s)
    (Own_cq c := (case x of Some (Comp_cq q) \<Rightarrow> view q | _ \<Rightarrow> []))"
proof (rule ext)
  fix i show "mpi_owns view hand s' i = ((mpi_owns view hand s)
      (Own_cq c := (case x of Some (Comp_cq q) \<Rightarrow> view q | _ \<Rightarrow> []))) i"
    using assms by (cases i) (auto simp: cq_ids_def)
qed

lemma owns_same:
  "comps s' = comps s \<Longrightarrow> managers s' = managers s \<Longrightarrow> devices s' = devices s \<Longrightarrow>
   centries s' = centries s \<Longrightarrow> mpi_owns view hand s' = mpi_owns view hand s"
proof (rule ext)
  fix i
  assume "comps s' = comps s" "managers s' = managers s" "devices s' = devices s" "centries s' = centries s"
  then show "mpi_owns view hand s' i = mpi_owns view hand s i" by (cases i) (simp_all add: cq_ids_def)
qed

section \<open>Preservation by the primitive steps\<close>

lemma mpi_inv_next [simp]: "mpi_inv_by ah rm E view hand s \<Longrightarrow> heap s (next_obj s) = None"
  by (auto dest: mpi_invD(3))

lemma mpi_inv_live: "mpi_inv_by ah rm E view hand s \<Longrightarrow> p \<in> set hand \<Longrightarrow> \<exists>r. heap s p = Some r"
  using acct_live [OF mpi_invD(4), of ah rm E view hand s p Own_hand] by simp

lemma mpi_inv_hand_lt: "mpi_inv_by ah rm E view hand s \<Longrightarrow> p \<in> set hand \<Longrightarrow> p < next_obj s"
  using mpi_inv_live [of ah rm E view hand s p] mpi_invD(3) [of ah rm E view hand s] by (auto simp: fresh_ok_def)

lemma new_request_fields [simp]:
  "fst (new_request r s) = next_obj s"
  "heap (snd (new_request r s)) = (heap s)(next_obj s \<mapsto> r)"
  "comps (snd (new_request r s)) = comps s" "next_obj (snd (new_request r s)) = Suc (next_obj s)"
  "mem (snd (new_request r s)) = mem s" "blocks (snd (new_request r s)) = blocks s"
  "trace (snd (new_request r s)) = trace s"
  "lib (snd (new_request r s)) = lib s" "config (snd (new_request r s)) = config s"
  "g_pending_msg (snd (new_request r s)) = g_pending_msg s"
  "devices (snd (new_request r s)) = devices s" "managers (snd (new_request r s)) = managers s"
  "centries (snd (new_request r s)) = centries s" "mgr_refs (snd (new_request r s)) = mgr_refs s"
  "g_comp_managers (snd (new_request r s)) = g_comp_managers s"
  "m_allocator (snd (new_request r s)) = m_allocator s"
  by (simp_all add: new_request_def)

lemma fresh_new_request: "mpi_fresh s \<Longrightarrow> mpi_fresh (snd (new_request r s))"
  by (fastforce simp: mpi_fresh_def fresh_ok_def less_Suc_eq)

lemma inv_new_request_gen:
  assumes I: "mpi_inv_by ah rm E view hand s"
    and s1: "s1 = s\<lparr>g_pending_msg := g\<rparr>"
    and g: "g_pending_msg_max (config s) > 0 \<Longrightarrow>
        g = g_pending_msg s + (if throttled (req_op r) then 1 else 0) \<and> g \<le> g_pending_msg_max (config s) + rm"
  shows "mpi_inv_by ah rm E view (next_obj s # hand) (snd (new_request r s1))"
proof -
  note D = mpi_invD [OF I]
  let ?s' = "snd (new_request r s1)"
  have w: "mpi_owns view (next_obj s # hand) ?s' = (mpi_owns view hand s)(Own_hand := next_obj s # hand)"
    using owns_same [of ?s' s view "next_obj s # hand"] owns_hand [of view "next_obj s # hand" s hand] s1
    by simp
  have "mpi_fresh s1" using D(2) s1 by (simp add: mpi_fresh_def fresh_ok_def)
  then have "mpi_fresh ?s'" by (rule fresh_new_request)
  moreover have "acct ah rm ((mpi_owns view hand s)(Own_hand := next_obj s # hand)) ((heap s)(next_obj s \<mapsto> r)) g
      (g_pending_msg_max (config s))"
    using I g by (intro acct_alloc [OF D(4)]) auto
  ultimately show ?thesis using D(1) unfolding mpi_inv_by_def w by (simp add: s1)
qed

lemma inv_new_request:
  assumes "mpi_inv_by ah rm E view hand s" and "\<not> throttled (req_op r)"
  shows "mpi_inv_by ah rm E view (next_obj s # hand) (snd (new_request r s))"
proof (rule inv_new_request_gen [OF assms(1)])
  show "s = s\<lparr>g_pending_msg := g_pending_msg s\<rparr>" by simp
qed (use assms acctD(6) [OF mpi_invD(4) [OF assms(1)]] in auto)

lemma inv_new_request_throttled:
  assumes I: "mpi_inv_by ah rm E view hand s" and rm: "1 \<le> rm" and t: "throttle s = Some s1" and op: "throttled (req_op r)"
  shows "mpi_inv_by ah rm E view (next_obj s # hand) (snd (new_request r s1))"
proof (cases "g_pending_msg_max (config s) > 0")
  case True
  note D = acctD [OF mpi_invD(4) [OF I]]
  have le: "g_pending_msg s \<le> g_pending_msg_max (config s)"
    and s1: "s1 = s\<lparr>g_pending_msg := to_int (g_pending_msg s + 1)\<rparr>"
    using t True by (auto simp: throttle_def add_pending_def split: if_splits)
  have "to_int (g_pending_msg s + 1) = g_pending_msg s + 1"
    using le D(4,5,7) rm True by (intro to_int_id) (simp add: is_int_def int_max_def)
  then show ?thesis using inv_new_request_gen [OF I s1, of r] op le rm by simp
next
  case False
  then have "s1 = s" using t by (simp add: throttle_def)
  then show ?thesis using inv_new_request_gen [OF I, of s "g_pending_msg s" r] False by simp
qed

subsection \<open>Signalling a completion\<close>

lemma signal_account_fields [simp]:
  "heap (signal_account E op s) = heap s" "comps (signal_account E op s) = comps s"
  "next_obj (signal_account E op s) = next_obj s" "mem (signal_account E op s) = mem s"
  "blocks (signal_account E op s) = blocks s" "lib (signal_account E op s) = lib s"
  "config (signal_account E op s) = config s" "devices (signal_account E op s) = devices s"
  "managers (signal_account E op s) = managers s" "centries (signal_account E op s) = centries s"
  "mgr_refs (signal_account E op s) = mgr_refs s" "g_comp_managers (signal_account E op s) = g_comp_managers s"
  "m_allocator (signal_account E op s) = m_allocator s"
  "g_pending_msg (signal_account E op s) =
     (if throttled op \<and> g_pending_msg_max (config s) > 0 then to_int (g_pending_msg s - 1) else g_pending_msg s)"
  by (cases op; simp add: signal_account_def Let_def add_pending_def throttled_def pcounter_add_def log_event_def)+

text \<open>
  What a signal leaves behind: the request is gone, and a queue holds a fresh copy of it or the
  handler has been called with it.
\<close>

lemma signal_compE:
  assumes "signal_comp E e s = Inr s'"
  obtains r t h c n where "heap s (ent_request e) = Some r"
    "s' = (signal_account E (req_op r) s)\<lparr>trace := t, heap := h, comps := c, next_obj := n\<rparr>"
    "(\<exists>q. comps s (completion e) = Some (Comp_cq q) \<and>
          h = ((heap s)(next_obj s \<mapsto> r))(ent_request e := None) \<and>
          c = (comps s)(completion e \<mapsto> Comp_cq (LCT_queue_push E q (next_obj s))) \<and>
          n = Suc (next_obj s) \<and> t = trace (signal_account E (req_op r) s)) \<or>
     (\<exists>f. comps s (completion e) = Some (Comp_handler f) \<and>
          h = (heap s)(ent_request e := None) \<and> c = comps s \<and> n = next_obj s \<and>
          t = trace (signal_account E (req_op r) s) @ [Handler_call f r])"
proof -
  obtain r where r: "heap s (ent_request e) = Some r"
    using assms by (auto simp: signal_comp_def deref_eq_Inr elim!: bind_resE)
  define a where "a = signal_account E (req_op r) s"
  obtain cm where cm: "comps s (completion e) = Some cm"
    using assms r by (auto simp: signal_comp_def util_signal_comp_def deref_eq_Inr elim!: bind_resE)
  show thesis
  proof (cases cm)
    case (Comp_cq q)
    have "s' = a\<lparr>trace := trace a, heap := ((heap s)(next_obj s \<mapsto> r))(ent_request e := None),
        comps := (comps s)(completion e \<mapsto> Comp_cq (LCT_queue_push E q (next_obj s))), next_obj := Suc (next_obj s)\<rparr>"
      using assms r cm Comp_cq
      by (auto simp: signal_comp_def util_signal_comp_def comp_cq_signal_def new_request_def
          delete_request_def a_def intro!: rt.equality split: if_splits)
    then show thesis using that [OF r] cm Comp_cq unfolding a_def by blast
  next
    case (Comp_handler f)
    have "s' = a\<lparr>trace := trace a @ [Handler_call f r], heap := (heap s)(ent_request e := None),
        comps := comps s, next_obj := next_obj s\<rparr>"
      using assms r cm Comp_handler
      by (auto simp: signal_comp_def util_signal_comp_def comp_handler_signal_def log_event_def a_def
          intro!: rt.equality)
    then show thesis using that [OF r] cm Comp_handler unfolding a_def by blast
  qed
qed

lemma signal_comp_frame:
  assumes "signal_comp E e s = Inr s'"
  shows "mem s' = mem s" "blocks s' = blocks s" "lib s' = lib s" "config s' = config s"
    "devices s' = devices s" "managers s' = managers s" "centries s' = centries s"
    "mgr_refs s' = mgr_refs s" "g_comp_managers s' = g_comp_managers s" "m_allocator s' = m_allocator s"
  using assms by (auto elim!: signal_compE)

lemma signal_comp_heap:
  assumes "signal_comp E e s = Inr s'" and "p \<noteq> ent_request e" and "p < next_obj s"
  shows "heap s' p = heap s p"
  using assms by (auto elim!: signal_compE)

lemma inv_signal_comp:
  assumes I: "mpi_inv_by ah rm E view (ent_request e # hand) s" and sig: "signal_comp E e s = Inr s'"
  shows "mpi_inv_by ah rm E view hand s'"
proof -
  note D = mpi_invD [OF I] and A = acctD [OF mpi_invD(4) [OF I]]
  let ?p = "ent_request e" and ?w = "mpi_owns view (ent_request e # hand) s" and ?mx = "g_pending_msg_max (config s)"
  from sig show ?thesis
  proof (rule signal_compE)
    fix r t h c n
    assume r: "heap s ?p = Some r"
      and s': "s' = (signal_account E (req_op r) s)\<lparr>trace := t, heap := h, comps := c, next_obj := n\<rparr>"
      and out: "(\<exists>q. comps s (completion e) = Some (Comp_cq q) \<and>
          h = ((heap s)(next_obj s \<mapsto> r))(?p := None) \<and>
          c = (comps s)(completion e \<mapsto> Comp_cq (LCT_queue_push E q (next_obj s))) \<and>
          n = Suc (next_obj s) \<and> t = trace (signal_account E (req_op r) s)) \<or>
        (\<exists>f. comps s (completion e) = Some (Comp_handler f) \<and>
          h = (heap s)(?p := None) \<and> c = comps s \<and> n = next_obj s \<and>
          t = trace (signal_account E (req_op r) s) @ [Handler_call f r])"
    let ?g = "g_pending_msg (signal_account E (req_op r) s)"
    have pin: "?p \<in> pend ?w (heap s) \<longleftrightarrow> throttled (req_op r)"
      using r by (auto simp: pend_def intro: exI [of _ Own_hand])
    have g: "?g = g_pending_msg s - (if throttled (req_op r) then 1 else 0)" if "?mx > 0"
    proof (cases "throttled (req_op r)")
      case True
      then have "card (pend ?w (heap s)) \<noteq> 0" using pin pend_finite [OF D(4)] by auto
      then have "is_int (g_pending_msg s - 1)"
        using A(4-7) that by (auto simp: is_int_def int_max_def)
      then show ?thesis using True that by simp
    qed simp
    have a1: "acct ah rm (?w(Own_hand := hand)) ((heap s)(?p := None)) ?g ?mx"
      using g by (intro acct_free [OF D(4) _ r]) simp_all
    have w1: "mpi_owns view hand s = ?w(Own_hand := hand)" by (rule owns_hand)
    have mx: "g_pending_msg_max (config s') = ?mx" "g_pending_msg s' = ?g" using s' by simp_all
    show ?thesis using out
    proof (elim disjE exE conjE)
      fix q assume q: "comps s (completion e) = Some (Comp_cq q)"
        and h: "h = ((heap s)(next_obj s \<mapsto> r))(?p := None)"
        and c: "c = (comps s)(completion e \<mapsto> Comp_cq (LCT_queue_push E q (next_obj s)))"
        and n: "n = Suc (next_obj s)"
      have ne: "?p \<noteq> next_obj s" using r I by auto
      have v: "view (LCT_queue_push E q (next_obj s)) = view q @ [next_obj s]"
        using D(1,3) by (simp add: lct_queue_fifo_def)
      have "acct ah rm ((?w(Own_hand := hand))(Own_cq (completion e) := view q @ [next_obj s]))
          (((heap s)(?p := None))(next_obj s \<mapsto> r)) ?g ?mx"
        using I q ne a1 g acctD(6) [OF a1] by (intro acct_alloc [OF a1]) (auto simp: cq_ids_def)
      moreover have "mpi_owns view hand s' = (?w(Own_hand := hand))(Own_cq (completion e) := view q @ [next_obj s])"
        using owns_comp [of s' s "completion e" _ view hand] w1 v by (simp add: s' c)
      moreover have "mpi_fresh s'"
        using D(2) q by (fastforce simp: s' h c n mpi_fresh_def fresh_ok_def less_Suc_eq)
      ultimately show ?thesis using D(1) ne mx
        by (simp add: mpi_inv_by_def s' h fun_upd_twist)
    next
      fix f assume h: "h = (heap s)(?p := None)" and c: "c = comps s" and n: "n = next_obj s"
      have "mpi_owns view hand s' = ?w(Own_hand := hand)"
        using owns_same [of s' s view hand] w1 by (simp add: s' c)
      moreover have "mpi_fresh s'"
        using D(2) by (auto simp: s' h c n mpi_fresh_def fresh_ok_def)
      ultimately show ?thesis using D(1) a1 mx by (simp add: mpi_inv_by_def s' h)
    qed
  qed
qed

subsection \<open>MPI calls and their continuations\<close>

lemma complete_cb_frame:
  assumes "complete_cb E st u s = Inr s'"
  shows "mem s' = mem s" "blocks s' = blocks s" "lib s' = lib s" "config s' = config s"
    "devices s' = devices s" "managers s' = managers s" "mgr_refs s' = mgr_refs s"
    "g_comp_managers s' = g_comp_managers s" "m_allocator s' = m_allocator s"
  using assms by (auto simp: complete_cb_def dest: signal_comp_frame elim!: bind_resE)

text \<open>A callback moves the request of its entry into the hand, signals it and drops the entry.\<close>

lemma inv_complete_cb:
  assumes I: "mpi_inv_by ah rm E view hand s" and c: "complete_cb E st u s = Inr s'"
  shows "mpi_inv_by ah rm E view hand s'" "\<And>p. p \<in> set hand \<Longrightarrow> heap s' p = heap s p"
proof -
  obtain e s1 where e: "centries s u = Some e" and s1: "signal_comp E e s = Inr s1"
    and s': "s' = s1\<lparr>centries := (centries s1)(u := None)\<rparr>"
    using c by (auto simp: complete_cb_def deref_eq_Inr elim!: bind_resE)
  note D = mpi_invD [OF I]
  let ?s0 = "s\<lparr>centries := (centries s)(u := None)\<rparr>"
  have own: "mpi_owns view hand s (Own_cont u) = [ent_request e]" using e by simp
  have "acct ah rm ((mpi_owns view hand s)(Own_cont u := [], Own_hand := ent_request e # hand)) (heap s)
      (g_pending_msg s) (g_pending_msg_max (config s))"
    using own by (intro acct_move [OF D(4), where p = "ent_request e"]) auto
  moreover have "mpi_owns view (ent_request e # hand) ?s0 =
      (mpi_owns view hand s)(Own_cont u := [], Own_hand := ent_request e # hand)"
    using owns_centry [of ?s0 s u None view hand] owns_hand [of view "ent_request e # hand" ?s0 hand] by simp
  moreover have "mpi_fresh ?s0" using D(2) by (simp add: mpi_fresh_def fresh_ok_def)
  ultimately have I0: "mpi_inv_by ah rm E view (ent_request e # hand) ?s0" using D(1) by (simp add: mpi_inv_by_def)
  have "signal_comp E e ?s0 = Inr s'"
  proof -
    have acc: "signal_account E k ?s0 = (signal_account E k s)\<lparr>centries := (centries s)(u := None)\<rparr>" for k
      by (cases k) (simp_all add: signal_account_def Let_def pcounter_add_def log_event_def add_pending_def)
    show ?thesis using s1 unfolding s'
      by (auto simp: signal_comp_def deref_eq_Inr acc util_signal_comp_def comp_cq_signal_def
          comp_handler_signal_def log_event_def new_request_def delete_request_def
          split: comp_obj.splits option.splits if_splits elim!: bind_resE)
  qed
  then show "mpi_inv_by ah rm E view hand s'" by (rule inv_signal_comp [OF I0])
  show "heap s' p = heap s p" if "p \<in> set hand" for p
  proof -
    have "p \<noteq> ent_request e"
      using partitioned_owner_unique [OF acctD(1) [OF D(4)], of p "Own_cont u" Own_hand] e that by auto
    then show ?thesis using signal_comp_heap [OF s1] mpi_inv_hand_lt [OF I that] s' by simp
  qed
qed

lemma run_callbacks_frame:
  "run_callbacks E cbs s = Inr s' \<Longrightarrow>
   mem s' = mem s \<and> blocks s' = blocks s \<and> lib s' = lib s \<and> config s' = config s \<and>
   devices s' = devices s \<and> managers s' = managers s \<and> mgr_refs s' = mgr_refs s \<and>
   g_comp_managers s' = g_comp_managers s \<and> m_allocator s' = m_allocator s"
  by (induction E cbs s rule: run_callbacks.induct)
    (fastforce elim!: bind_resE dest: complete_cb_frame)+

lemma inv_run_callbacks:
  "mpi_inv_by ah rm E view hand s \<Longrightarrow> run_callbacks E cbs s = Inr s' \<Longrightarrow>
   mpi_inv_by ah rm E view hand s' \<and> (\<forall>p\<in>set hand. heap s' p = heap s p)"
proof (induction E cbs s rule: run_callbacks.induct)
  case (2 E st u cbs s)
  obtain s1 where s1: "complete_cb E st u s = Inr s1" "run_callbacks E cbs s1 = Inr s'"
    using "2.prems"(2) by (auto elim!: bind_resE)
  then show ?case
    using "2.IH" [OF s1(1)] inv_complete_cb [OF "2.prems"(1) s1(1)] by simp
qed simp

text \<open>An operation of MPI: it keeps the invariant, what the caller holds, devices and managers.\<close>

definition keeps :: "('q, 'm) mpi_env \<Rightarrow> ('q \<Rightarrow> ptr list) \<Rightarrow> ptr list \<Rightarrow> ('q, 'm) mpi_st \<Rightarrow> ('q, 'm) mpi_st \<Rightarrow> bool" where
  "keeps E view hand s s' \<longleftrightarrow>
     (\<forall>ah rm. mpi_inv_by ah rm E view hand s \<longrightarrow> mpi_inv_by ah rm E view hand s' \<and> (\<forall>p\<in>set hand. heap s' p = heap s p)) \<and>
     (\<forall>d. map_option put_entry (devices s' d) = map_option put_entry (devices s d)) \<and>
     (\<forall>d. map_option comp_manager_p (devices s' d) = map_option comp_manager_p (devices s d)) \<and>
     managers s' = managers s \<and> config s' = config s"

lemma keeps_refl [simp]: "keeps E view hand s s"
  by (simp add: keeps_def)

lemma keeps_trans: "keeps E view hand s s1 \<Longrightarrow> keeps E view hand s1 s2 \<Longrightarrow> keeps E view hand s s2"
  unfolding keeps_def by (metis (no_types, lifting))

lemma keeps_core:
  assumes "core s' = core s" and "managers s' = managers s" and "config s' = config s"
    and "\<And>d. map_option put_entry (devices s' d) = map_option put_entry (devices s d)"
    and "\<And>d. map_option comp_manager_p (devices s' d) = map_option comp_manager_p (devices s d)"
  shows "keeps E view hand s s'"
  using assms by (simp add: keeps_def mpi_inv_core [OF assms(1)] coreD(1) [OF assms(1)])

lemma core_same_devices:
  assumes "heap s' = heap s" "comps s' = comps s" "next_obj s' = next_obj s"
    "g_pending_msg s' = g_pending_msg s" "config s' = config s" "managers s' = managers s"
    "centries s' = centries s" and d: "\<And>d. map_option put_entry (devices s' d) = map_option put_entry (devices s d)"
  shows "core s' = core s"
proof -
  have "map_option (\<lambda>dv. ent_request (put_entry dv)) (devices s' d) =
      map_option (\<lambda>dv. ent_request (put_entry dv)) (devices s d)" for d
  proof -
    have "map_option ent_request (map_option put_entry (devices s' d)) =
        map_option ent_request (map_option put_entry (devices s d))" by (simp only: d)
    then show ?thesis by (simp add: option.map_comp comp_def)
  qed
  then show ?thesis using assms by (simp add: core_def)
qed

lemma keeps_stream:
  "enter_stream_cs E dv s = Inr s' \<Longrightarrow> keeps E view hand s s'"
  "leave_stream_cs E dv s = Inr s' \<Longrightarrow> keeps E view hand s s'"
  by (auto simp: enter_stream_cs_def leave_stream_cs_def set_device_def deref_eq_Inr split: if_splits
      elim!: bind_resE intro!: keeps_core core_same_devices)

lemma keeps_trace_lib: "keeps E view hand s (s\<lparr>trace := t, lib := l\<rparr>)"
  by (intro keeps_core core_same_devices) simp_all

lemma choose_type_state: "choose_type sz s = Inr (dt, n, s') \<Longrightarrow> \<exists>es. s' = s\<lparr>trace := trace s @ es\<rparr>"
  by (auto simp: choose_type_def type_contiguous_def Let_def log_event_def split: if_splits elim!: bind_resE)
    (metis append_Nil2 rt.surjective rt.update_convs(6))

lemma release_type_state: "\<exists>t. release_type dt s = s\<lparr>trace := t\<rparr>"
  by (auto simp: release_type_def log_event_def intro: exI [of _ "trace s"])

lemma isend_state:
  assumes "isend E a sz r g c s = Inr (q, s')"
  shows "\<exists>t l. s' = s\<lparr>trace := t, lib := l\<rparr>"
proof -
  obtain dt n s1 l where t: "choose_type sz s = Inr (dt, n, s1)" and s': "s' = release_type dt (s1\<lparr>lib := l\<rparr>)"
    using assms by (auto simp: isend_def split: prod.splits elim!: bind_resE)
  show ?thesis
  proof -
    obtain es t where s1: "s1 = s\<lparr>trace := es\<rparr>" and r: "release_type dt (s1\<lparr>lib := l\<rparr>) = s1\<lparr>lib := l, trace := t\<rparr>"
      using choose_type_state [OF t] release_type_state [of dt "s1\<lparr>lib := l\<rparr>"] by blast
    have "s' = s\<lparr>trace := t, lib := l\<rparr>" using s' s1 r by simp
    then show ?thesis by blast
  qed
qed

lemma irecv_state:
  assumes "irecv E a sz r g c s = Inr (q, s')"
  shows "\<exists>t l. s' = s\<lparr>trace := t, lib := l\<rparr>"
proof -
  obtain dt n s1 l where t: "choose_type sz s = Inr (dt, n, s1)" and s': "s' = release_type dt (s1\<lparr>lib := l\<rparr>)"
    using assms by (auto simp: irecv_def split: prod.splits elim!: bind_resE)
  show ?thesis
  proof -
    obtain es t where s1: "s1 = s\<lparr>trace := es\<rparr>" and r: "release_type dt (s1\<lparr>lib := l\<rparr>) = s1\<lparr>lib := l, trace := t\<rparr>"
      using choose_type_state [OF t] release_type_state [of dt "s1\<lparr>lib := l\<rparr>"] by blast
    have "s' = s\<lparr>trace := t, lib := l\<rparr>" using s' s1 r by simp
    then show ?thesis by blast
  qed
qed

lemma keeps_isend: "isend E a sz r g c s = Inr (q, s') \<Longrightarrow> keeps E view hand s s'"
  and keeps_irecv: "irecv E a sz r g c s = Inr (q, s') \<Longrightarrow> keeps E view hand s s'"
  using isend_state [of E a sz r g c s q s'] irecv_state [of E a sz r g c s q s']
  by (auto intro: keeps_trace_lib)

lemma keeps_mpi_test:
  assumes "mpi_test E r s = Inr (b, st, r', s')"
  shows "keeps E view hand s s'"
proof -
  let ?t = "MPI_Test E r (mem s) (lib s)"
  let ?s0 = "s\<lparr>mem := t_mem ?t, lib := t_lib ?t\<rparr>"
  have s': "run_callbacks E (t_callbacks ?t) ?s0 = Inr s'"
    using assms by (auto simp: mpi_test_def Let_def elim!: bind_resE)
  have "keeps E view hand s ?s0"
    by (intro keeps_core core_same_devices) simp_all
  moreover have "keeps E view hand ?s0 s'"
    using run_callbacks_frame [OF s'] inv_run_callbacks [OF _ s'] by (auto simp: keeps_def)
  ultimately show ?thesis by (rule keeps_trans)
qed

end
