(* ===== verification/LCW_Mpi_Safety.thy ===== *)
theory LCW_Mpi_Safety
  imports LCW_Mpi_Inv
begin

text \<open>
  Every operation of the completion managers and of the MPI backend keeps the invariant of the
  MPI state: which request each one creates, moves between owners or deletes on each of the ways
  it returns. The elimination rules name these ways once for all later proofs.
\<close>

section \<open>Completion managers\<close>

lemma inv_core: "mpi_inv_by ah rm E view hand s \<Longrightarrow> core s' = core s \<Longrightarrow> mpi_inv_by ah rm E view hand s'"
  by (rule mpi_inv_core [THEN iffD2])

lemma set_manager_fields [simp]:
  "heap (set_manager m x s) = heap s" "comps (set_manager m x s) = comps s"
  "next_obj (set_manager m x s) = next_obj s" "mem (set_manager m x s) = mem s"
  "blocks (set_manager m x s) = blocks s" "trace (set_manager m x s) = trace s"
  "lib (set_manager m x s) = lib s" "config (set_manager m x s) = config s"
  "g_pending_msg (set_manager m x s) = g_pending_msg s" "devices (set_manager m x s) = devices s"
  "managers (set_manager m x s) = (managers s)(m \<mapsto> x)" "centries (set_manager m x s) = centries s"
  "mgr_refs (set_manager m x s) = mgr_refs s" "g_comp_managers (set_manager m x s) = g_comp_managers s"
  "m_allocator (set_manager m x s) = m_allocator s"
  by (simp_all add: set_manager_def)

lemma core_set_manager:
  assumes "map_option man_ids (managers s m) = Some (man_ids x)"
  shows "core (set_manager m x s) = core s"
  using assms by (auto simp: core_def fun_eq_iff)

lemma fresh_set_manager: "mpi_fresh s \<Longrightarrow> managers s m = Some y \<Longrightarrow> mpi_fresh (set_manager m x s)"
  by (auto simp: mpi_fresh_def fresh_ok_def)

lemma inv_push_back:
  assumes I: "mpi_inv_by ah rm E view (ent_request e # hand) s" and m: "managers s m = Some (Man_req x)"
    and x': "entries x' = entries x @ [e]"
    and op: "\<And>r. heap s (ent_request e) = Some r \<Longrightarrow> req_op r \<noteq> PUT_SIGNAL"
  shows "mpi_inv_by ah rm E view hand (set_manager m (Man_req x') s)"
proof -
  note D = mpi_invD [OF I]
  let ?w = "mpi_owns view (ent_request e # hand) s" and ?s' = "set_manager m (Man_req x') s"
  have "acct ah rm (?w(Own_hand := hand, Own_man m := man_ids (Man_req x'))) (heap s) (g_pending_msg s)
      (g_pending_msg_max (config s))"
    using m x' op by (intro acct_move [OF D(4), where p = "ent_request e"]) (auto simp: man_ids_def)
  moreover have "mpi_owns view hand ?s' = ?w(Own_hand := hand, Own_man m := man_ids (Man_req x'))"
    using owns_manager [of ?s' s m _ view hand] owns_hand [of view hand s "ent_request e # hand"] by simp
  ultimately show ?thesis using D(1) fresh_set_manager [OF D(2) m] by (simp add: mpi_inv_by_def)
qed

lemma inv_pop_front:
  assumes I: "mpi_inv_by ah rm E view hand s" and m: "managers s m = Some (Man_req x)"
    and x': "entries x = e # entries x'"
  shows "mpi_inv_by ah rm E view (ent_request e # hand) (set_manager m (Man_req x') s)"
proof -
  note D = mpi_invD [OF I]
  let ?w = "mpi_owns view hand s" and ?s' = "set_manager m (Man_req x') s"
  have "acct ah rm (?w(Own_man m := man_ids (Man_req x'), Own_hand := ent_request e # hand)) (heap s) (g_pending_msg s)
      (g_pending_msg_max (config s))"
    using m x' by (intro acct_move [OF D(4), where p = "ent_request e"]) (auto simp: man_ids_def)
  moreover have "mpi_owns view (ent_request e # hand) ?s' =
      ?w(Own_man m := man_ids (Man_req x'), Own_hand := ent_request e # hand)"
    using owns_manager [of ?s' s m _ view hand] owns_hand [of view "ent_request e # hand" ?s' hand] by simp
  ultimately show ?thesis using D(1) fresh_set_manager [OF D(2) m] by (simp add: mpi_inv_by_def)
qed

lemma inv_front_op:
  assumes "mpi_inv_by ah rm E view hand s" and "managers s m = Some (Man_req x)" and "e \<in> set (entries x)"
    and "heap s (ent_request e) = Some r"
  shows "req_op r \<noteq> PUT_SIGNAL"
  using acctD(3) [OF mpi_invD(4) [OF assms(1)], of "ent_request e" "Own_man m" r] assms(2-)
  by (auto simp: man_ids_def)

lemma inv_update:
  assumes I: "mpi_inv_by ah rm E view hand s" and r: "heap s p = Some r" "req_op r' = req_op r" "req_device r' = req_device r"
  shows "mpi_inv_by ah rm E view hand (s\<lparr>blocks := b, mem := m, heap := (heap s)(p \<mapsto> r')\<rparr>)" (is "mpi_inv_by _ _ _ _ _ ?s'")
proof -
  note D = mpi_invD [OF I]
  have "mpi_owns view hand ?s' = mpi_owns view hand s" by (rule owns_same) simp_all
  moreover have "mpi_fresh ?s'" using D(2) r by (auto simp: mpi_fresh_def fresh_ok_def)
  ultimately show ?thesis using acct_update [OF D(4) r] D(1) by (simp add: mpi_inv_by_def)
qed

lemma set_receivedE:
  assumes "set_received E p st s = Inr s'"
  obtains r r' where "heap s p = Some r" "req_op r' = req_op r" "req_device r' = req_device r"
    "req_buffer r' = req_buffer r" "s' = s\<lparr>heap := (heap s)(p \<mapsto> r')\<rparr>"
proof -
  obtain r n where "heap s p = Some r"
    "s' = s\<lparr>heap := (heap s)(p \<mapsto> r\<lparr>req_length := n, req_tag := MPI_TAG st, req_rank := MPI_SOURCE st\<rparr>)\<rparr>"
    using assms by (auto simp: set_received_def deref_eq_Inr split: prod.splits elim!: bind_resE)
  then show thesis by (intro that) auto
qed

lemma inv_set_received:
  assumes "mpi_inv_by ah rm E view hand s" and "set_received E p st s = Inr s'"
  shows "mpi_inv_by ah rm E view hand s'"
  using assms(2)
proof (rule set_receivedE)
  fix r r' assume "heap s p = Some r" "req_op r' = req_op r" "req_device r' = req_device r" "s' = s\<lparr>heap := (heap s)(p \<mapsto> r')\<rparr>"
  then show ?thesis using inv_update [OF assms(1), of p r r' "mem s" "blocks s"] by simp
qed

lemma keeps_manager_req_test:
  assumes "manager_req_test E e s = Inr (b, st, e', s')"
  shows "keeps E view hand s s'" "ent_request e' = ent_request e" "completion e' = completion e"
    "ent_device e' = ent_device e"
  using assms by (auto simp: manager_req_test_def split: if_splits elim!: bind_resE
      dest!: keeps_stream [where view = view and hand = hand] keeps_mpi_test [where view = view and hand = hand]
      intro: keeps_trans)

lemma manager_req_completeE:
  assumes "manager_req_complete E e st s = Inr s'"
  obtains (sent) r where "heap s (ent_request e) = Some r" "req_op r \<noteq> RECV" "req_op r \<noteq> PUT_SIGNAL"
      "signal_comp E e s = Inr s'"
  | (received) r x s1 where "heap s (ent_request e) = Some r" "req_op r = RECV" "st = Some x"
      "set_received E (ent_request e) x s = Inr s1" "signal_comp E e s1 = Inr s'"
  using assms unfolding manager_req_complete_def
  by (elim bind_resE) (simp add: deref_eq_Inr split: if_splits option.splits)

lemma inv_manager_req_complete:
  assumes I: "mpi_inv_by ah rm E view (ent_request e # hand) s" and c: "manager_req_complete E e st s = Inr s'"
  shows "mpi_inv_by ah rm E view hand s'"
  using c
proof (cases rule: manager_req_completeE)
  case sent
  then show ?thesis using inv_signal_comp [OF I] by blast
next
  case (received r x s1)
  then show ?thesis using inv_signal_comp [OF inv_set_received [OF I received(4)]] by blast
qed

lemma get_manager_req_Inr: "get_manager_req m s = Inr x \<longleftrightarrow> managers s m = Some (Man_req x)"
  by (auto simp: get_manager_req_def deref_eq_Inr split: manager_t.splits elim!: bind_resE)

text \<open>The three ways a call of \<^verbatim>\<open>manager_req_t::do_progress\<close> returns.\<close>

lemma manager_req_do_progressE:
  assumes p: "manager_req_do_progress E this s = Inr (b, s')"
  obtains (idle) x where "managers s this = Some (Man_req x)" "entries x = [] \<or> req_lock x" "\<not> b" "s' = s"
  | (again) x e rest e' st s1 where "managers s this = Some (Man_req x)" "entries x = e # rest" "\<not> req_lock x"
      "manager_req_test E e (set_manager this (Man_req (x\<lparr>req_lock := True, entries := rest\<rparr>)) s) = Inr (False, st, e', s1)"
      "\<not> b" "s' = set_manager this (Man_req (x\<lparr>entries := rest @ [e'], req_lock := False\<rparr>)) s1"
  | (completed) x e rest e' st s1 where "managers s this = Some (Man_req x)" "entries x = e # rest" "\<not> req_lock x"
      "manager_req_test E e (set_manager this (Man_req (x\<lparr>req_lock := True, entries := rest\<rparr>)) s) = Inr (True, st, e', s1)"
      "b" "manager_req_complete E e' st (set_manager this (Man_req (x\<lparr>entries := rest, req_lock := False\<rparr>)) s1) = Inr s'"
proof -
  obtain x where x: "managers s this = Some (Man_req x)"
    using p by (auto simp: manager_req_do_progress_def get_manager_req_Inr elim!: bind_resE)
  show thesis
  proof (cases "entries x = [] \<or> req_lock x")
    case True
    then show thesis using p x
      by (intro idle [OF x]) (auto simp: manager_req_do_progress_def get_manager_req_def spin_try_lock_def split: if_splits)
  next
    case False
    then obtain e rest where e: "entries x = e # rest" "\<not> req_lock x" by (auto simp: neq_Nil_conv)
    define s0 where "s0 = set_manager this (Man_req (x\<lparr>req_lock := True, entries := rest\<rparr>)) s"
    have p': "bind_res (manager_req_test E e s0) (\<lambda>(succeed, status, entry, s).
        bind_res (get_manager_req this s) (\<lambda>m.
          let m = (if succeed then m else m\<lparr>entries := entries m @ [entry]\<rparr>)
          in bind_res (spin_unlock (req_lock m)) (\<lambda>l.
             let s = set_manager this (Man_req (m\<lparr>req_lock := l\<rparr>)) s
             in if \<not> succeed then Inr (False, s)
                else bind_res (manager_req_complete E entry status s) (\<lambda>s. Inr (True, s))))) = Inr (b, s')"
      using p x e by (simp add: manager_req_do_progress_def get_manager_req_def s0_def Let_def)
    obtain ok st e' s1 where t: "manager_req_test E e s0 = Inr (ok, st, e', s1)"
      using p' by (auto elim!: bind_resE)
    have "managers s1 = managers s0" using keeps_manager_req_test(1) [OF t] by (auto simp: keeps_def)
    then have m: "get_manager_req this s1 = Inr (x\<lparr>req_lock := True, entries := rest\<rparr>)"
      by (simp add: get_manager_req_Inr s0_def)
    show thesis
    proof (cases ok)
      case True
      then show thesis using p' t m
        by (intro completed [OF x e(1,2) t [unfolded s0_def, simplified True]]) (auto simp: Let_def elim!: bind_resE)
    next
      case False
      then show thesis using p' t m
        by (intro again [OF x e(1,2) t [unfolded s0_def, simplified False]]) (auto simp: Let_def elim!: bind_resE)
    qed
  qed
qed

lemma inv_manager_req_do_progress:
  assumes I: "mpi_inv_by ah rm E view hand s" and p: "manager_req_do_progress E this s = Inr (b, s')"
  shows "mpi_inv_by ah rm E view hand s'"
  using p
proof (cases rule: manager_req_do_progressE)
  case idle
  then show ?thesis using I by simp
next
  case (again x e rest e' st s1)
  note K = keeps_manager_req_test(1) [OF again(4), of view "ent_request e # hand"] keeps_manager_req_test(2) [OF again(4)]
  have I0: "mpi_inv_by ah rm E view (ent_request e # hand) (set_manager this (Man_req (x\<lparr>req_lock := True, entries := rest\<rparr>)) s)"
    using again by (intro inv_pop_front [OF I again(1)]) simp
  have I1: "mpi_inv_by ah rm E view (ent_request e' # hand) s1" and h: "heap s1 (ent_request e) = heap s (ent_request e)"
    and m: "managers s1 this = Some (Man_req (x\<lparr>req_lock := True, entries := rest\<rparr>))"
    using K I0 by (auto simp: keeps_def)
  show ?thesis using again inv_front_op [OF I again(1), of e] h K(2) unfolding again(6)
    by (intro inv_push_back [OF I1 m]) auto
next
  case (completed x e rest e' st s1)
  note K = keeps_manager_req_test(1) [OF completed(4), of view "ent_request e # hand"] keeps_manager_req_test(2) [OF completed(4)]
  have I0: "mpi_inv_by ah rm E view (ent_request e # hand) (set_manager this (Man_req (x\<lparr>req_lock := True, entries := rest\<rparr>)) s)"
    using completed by (intro inv_pop_front [OF I completed(1)]) simp
  have I1: "mpi_inv_by ah rm E view (ent_request e' # hand) s1"
    and m: "managers s1 this = Some (Man_req (x\<lparr>req_lock := True, entries := rest\<rparr>))"
    using K I0 by (auto simp: keeps_def)
  have "core (set_manager this (Man_req (x\<lparr>entries := rest, req_lock := False\<rparr>)) s1) = core s1"
    using m by (intro core_set_manager) (simp add: man_ids_def)
  from inv_manager_req_complete [OF inv_core [OF I1 this] completed(6)] show ?thesis .
qed

lemma inv_manager_req_add_entry:
  assumes I: "mpi_inv_by ah rm E view (ent_request e # hand) s" and a: "manager_req_add_entry this e s = Inr s'"
    and op: "\<And>r. heap s (ent_request e) = Some r \<Longrightarrow> req_op r \<noteq> PUT_SIGNAL"
  shows "mpi_inv_by ah rm E view hand s'"
proof -
  obtain x where x: "managers s this = Some (Man_req x)"
    and s': "s' = set_manager this (Man_req (x\<lparr>entries := entries x @ [e], req_lock := False\<rparr>)) s"
    using a by (auto simp: manager_req_add_entry_def get_manager_req_Inr spin_lock_def spin_unlock_def
        split: if_splits elim!: bind_resE)
  show ?thesis unfolding s' using op by (intro inv_push_back [OF I x]) simp_all
qed

lemma inv_new_centry:
  assumes I: "mpi_inv_by ah rm E view (ent_request e # hand) s"
    and op: "\<And>r. heap s (ent_request e) = Some r \<Longrightarrow> req_op r \<noteq> PUT_SIGNAL"
  shows "mpi_inv_by ah rm E view hand (snd (new_centry e s))"
proof -
  note D = mpi_invD [OF I]
  let ?w = "mpi_owns view (ent_request e # hand) s" and ?s' = "snd (new_centry e s)"
  have none: "centries s (next_obj s) = None" using D(2) by (simp add: mpi_fresh_def)
  have "acct ah rm (?w(Own_hand := hand, Own_cont (next_obj s) := [ent_request e])) (heap s) (g_pending_msg s)
      (g_pending_msg_max (config s))"
    using none op by (intro acct_move [OF D(4), where p = "ent_request e"]) auto
  moreover have "mpi_owns view hand ?s' = ?w(Own_hand := hand, Own_cont (next_obj s) := [ent_request e])"
    using owns_centry [of ?s' s "next_obj s" "Some e" view hand] owns_hand [of view hand s "ent_request e # hand"]
    by (simp add: new_centry_def)
  moreover have "mpi_fresh ?s'" using D(2) by (fastforce simp: mpi_fresh_def fresh_ok_def new_centry_def less_Suc_eq)
  ultimately show ?thesis using D(1) by (simp add: mpi_inv_by_def new_centry_def)
qed

lemma keepsD:
  assumes "keeps E view hand s s'" and "mpi_inv_by ah rm E view hand s"
  shows "mpi_inv_by ah rm E view hand s'" "p \<in> set hand \<Longrightarrow> heap s' p = heap s p" "managers s' = managers s"
    "config s' = config s"
  using assms by (auto simp: keeps_def)

lemma inv_manager_cont_add_entry:
  assumes I: "mpi_inv_by ah rm E view (ent_request e # hand) s" and a: "manager_cont_add_entry E m e s = Inr s'"
    and op: "\<And>r. heap s (ent_request e) = Some r \<Longrightarrow> req_op r \<noteq> PUT_SIGNAL"
  shows "mpi_inv_by ah rm E view hand s'"
proof -
  have I0: "mpi_inv_by ah rm E view hand (snd (new_centry e s))" using I op by (rule inv_new_centry)
  obtain s1 cbs l s2 where s1: "enter_stream_cs E (ent_device e) (snd (new_centry e s)) = Inr s1"
    and s2: "run_callbacks E cbs (s1\<lparr>lib := l\<rparr>) = Inr s2" and s': "leave_stream_cs E (ent_device e) s2 = Inr s'"
    using a by (auto simp: manager_cont_add_entry_def new_centry_def Let_def split: prod.splits elim!: bind_resE)
  have I1: "mpi_inv_by ah rm E view hand s1" by (rule keepsD(1) [OF keeps_stream(1) [OF s1] I0])
  have "mpi_inv_by ah rm E view hand (s1\<lparr>lib := l\<rparr>)" by (rule inv_core [OF I1]) (simp add: core_def)
  from inv_run_callbacks [OF this s2] have "mpi_inv_by ah rm E view hand s2" ..
  with keeps_stream(2) [OF s'] show ?thesis by (rule keepsD(1))
qed

lemma inv_manager_cont_do_progress:
  assumes I: "mpi_inv_by ah rm E view hand s" and m: "managers s this = Some (Man_cont m)"
    and p: "manager_cont_do_progress E this m s = Inr (b, s')"
  shows "mpi_inv_by ah rm E view hand s'"
proof -
  have ids: "man_ids (Man_cont y) = []" for y by (simp add: man_ids_def)
  let ?s0 = "set_manager this (Man_cont (m\<lparr>cont_lock := True\<rparr>)) s"
  have "s' = s \<or> (\<exists>x st r s1 lk l. mpi_test E (cont_req m) ?s0 = Inr (x, st, r, s1) \<and>
      s' = set_manager this (Man_cont (m\<lparr>cont_req := r, cont_lock := lk\<rparr>)) (s1\<lparr>lib := l\<rparr>))"
  proof (cases "cont_req m \<noteq> MPI_REQUEST_NULL \<and> \<not> cont_lock m")
    case True
    then obtain x st r s1 where t: "mpi_test E (cont_req m) ?s0 = Inr (x, st, r, s1)"
      using p by (auto simp: manager_cont_do_progress_def elim!: bind_resE)
    obtain err l where l: "(if x then MPI_Start E r (lib s1) else (MPI_SUCCESS, lib s1)) = (err, l)"
      by (cases "if x then MPI_Start E r (lib s1) else (MPI_SUCCESS, lib s1)")
    have "s' = set_manager this (Man_cont (m\<lparr>cont_req := r, cont_lock := False\<rparr>)) (s1\<lparr>lib := l\<rparr>)"
      using p t l True by (auto simp: manager_cont_do_progress_def elim!: bind_resE)
    then show ?thesis using t by blast
  next
    case False
    then have "s' = s" using p
      by (auto simp: manager_cont_do_progress_def spin_try_lock_def split: if_splits)
    then show ?thesis by blast
  qed
  then show ?thesis
  proof (elim disjE exE conjE)
    fix x st r s1 lk l
    assume t: "mpi_test E (cont_req m) ?s0 = Inr (x, st, r, s1)"
      and s': "s' = set_manager this (Man_cont (m\<lparr>cont_req := r, cont_lock := lk\<rparr>)) (s1\<lparr>lib := l\<rparr>)"
    have "core ?s0 = core s" using m by (intro core_set_manager) (simp add: ids)
    from inv_core [OF I this] have "mpi_inv_by ah rm E view hand ?s0" .
    note K = keepsD [OF keeps_mpi_test [OF t] this]
    have "core s' = core (s1\<lparr>lib := l\<rparr>)" unfolding s' using K(3) by (intro core_set_manager) (simp add: ids)
    then have "core s' = core s1" by (simp add: core_def)
    then show ?thesis by (rule inv_core [OF K(1)])
  qed (use I in simp)
qed

text \<open>The contract of the two virtual methods: \<^verbatim>\<open>add_entry\<close> takes over the request it is given.\<close>

lemma inv_manager_add_entry:
  assumes I: "mpi_inv_by ah rm E view (ent_request e # hand) s" and a: "manager_add_entry E this e s = Inr s'"
    and op: "\<And>r. heap s (ent_request e) = Some r \<Longrightarrow> req_op r \<noteq> PUT_SIGNAL"
  shows "mpi_inv_by ah rm E view hand s'"
  using a op inv_manager_req_add_entry [OF I] inv_manager_cont_add_entry [OF I]
  unfolding manager_add_entry_def by (elim bind_resE) (simp split: manager_t.splits)

lemma inv_manager_do_progress:
  assumes I: "mpi_inv_by ah rm E view hand s" and p: "manager_do_progress E this s = Inr (b, s')"
  shows "mpi_inv_by ah rm E view hand s'"
  using p inv_manager_req_do_progress [OF I, of this b s'] inv_manager_cont_do_progress [OF I, of this _ b s']
  unfolding manager_do_progress_def by (elim bind_resE) (simp add: deref_eq_Inr split: manager_t.splits)

section \<open>The operations of the backend\<close>

lemma set_device_fields [simp]:
  "heap (set_device d dv s) = heap s" "comps (set_device d dv s) = comps s"
  "next_obj (set_device d dv s) = next_obj s" "mem (set_device d dv s) = mem s"
  "blocks (set_device d dv s) = blocks s" "trace (set_device d dv s) = trace s"
  "lib (set_device d dv s) = lib s" "config (set_device d dv s) = config s"
  "g_pending_msg (set_device d dv s) = g_pending_msg s" "managers (set_device d dv s) = managers s"
  "devices (set_device d dv s) = (devices s)(d \<mapsto> dv)" "centries (set_device d dv s) = centries s"
  "mgr_refs (set_device d dv s) = mgr_refs s" "g_comp_managers (set_device d dv s) = g_comp_managers s"
  "m_allocator (set_device d dv s) = m_allocator s"
  by (simp_all add: set_device_def)

lemma core_set_device:
  "devices s d = Some dv \<Longrightarrow> ent_request (put_entry dv') = ent_request (put_entry dv) \<Longrightarrow>
   core (set_device d dv' s) = core s"
  by (auto simp: core_def fun_eq_iff)

text \<open>The calls around one MPI operation of a device.\<close>

lemma keeps_posting:
  assumes "enter_stream_cs E d s = Inr s1"
    and "isend E a n rk tg c s1 = Inr (q, s2) \<or> irecv E a n rk tg c s1 = Inr (q, s2)"
    and "leave_stream_cs E d s2 = Inr s3"
  shows "keeps E view hand s s3"
proof -
  have "keeps E view hand s1 s2" using assms(2) by (auto intro: keeps_isend keeps_irecv)
  then show ?thesis
    by (rule keeps_trans [OF keeps_stream(1) [OF assms(1)] keeps_trans [OF _ keeps_stream(2) [OF assms(3)]]])
qed

lemma post_put_recvE:
  assumes "post_put_recv E d c s = Inr s'"
  obtains dv r s1 dv1 e where "devices s d = Some dv" "req_op r = PUT_SIGNAL" "req_device r = d"
    "\<And>view hand. keeps E view hand (snd (new_request r s)) s1" "devices s1 d = Some dv1"
    "ent_request e = next_obj s" "completion e = c" "s' = set_device d (dv1\<lparr>put_entry := e\<rparr>) s1"
proof -
  obtain dv where dv: "devices s d = Some dv"
    using assms by (auto simp: post_put_recv_def deref_eq_Inr elim!: bind_resE)
  define r where "r = \<lparr>req_op = PUT_SIGNAL, req_device = d, req_rank = - 1, req_tag = put_tag dv,
            req_buffer = put_rbuf_data dv, req_length = to_int64 (put_rbuf_size dv), req_user_context = nullptr\<rparr>"
  obtain s1 q s2 s3 dv1 where p: "enter_stream_cs E d (snd (new_request r s)) = Inr s1"
    "irecv E (put_rbuf_data dv) (to_size (to_int64 (put_rbuf_size dv))) (MPI_ANY_SOURCE E)
       (to_int (put_tag dv)) (comm dv) s1 = Inr (q, s2)"
    "leave_stream_cs E d s2 = Inr s3" "devices s3 d = Some dv1"
    "s' = set_device d (dv1\<lparr>put_entry := \<lparr>mpi_req = q, ent_device = d, completion = c, ent_request = next_obj s\<rparr>\<rparr>) s3"
    using assms dv unfolding post_put_recv_def
    by (auto simp: r_def new_request_def Let_def deref_eq_Inr elim!: bind_resE)
  show thesis
  proof (rule that [OF dv, of r s3 dv1])
    show "keeps E view hand (snd (new_request r s)) s3" for view hand
      using keeps_posting [OF p(1) disjI2 [OF p(2)] p(3)] .
  qed (use p in \<open>auto simp: r_def\<close>)
qed

definition put_ids :: "mpi_device_t \<Rightarrow> ptr list" where
  "put_ids dv = (let p = ent_request (put_entry dv) in if p = nullptr then [] else [p])"

lemma owns_put: "devices s d = Some dv \<Longrightarrow> mpi_owns view hand s (Own_put d) = put_ids dv"
  by (simp add: put_ids_def Let_def)

text \<open>A request of the running operation becomes the put receive of a device; the previous one is handed back.\<close>

lemma inv_swap_put:
  assumes I: "mpi_inv_by ah rm E view (n # hand) s" and dv: "devices s d = Some dv"
    and n: "heap s n = Some r" "req_op r = PUT_SIGNAL" "req_device r = d"
    and dv': "ent_request (put_entry dv') = n"
  shows "mpi_inv_by ah rm E view (put_ids dv @ hand) (set_device d dv' s)"
proof -
  note D = mpi_invD [OF I]
  let ?w = "mpi_owns view (n # hand) s" and ?s' = "set_device d dv' s"
  let ?w1 = "?w(Own_put d := [], Own_hand := put_ids dv @ n # hand)"
  have w: "?w (Own_put d) = put_ids dv" by (rule owns_put [OF dv])
  have n0: "n \<noteq> nullptr" using n(1) D(3) by (auto simp: fresh_ok_def)
  have a1: "acct ah rm ?w1 (heap s) (g_pending_msg s) (g_pending_msg_max (config s))"
  proof (cases "put_ids dv")
    case Nil
    then have "?w1 = ?w" using w by (auto simp: fun_eq_iff)
    then show ?thesis using D(4) by simp
  next
    case (Cons p xs)
    then have "put_ids dv = [p]" by (auto simp: put_ids_def Let_def split: if_splits)
    then show ?thesis using w by (intro acct_move [OF D(4), where p = p]) auto
  qed
  have "acct ah rm (?w1(Own_hand := put_ids dv @ hand, Own_put d := [n])) (heap s) (g_pending_msg s)
      (g_pending_msg_max (config s))"
    using n by (intro acct_move [OF a1, where p = n]) auto
  moreover have "mpi_owns view (put_ids dv @ hand) ?s' = ?w1(Own_hand := put_ids dv @ hand, Own_put d := [n])"
    using owns_device [of ?s' s d dv' n view "put_ids dv @ hand"] dv' n0
      owns_hand [of view "put_ids dv @ hand" s "n # hand"] by (simp add: fun_eq_iff)
  moreover have "mpi_fresh ?s'" using D(2) dv by (auto simp: mpi_fresh_def fresh_ok_def)
  ultimately show ?thesis using D(1) by (simp add: mpi_inv_by_def)
qed

lemma inv_post_put_recv:
  assumes I: "mpi_inv_by ah rm E view hand s" and p: "post_put_recv E d c s = Inr s'" and dv: "devices s d = Some dv"
  shows "mpi_inv_by ah rm E view (put_ids dv @ hand) s'"
  using p
proof (rule post_put_recvE)
  fix dv0 r s1 dv1 e
  assume r: "req_op r = PUT_SIGNAL" "req_device r = d" and k: "\<And>view hand. keeps E view hand (snd (new_request r s)) s1"
    and d1: "devices s1 d = Some dv1" and e: "ent_request e = next_obj s" "s' = set_device d (dv1\<lparr>put_entry := e\<rparr>) s1"
  have I0: "mpi_inv_by ah rm E view (next_obj s # hand) (snd (new_request r s))"
    using r by (intro inv_new_request [OF I]) (simp add: throttled_def)
  note K = keepsD [OF k I0]
  have "map_option put_entry (devices s1 d) = map_option put_entry (devices s d)"
    using k [of view hand] by (simp add: keeps_def)
  then have same: "put_ids dv1 = put_ids dv" using d1 dv by (simp add: put_ids_def)
  have "mpi_inv_by ah rm E view (put_ids dv1 @ hand) (set_device d (dv1\<lparr>put_entry := e\<rparr>) s1)"
    using K(2) [of "next_obj s"] r e by (intro inv_swap_put [OF K(1) d1]) auto
  then show ?thesis using same e by simp
qed

lemma inv_copy_out:
  assumes "mpi_inv_by ah rm E view hand s" and "copy_out E p s = Inr s'"
  shows "mpi_inv_by ah rm E view hand s'"
proof -
  obtain r b m buf where "heap s p = Some r" "s' = s\<lparr>blocks := b, mem := m, heap := (heap s)(p \<mapsto> r\<lparr>req_buffer := buf\<rparr>)\<rparr>"
    using assms(2) by (auto simp: copy_out_def deref_eq_Inr Let_def elim!: bind_resE)
  then show ?thesis using inv_update [OF assms(1), of p r "r\<lparr>req_buffer := buf\<rparr>" m b] by simp
qed

lemma inv_put_completed:
  assumes I: "mpi_inv_by ah rm E view hand s" and p: "put_completed E e st s = Inr s'" and dv: "devices s d = Some dv"
    and e: "ent_request e = ent_request (put_entry dv)"
  shows "mpi_inv_by ah rm E view (ent_request e # hand) s'"
proof -
  obtain s1 s2 r where s1: "set_received E (ent_request e) st s = Inr s1"
    and s2: "copy_out E (ent_request e) s1 = Inr s2" and r: "heap s2 (ent_request e) = Some r"
    and s': "post_put_recv E (req_device r) (completion e) s2 = Inr s'"
    using p by (auto simp: put_completed_def deref_eq_Inr elim!: bind_resE)
  have I2: "mpi_inv_by ah rm E view hand s2" by (rule inv_copy_out [OF inv_set_received [OF I s1] s2])
  have d2: "devices s2 d = Some dv"
    using s1 s2 dv by (auto simp: set_received_def copy_out_def Let_def split: prod.splits elim!: bind_resE)
  have nz: "ent_request e \<noteq> nullptr" using r mpi_invD(3) [OF I2] by (auto simp: fresh_ok_def)
  then have ids: "put_ids dv = [ent_request e]" using e by (simp add: put_ids_def)
  then have "ent_request e \<in> set (mpi_owns view hand s2 (Own_put d))" unfolding owns_put [OF d2] by simp
  from acctD(3) [OF mpi_invD(4) [OF I2] this r] have "req_device r = d" by simp
  then show ?thesis using inv_post_put_recv [OF I2 s', of dv] d2 ids by simp
qed

lemma keepsD_put:
  assumes "keeps E view hand s s'" and "devices s' d = Some dv'"
  shows "\<exists>dv. devices s d = Some dv \<and> put_entry dv' = put_entry dv \<and> comp_manager_p dv' = comp_manager_p dv"
proof -
  have "map_option put_entry (devices s' d) = map_option put_entry (devices s d)"
    "map_option comp_manager_p (devices s' d) = map_option comp_manager_p (devices s d)"
    using assms(1) by (auto simp: keeps_def)
  then show ?thesis using assms(2) by (cases "devices s d") auto
qed

lemma inv_unlock_put_entry:
  assumes "mpi_inv_by ah rm E view hand s" and "unlock_put_entry d s = Inr s'"
  shows "mpi_inv_by ah rm E view hand s'"
proof -
  obtain dv l where "devices s d = Some dv" "s' = set_device d (dv\<lparr>put_entry_lock := l\<rparr>) s"
    using assms(2) by (auto simp: unlock_put_entry_def deref_eq_Inr elim!: bind_resE)
  then show ?thesis by (auto intro!: inv_core [OF assms(1)] core_set_device)
qed

text \<open>The ways \<^verbatim>\<open>do_progress\<close> treats the put receive: nothing to do, not complete yet, complete.\<close>

lemma progress_putE:
  assumes p: "progress_put E d dv s = Inr (b, s')" and dv: "devices s d = Some dv"
  obtains (idle) "\<not> b" "s' = s \<or> unlock_put_entry d (set_device d (dv\<lparr>put_entry_lock := True\<rparr>) s) = Inr s'"
  | (tested) s1 st q s2 dv2 s3 where "\<not> put_entry_lock dv"
      "enter_stream_cs E d (set_device d (dv\<lparr>put_entry_lock := True\<rparr>) s) = Inr s1"
      "mpi_test E (mpi_req (put_entry dv)) s1 = Inr (b, st, q, s2)" "devices s2 d = Some dv2"
      "leave_stream_cs E d (set_device d (dv2\<lparr>put_entry := (put_entry dv2)\<lparr>mpi_req := q\<rparr>\<rparr>) s2) = Inr s3"
      "if b then \<exists>s4 s5. put_completed E ((put_entry dv2)\<lparr>mpi_req := q\<rparr>) st s3 = Inr s4 \<and>
            unlock_put_entry d s4 = Inr s5 \<and> signal_comp E ((put_entry dv2)\<lparr>mpi_req := q\<rparr>) s5 = Inr s'
       else unlock_put_entry d s3 = Inr s'"
proof (cases "put_entry_lock dv \<or> mpi_req (put_entry dv) = MPI_REQUEST_NULL")
  case True
  then show thesis using p
    by (intro idle) (auto simp: progress_put_def spin_try_lock_def Let_def split: if_splits elim!: bind_resE)
next
  case False
  let ?s0 = "set_device d (dv\<lparr>put_entry_lock := True\<rparr>) s"
  obtain s1 ok st q s2 dv2 s3 where t: "enter_stream_cs E d ?s0 = Inr s1"
    "mpi_test E (mpi_req (put_entry dv)) s1 = Inr (ok, st, q, s2)" "devices s2 d = Some dv2"
    "leave_stream_cs E d (set_device d (dv2\<lparr>put_entry := (put_entry dv2)\<lparr>mpi_req := q\<rparr>\<rparr>) s2) = Inr s3"
    using p False by (auto simp: progress_put_def Let_def deref_eq_Inr elim!: bind_resE)
  show thesis using p False t
    by (intro tested [of s1 st q s2 dv2 s3]) (auto simp: progress_put_def Let_def elim!: bind_resE split: if_splits)
qed

lemma inv_progress_put:
  assumes I: "mpi_inv_by ah rm E view hand s" and p: "progress_put E d dv s = Inr (b, s')" and dv: "devices s d = Some dv"
  shows "mpi_inv_by ah rm E view hand s'"
proof -
  let ?s0 = "set_device d (dv\<lparr>put_entry_lock := True\<rparr>) s"
  have I0: "mpi_inv_by ah rm E view hand ?s0" using dv by (intro inv_core [OF I] core_set_device) simp_all
  from p dv show ?thesis
  proof (cases rule: progress_putE)
    case idle
    then show ?thesis using I inv_unlock_put_entry [OF I0] by blast
  next
    case (tested s1 st q s2 dv2 s3)
    let ?e = "(put_entry dv2)\<lparr>mpi_req := q\<rparr>"
    have I2: "mpi_inv_by ah rm E view hand s2"
      using keepsD(1) [OF keeps_mpi_test [OF tested(3)] keepsD(1) [OF keeps_stream(1) [OF tested(2)] I0]] .
    have "mpi_inv_by ah rm E view hand (set_device d (dv2\<lparr>put_entry := ?e\<rparr>) s2)"
      using tested(4) by (intro inv_core [OF I2] core_set_device) simp_all
    note I3 = keepsD(1) [OF keeps_stream(2) [OF tested(5)] this]
    obtain dv3 where d3: "devices s3 d = Some dv3" "put_entry dv3 = ?e"
      using keeps_stream(2) [OF tested(5), of view hand] by (auto simp: keeps_def split: if_splits)
    show ?thesis
    proof (cases b)
      case True
      then obtain s4 s5 where "put_completed E ?e st s3 = Inr s4" "unlock_put_entry d s4 = Inr s5"
        "signal_comp E ?e s5 = Inr s'" using tested(6) by auto
      then show ?thesis
        using inv_signal_comp inv_unlock_put_entry inv_put_completed [OF I3 _ d3(1)] d3(2) by metis
    next
      case False
      then show ?thesis using inv_unlock_put_entry [OF I3] tested(6) by simp
    qed
  qed
qed

lemma mpi_do_progressE:
  assumes p: "mpi_do_progress E d s = Inr (b, s')"
  obtains dv b1 s1 dv1 b2 where "devices s d = Some dv"
    "(if enable_put dv \<and> mpi_req (put_entry dv) \<noteq> MPI_REQUEST_NULL then progress_put E d dv s else Inr (False, s)) =
       Inr (b1, s1)"
    "devices s1 d = Some dv1" "manager_do_progress E (comp_manager_p dv1) s1 = Inr (b2, s')" "b = (b2 \<or> b1)"
proof -
  obtain dv where dv: "devices s d = Some dv"
    using p by (auto simp: mpi_do_progress_def deref_eq_Inr elim!: bind_resE)
  let ?put = "if enable_put dv \<and> mpi_req (put_entry dv) \<noteq> MPI_REQUEST_NULL then progress_put E d dv s
    else Inr (False, s)"
  have p': "bind_res ?put (\<lambda>(succeed, s). bind_res (deref (devices s) d) (\<lambda>d.
      bind_res (manager_do_progress E (comp_manager_p d) s) (\<lambda>(made, s). Inr (made \<or> succeed, s)))) = Inr (b, s')"
    using p dv by (simp add: mpi_do_progress_def)
  then obtain b1 s1 where s1: "?put = Inr (b1, s1)" by (elim bind_resE) auto
  obtain dv1 where d1: "devices s1 d = Some dv1"
    using p' unfolding s1 by (auto simp: deref_eq_Inr elim!: bind_resE)
  obtain b2 s2 where "manager_do_progress E (comp_manager_p dv1) s1 = Inr (b2, s2)" "b = (b2 \<or> b1)" "s' = s2"
    using p' d1 unfolding s1 by (cases "manager_do_progress E (comp_manager_p dv1) s1") auto
  then show thesis using that [OF dv s1 d1] by blast
qed

lemma inv_mpi_do_progress:
  assumes I: "mpi_inv_by ah rm E view hand s" and p: "mpi_do_progress E d s = Inr (b, s')"
  shows "mpi_inv_by ah rm E view hand s'"
  using p
proof (rule mpi_do_progressE)
  fix dv b1 s1 dv1 b2
  assume "devices s d = Some dv"
    and "(if enable_put dv \<and> mpi_req (put_entry dv) \<noteq> MPI_REQUEST_NULL then progress_put E d dv s else Inr (False, s)) =
       Inr (b1, s1)"
    and s': "manager_do_progress E (comp_manager_p dv1) s1 = Inr (b2, s')"
  then have "mpi_inv_by ah rm E view hand s1" using inv_progress_put [OF I] I by (auto split: if_splits)
  then show ?thesis using s' by (rule inv_manager_do_progress)
qed

text \<open>The common tail of \<^verbatim>\<open>send\<close>, \<^verbatim>\<open>recv\<close> and \<^verbatim>\<open>put\<close>: post, then hand the request to the manager.\<close>

definition post_entry where
  "post_entry E d f m e s =
     bind_res (enter_stream_cs E d s) (\<lambda>s. bind_res (f s) (\<lambda>(r, s).
     bind_res (leave_stream_cs E d s) (\<lambda>s.
     bind_res (manager_add_entry E m (e\<lparr>mpi_req := r\<rparr>) s) (\<lambda>s. Inr (True, s)))))"

lemma post_entryE:
  assumes "post_entry E d f m e s = Inr (b, s')"
  obtains s1 q s2 s3 where "b" "enter_stream_cs E d s = Inr s1" "f s1 = Inr (q, s2)"
    "leave_stream_cs E d s2 = Inr s3" "manager_add_entry E m (e\<lparr>mpi_req := q\<rparr>) s3 = Inr s'"
  using assms unfolding post_entry_def by (elim bind_resE) (auto elim!: bind_resE)

lemma inv_post_entry:
  assumes I: "mpi_inv_by ah rm E view (ent_request e # hand) s" and r: "heap s (ent_request e) = Some r" "req_op r \<noteq> PUT_SIGNAL"
    and p: "post_entry E d f m e s = Inr (b, s')" and f: "f = isend E a n rk tg c \<or> f = irecv E a n rk tg c"
  shows "mpi_inv_by ah rm E view hand s'"
  using p
proof (rule post_entryE)
  fix s1 q s2 s3
  assume t: "enter_stream_cs E d s = Inr s1" "f s1 = Inr (q, s2)" "leave_stream_cs E d s2 = Inr s3"
    "manager_add_entry E m (e\<lparr>mpi_req := q\<rparr>) s3 = Inr s'"
  have "keeps E view (ent_request e # hand) s s3" using t f by (auto intro: keeps_posting)
  note K = keepsD [OF this I]
  show ?thesis using K(1,2) r by (intro inv_manager_add_entry [OF _ t(4)]) auto
qed

lemma throttle_fields:
  "throttle s = Some s1 \<Longrightarrow> next_obj s1 = next_obj s \<and> devices s1 = devices s \<and> heap s1 = heap s"
  by (auto simp: throttle_def add_pending_def split: if_splits)

definition new_entry :: "ptr \<Rightarrow> ptr \<Rightarrow> ptr \<Rightarrow> entry_t" where
  "new_entry d c p = \<lparr>mpi_req = MPI_REQUEST_NULL, ent_device = d, completion = c, ent_request = p\<rparr>"

lemma new_entry_fields [simp]: "ent_request (new_entry d c p) = p" "completion (new_entry d c p) = c"
  "ent_device (new_entry d c p) = d"
  by (simp_all add: new_entry_def)

lemma mpi_send_eq:
  "mpi_send E d rank tag buf len c ctx s =
     (case throttle s of None \<Rightarrow> Inr (False, s)
      | Some s0 \<Rightarrow> bind_res (deref (devices s) d) (\<lambda>dv.
          post_entry E d (isend E buf (to_size len) (to_int rank) (to_int tag) (comm dv)) (comp_manager_p dv)
            (new_entry d c (next_obj s))
            (snd (new_request \<lparr>req_op = SEND, req_device = d, req_rank = rank, req_tag = tag,
              req_buffer = buf, req_length = len, req_user_context = ctx\<rparr> s0))))"
  by (auto simp: mpi_send_def post_entry_def new_entry_def new_request_def Let_def throttle_fields split: option.splits)

lemma mpi_recv_eq:
  "mpi_recv E d rank tag buf len c ctx s =
     bind_res (deref (devices s) d) (\<lambda>dv.
       post_entry E d (irecv E buf (to_size len) (to_int rank) (to_int tag) (comm dv)) (comp_manager_p dv)
         (new_entry d c (next_obj s))
         (snd (new_request \<lparr>req_op = RECV, req_device = d, req_rank = rank, req_tag = tag,
           req_buffer = buf, req_length = len, req_user_context = ctx\<rparr> s)))"
  by (simp add: mpi_recv_def post_entry_def new_entry_def new_request_def Let_def)

lemma mpi_put_eq:
  "mpi_put E d rank buf len c ctx s =
     bind_res (deref (devices s) d) (\<lambda>dv. bind_res (lcw_assert (enable_put dv) ''Put is not enabled!'') (\<lambda>_.
       case throttle s of None \<Rightarrow> Inr (False, s)
       | Some s0 \<Rightarrow>
          post_entry E d (isend E buf (to_size len) (to_int rank) (to_int (put_tag dv)) (comm dv)) (comp_manager_p dv)
            (new_entry d c (next_obj s))
            (snd (new_request \<lparr>req_op = PUT, req_device = d, req_rank = rank, req_tag = put_tag dv,
              req_buffer = buf, req_length = len, req_user_context = ctx\<rparr> s0))))"
  by (auto simp: mpi_put_def post_entry_def new_entry_def new_request_def Let_def throttle_fields
      intro!: bind_res_cong split: option.splits)

lemma inv_mpi_send:
  assumes I: "mpi_inv E view hand s" and p: "mpi_send E d rank tag buf len c ctx s = Inr (b, s')"
  shows "mpi_inv E view hand s'"
proof (cases "throttle s")
  case None
  then show ?thesis using p I by (auto simp: mpi_send_eq elim!: bind_resE)
next
  case (Some s0)
  obtain dv :: mpi_device_t where "post_entry E d (isend E buf (to_size len) (to_int rank) (to_int (tag)) (comm dv)) (comp_manager_p dv)
      (new_entry d c (next_obj s)) (snd (new_request \<lparr>req_op = SEND, req_device = d, req_rank = rank, req_tag = tag, req_buffer = buf, req_length = len, req_user_context = ctx\<rparr> s0)) = Inr (b, s')"
    using p Some by (auto simp: mpi_send_eq elim!: bind_resE)
  moreover have "mpi_inv E view (ent_request (new_entry d c (next_obj s)) # hand) (snd (new_request \<lparr>req_op = SEND, req_device = d, req_rank = rank, req_tag = tag, req_buffer = buf, req_length = len, req_user_context = ctx\<rparr> s0))" for dv :: mpi_device_t
    using inv_new_request_throttled [OF I _ Some] by (simp add: throttled_def)
  ultimately show ?thesis using throttle_fields [OF Some] by (auto elim!: inv_post_entry [rotated 3])
qed

lemma inv_mpi_recv:
  assumes I: "mpi_inv_by ah rm E view hand s" and p: "mpi_recv E d rank tag buf len c ctx s = Inr (b, s')"
  shows "mpi_inv_by ah rm E view hand s'"
proof -
  obtain dv :: mpi_device_t where "post_entry E d (irecv E buf (to_size len) (to_int rank) (to_int (tag)) (comm dv)) (comp_manager_p dv)
      (new_entry d c (next_obj s)) (snd (new_request \<lparr>req_op = RECV, req_device = d, req_rank = rank, req_tag = tag, req_buffer = buf, req_length = len, req_user_context = ctx\<rparr> s)) = Inr (b, s')"
    using p by (auto simp: mpi_recv_eq elim!: bind_resE)
  moreover have "mpi_inv_by ah rm E view (ent_request (new_entry d c (next_obj s)) # hand) (snd (new_request \<lparr>req_op = RECV, req_device = d, req_rank = rank, req_tag = tag, req_buffer = buf, req_length = len, req_user_context = ctx\<rparr> s))" for dv :: mpi_device_t
    using inv_new_request [OF I] by (simp add: throttled_def)
  ultimately show ?thesis using I by (auto elim!: inv_post_entry [rotated 3])
qed

lemma inv_mpi_put:
  assumes I: "mpi_inv E view hand s" and p: "mpi_put E d rank buf len c ctx s = Inr (b, s')"
  shows "mpi_inv E view hand s'"
proof (cases "throttle s")
  case None
  then show ?thesis using p I by (auto simp: mpi_put_eq elim!: bind_resE)
next
  case (Some s0)
  obtain dv :: mpi_device_t where "post_entry E d (isend E buf (to_size len) (to_int rank) (to_int (put_tag dv)) (comm dv)) (comp_manager_p dv)
      (new_entry d c (next_obj s)) (snd (new_request \<lparr>req_op = PUT, req_device = d, req_rank = rank, req_tag = put_tag dv, req_buffer = buf, req_length = len, req_user_context = ctx\<rparr> s0)) = Inr (b, s')"
    using p Some by (auto simp: mpi_put_eq elim!: bind_resE)
  moreover have "mpi_inv E view (ent_request (new_entry d c (next_obj s)) # hand) (snd (new_request \<lparr>req_op = PUT, req_device = d, req_rank = rank, req_tag = put_tag dv, req_buffer = buf, req_length = len, req_user_context = ctx\<rparr> s0))" for dv :: mpi_device_t
    using inv_new_request_throttled [OF I _ Some] by (simp add: throttled_def)
  ultimately show ?thesis using throttle_fields [OF Some] by (auto elim!: inv_post_entry [rotated 3])
qed

section \<open>Managers, devices and completion objects\<close>

lemma inv_frame:
  assumes "mpi_inv_by ah rm E view hand s" and "mpi_owns view hand s' = mpi_owns view hand s" and "mpi_fresh s'"
    and "heap s' = heap s" "g_pending_msg s' = g_pending_msg s"
    "g_pending_msg_max (config s') = g_pending_msg_max (config s)"
  shows "mpi_inv_by ah rm E view hand s'"
  using assms by (simp add: mpi_inv_by_def)

lemma manager_cont_new_state:
  "manager_cont_new E s = Inr (m, s') \<Longrightarrow> \<exists>l. s' = s\<lparr>lib := l\<rparr>"
proof -
  assume "manager_cont_new E s = Inr (m, s')"
  then have "s' = s\<lparr>lib := lib s'\<rparr>"
    by (auto simp: manager_cont_new_def Let_def split: if_splits prod.splits elim!: bind_resE)
  then show ?thesis by blast
qed

lemma make_managerE:
  assumes "make_manager E s = Inr (p, s')"
  obtains m l where "man_ids m = []" "p = next_obj s"
    "s' = s\<lparr>lib := l, managers := (managers s)(p \<mapsto> m), mgr_refs := (mgr_refs s)(p := 1), next_obj := Suc p\<rparr>"
proof -
  have alloc: "s' = s1\<lparr>managers := (managers s1)(p \<mapsto> x), mgr_refs := (mgr_refs s1)(p := 1), next_obj := Suc p\<rparr> \<and>
      p = next_obj s1" if "make_manager E s = (let p = next_obj s1 in Inr (p, s1\<lparr>managers := (managers s1)(p \<mapsto> x),
        mgr_refs := (mgr_refs s1)(p := 1), next_obj := Suc p\<rparr>))" for s1 x
    using assms that by (auto simp: Let_def)
  show thesis
  proof (cases "comp_type (config s)")
    case REQUEST
    then show thesis using alloc [of s "Man_req manager_req_new"] that [of "Man_req manager_req_new" "lib s"]
      by (simp add: make_manager_def man_ids_def manager_req_new_def)
  next
    case CONTINUE
    then obtain m s1 where m: "manager_cont_new E s = Inr (m, s1)" and c: "LCW_MPI_USE_CONT (build E)"
      using assms by (auto simp: make_manager_def split: if_splits elim!: bind_resE)
    obtain l where s1: "s1 = s\<lparr>lib := l\<rparr>" using manager_cont_new_state [OF m] by blast
    show thesis using alloc [of s1 "Man_cont m"] that [of "Man_cont m" l] CONTINUE m c s1
      by (simp add: make_manager_def man_ids_def)
  qed
qed

lemma inv_make_manager:
  assumes I: "mpi_inv_by ah rm E view hand s" and m: "make_manager E s = Inr (p, s')"
  shows "mpi_inv_by ah rm E view hand s'" "g_comp_managers s' = g_comp_managers s" "config s' = config s"
    "devices s' = devices s" "next_obj s' > next_obj s"
proof -
  obtain x l where x: "man_ids x = []" "p = next_obj s"
    and s': "s' = s\<lparr>lib := l, managers := (managers s)(p \<mapsto> x), mgr_refs := (mgr_refs s)(p := 1), next_obj := Suc p\<rparr>"
    using m by (rule make_managerE)
  note D = mpi_invD [OF I]
  have none: "managers s p = None" using D(2) x by (simp add: mpi_fresh_def)
  have "mpi_owns view hand s' = (mpi_owns view hand s)(Own_man p := man_ids x)"
    by (rule owns_manager) (simp_all add: s')
  then have "mpi_owns view hand s' = mpi_owns view hand s" using none x by (simp add: fun_eq_iff)
  moreover have "mpi_fresh s'" using D(2) x by (fastforce simp: s' mpi_fresh_def fresh_ok_def less_Suc_eq)
  ultimately show "mpi_inv_by ah rm E view hand s'" by (intro inv_frame [OF I]) (simp_all add: s')
qed (use m in \<open>auto elim!: make_managerE\<close>)

lemma inv_make_managers:
  "mpi_inv_by ah rm E view hand s \<Longrightarrow> make_managers E n s = Inr (ps, s') \<Longrightarrow> mpi_inv_by ah rm E view hand s'"
proof (induction E n s arbitrary: ps s' rule: make_managers.induct)
  case (2 E n s)
  then show ?case by (auto elim!: bind_resE dest: inv_make_manager(1))
qed simp

lemma device_comm_state: "device_comm E s = Inr (st, c, s') \<Longrightarrow> \<exists>l. s' = s\<lparr>lib := l\<rparr>"
  by (auto simp: device_comm_def split: if_splits prod.splits elim!: bind_resE)

lemma inv_device_manager:
  assumes I: "mpi_inv_by ah rm E view hand s" and m: "device_manager E i s = Inr (p, s')"
  shows "mpi_inv_by ah rm E view hand s'" "config s' = config s" "devices s' = devices s" "next_obj s \<le> next_obj s'"
proof -
  have "(make_manager E s = Inr (p, s')) \<or> s' = s\<lparr>mgr_refs := (mgr_refs s)(p := Suc (mgr_refs s p))\<rparr>"
    using m by (auto simp: device_manager_def Let_def split: if_splits)
  then show "mpi_inv_by ah rm E view hand s'" "config s' = config s" "devices s' = devices s" "next_obj s \<le> next_obj s'"
    using inv_make_manager [OF I] inv_core [OF I] by (fastforce simp: core_def)+
qed

lemma inv_bump:
  assumes I: "mpi_inv_by ah rm E view hand s"
  shows "mpi_inv_by ah rm E view hand (s\<lparr>next_obj := Suc (next_obj s), g_ndevices := k, lib := l\<rparr>)" (is "mpi_inv_by _ _ _ _ _ ?s'")
proof (rule inv_frame [OF I])
  show "mpi_owns view hand ?s' = mpi_owns view hand s" by (rule owns_same) simp_all
  show "mpi_fresh ?s'" using mpi_invD(2) [OF I] by (fastforce simp: mpi_fresh_def fresh_ok_def less_Suc_eq)
qed simp_all

text \<open>A new device: nothing is posted on it yet.\<close>

lemma inv_new_device:
  assumes I: "mpi_inv_by ah rm E view hand s" and d: "devices s d = None" "d < next_obj s"
    and dv: "ent_request (put_entry dv) = nullptr"
  shows "mpi_inv_by ah rm E view hand (set_device d dv s)"
proof (rule inv_frame [OF I])
  have "mpi_owns view hand (set_device d dv s) = (mpi_owns view hand s)(Own_put d := (if nullptr = nullptr then [] else [nullptr]))"
    using dv by (intro owns_device) simp_all
  then show "mpi_owns view hand (set_device d dv s) = mpi_owns view hand s" using d by (simp add: fun_eq_iff)
  show "mpi_fresh (set_device d dv s)" using mpi_invD(2) [OF I] d by (auto simp: mpi_fresh_def fresh_ok_def)
qed simp_all

lemma mpi_alloc_deviceE:
  assumes "mpi_alloc_device E mx c s = Inr (d, s')"
  obtains l m s1 buf s2 dv where "d = next_obj s"
    "device_manager E (g_ndevices s) (s\<lparr>next_obj := Suc d, g_ndevices := to_int (g_ndevices s + 1), lib := l\<rparr>) = Inr (m, s1)"
    "vector_resize E (put_rbuf_size dv) s1 = Inr (buf, s2)"
    "put_entry dv = null_entry" "comp_manager_p dv = m" "enable_put dv" "put_rbuf_data dv = buf"
    "put_rbuf_size dv = to_size (if mx > 0 then mx else default_max_put (config s1))"
    "max_tag_2sided dv = to_int (put_tag dv - 1)" "put_tag dv = device_max_tag E (comm dv) l"
    "\<not> stream_lock dv" "\<not> put_entry_lock dv" "dev_id dv = g_ndevices s"
    "post_put_recv E d c (set_device d dv s2) = Inr s'"
proof -
  let ?d = "next_obj s"
  let ?s0 = "s\<lparr>next_obj := Suc ?d, g_ndevices := to_int (g_ndevices s + 1)\<rparr>"
  obtain st cm sa where a: "device_comm E ?s0 = Inr (st, cm, sa)"
    using assms by (auto simp: mpi_alloc_device_def Let_def elim!: bind_resE)
  obtain l0 where l0: "sa = ?s0\<lparr>lib := l0\<rparr>" using device_comm_state [OF a] by blast
  define l where "l = (if MPI_VERSION E \<ge> 3 then MPI_Comm_set_info E cm comm_hints l0 else l0)"
  have b: "(if MPI_VERSION E \<ge> 3 then sa\<lparr>lib := MPI_Comm_set_info E cm comm_hints (lib sa)\<rparr> else sa) = ?s0\<lparr>lib := l\<rparr>"
    by (simp add: l0 l_def)
  obtain m s1 where m: "device_manager E (g_ndevices s) (?s0\<lparr>lib := l\<rparr>) = Inr (m, s1)"
    using assms a b by (auto simp: mpi_alloc_device_def Let_def elim!: bind_resE)
  let ?n = "to_size (if mx > 0 then mx else default_max_put (config s1))"
  let ?t = "device_max_tag E cm l"
  obtain buf s2 where v: "vector_resize E ?n s1 = Inr (buf, s2)"
    using assms a b m by (auto simp: mpi_alloc_device_def Let_def elim!: bind_resE)
  let ?dv = "\<lparr>stream_lock = False, stream = st, dev_id = g_ndevices s, enable_put = True, comm = cm,
      max_tag_2sided = to_int (?t - 1), put_tag = ?t, put_rbuf_data = buf, put_rbuf_size = ?n,
      put_entry = null_entry, put_entry_lock = False, comp_manager_p = m\<rparr>"
  have "d = ?d \<and> post_put_recv E ?d c (set_device ?d ?dv s2) = Inr s'"
    using assms a b m v by (auto simp: mpi_alloc_device_def Let_def elim!: bind_resE)
  then show thesis using that [of l m s1 ?dv buf s2] m v by simp
qed

lemma vector_resize_state:
  "vector_resize E n s = Inr (p, s') \<Longrightarrow> \<exists>b m. s' = s\<lparr>blocks := b, mem := m\<rparr>"
  by (auto simp: vector_resize_def Let_def split: if_splits)

lemma inv_mpi_alloc_device:
  assumes I: "mpi_inv_by ah rm E view hand s" and a: "mpi_alloc_device E mx c s = Inr (d, s')"
  shows "mpi_inv_by ah rm E view hand s'"
  using a
proof (rule mpi_alloc_deviceE)
  fix l m s1 buf s2 dv
  assume d: "d = next_obj s"
    and m: "device_manager E (g_ndevices s) (s\<lparr>next_obj := Suc d, g_ndevices := to_int (g_ndevices s + 1), lib := l\<rparr>) = Inr (m, s1)"
    and v: "vector_resize E (put_rbuf_size dv) s1 = Inr (buf, s2)" and dv: "put_entry dv = null_entry"
    and r: "post_put_recv E d c (set_device d dv s2) = Inr s'"
  note M = inv_device_manager [OF inv_bump [OF I] m [unfolded d]]
  obtain b k where s2: "s2 = s1\<lparr>blocks := b, mem := k\<rparr>" using vector_resize_state [OF v] by blast
  have I2: "mpi_inv_by ah rm E view hand s2" by (rule inv_core [OF M(1)]) (simp add: s2 core_def)
  have none: "devices s2 d = None" "d < next_obj s2"
    using M(3,4) mpi_invD(2) [OF I] by (simp_all add: s2 d mpi_fresh_def)
  have "mpi_inv_by ah rm E view hand (set_device d dv s2)"
    using dv by (intro inv_new_device [OF I2 none]) (simp add: null_entry_def)
  from inv_post_put_recv [OF this r, of dv] show ?thesis using dv by (simp add: put_ids_def null_entry_def)
qed

lemma inv_new_comp:
  assumes I: "mpi_inv_by ah rm E view hand s" and x: "case x of Comp_cq q \<Rightarrow> view q = [] | Comp_handler _ \<Rightarrow> True"
  shows "mpi_inv_by ah rm E view hand (snd (new_comp x s))" (is "mpi_inv_by _ _ _ _ _ ?s'")
proof (rule inv_frame [OF I])
  note D = mpi_invD [OF I]
  have "mpi_owns view hand ?s' = (mpi_owns view hand s)(Own_cq (next_obj s) := [])"
    using owns_comp [of ?s' s "next_obj s" "Some x" view hand] x by (simp add: new_comp_def split: comp_obj.splits)
  then show "mpi_owns view hand ?s' = mpi_owns view hand s" using D(3) by (simp add: fun_eq_iff cq_ids_def)
  show "mpi_fresh ?s'" using D(2) by (fastforce simp: new_comp_def mpi_fresh_def fresh_ok_def less_Suc_eq)
qed (simp_all add: new_comp_def)

lemma inv_mpi_alloc_cq:
  assumes "mpi_inv_by ah rm E view hand s"
  shows "mpi_inv_by ah rm E view hand (snd (mpi_alloc_cq E s))"
  using mpi_invD(1) [OF assms] unfolding mpi_alloc_cq_def util_alloc_cq_def
  by (intro inv_new_comp [OF assms]) (simp add: comp_cq_new_def lct_queue_fifo_def)

lemma inv_util_alloc_handler:
  "mpi_inv_by ah rm E view hand s \<Longrightarrow> mpi_inv_by ah rm E view hand (snd (util_alloc_handler f s))"
  unfolding util_alloc_handler_def by (intro inv_new_comp) simp_all

text \<open>Freeing a completion object that holds no request any more.\<close>

lemma inv_drop_comp:
  assumes I: "mpi_inv_by ah rm E view hand s" and c: "cq_ids view c s = []"
  shows "mpi_inv_by ah rm E view hand (s\<lparr>comps := (comps s)(c := None)\<rparr>)" (is "mpi_inv_by _ _ _ _ _ ?s'")
proof (rule inv_frame [OF I])
  show "mpi_owns view hand ?s' = mpi_owns view hand s"
    using owns_comp [of ?s' s c None view hand] c by (simp add: fun_eq_iff)
  show "mpi_fresh ?s'" using mpi_invD(2) [OF I] by (auto simp: mpi_fresh_def fresh_ok_def)
qed simp_all

lemma inv_util_free_cq:
  assumes I: "mpi_inv_by ah rm E view hand s" and f: "util_free_cq c s = Inr s'" and c: "cq_ids view c s = []"
  shows "mpi_inv_by ah rm E view hand s'"
  using f I inv_drop_comp [OF I c] by (auto simp: util_free_cq_def split: if_splits elim!: bind_resE)

lemma inv_util_free_handler:
  assumes I: "mpi_inv_by ah rm E view hand s" and f: "util_free_handler c s = Inr s'"
  shows "mpi_inv_by ah rm E view hand s'"
proof (cases "c = nullptr")
  case False
  then obtain h where "comps s c = Some (Comp_handler h)" "s' = s\<lparr>comps := (comps s)(c := None)\<rparr>"
    using f by (auto simp: util_free_handler_def deref_eq_Inr split: comp_obj.splits elim!: bind_resE)
  then show ?thesis using inv_drop_comp [OF I, of c] by (simp add: cq_ids_def)
qed (use f I in \<open>simp add: util_free_handler_def\<close>)

lemma inv_util_poll_cq:
  assumes I: "mpi_inv_by ah rm E view hand s" and p: "util_poll_cq E c out s = Inr (b, r, s')"
  shows "mpi_inv_by ah rm E view hand s'"
proof -
  note D = mpi_invD [OF I] and A = acctD [OF mpi_invD(4) [OF I]]
  obtain q where q: "comps s c = Some (Comp_cq q)" and p': "comp_cq_poll E c q out s = Inr (b, r, s')"
    using p by (auto simp: util_poll_cq_def deref_eq_Inr split: comp_obj.splits elim!: bind_resE)
  obtain a q' where a: "LCT_queue_pop E q = (a, q')" by fastforce
  let ?s1 = "s\<lparr>comps := (comps s)(c \<mapsto> Comp_cq q')\<rparr>"
  have own: "mpi_owns view hand s (Own_cq c) = view q" using q by (simp add: cq_ids_def)
  have w: "mpi_owns view hand ?s1 = (mpi_owns view hand s)(Own_cq c := view q')"
    using owns_comp [of ?s1 s c "Some (Comp_cq q')" view hand] by simp
  have fr: "mpi_fresh ?s1" using D(2) q by (auto simp: mpi_fresh_def fresh_ok_def)
  show ?thesis
  proof (cases "view q")
    case Nil
    then have "a = nullptr" "view q' = []" using D(1) a by (auto simp: lct_queue_fifo_def)
    then have "s' = ?s1" "mpi_owns view hand ?s1 = mpi_owns view hand s"
      using p' a w own Nil by (auto simp: comp_cq_poll_def fun_eq_iff)
    then show ?thesis using fr by (intro inv_frame [OF I]) simp_all
  next
    case (Cons x xs)
    then have x: "a = x" "view q' = xs" using D(1) a unfolding lct_queue_fifo_def by force+
    then obtain r0 where r0: "heap s a = Some r0" using acct_live [OF D(4), of a "Own_cq c"] own Cons by auto
    then have nz: "a \<noteq> nullptr" using D(3) by (auto simp: fresh_ok_def)
    then have s': "s' = ?s1\<lparr>heap := (heap s)(a := None)\<rparr>"
      using p' a r0 by (auto simp: comp_cq_poll_def delete_request_def)
    have "acct ah rm ((mpi_owns view hand s)(Own_cq c := xs)) ((heap s)(a := None)) (g_pending_msg s) (g_pending_msg_max (config s))"
      using own Cons x by (intro acct_free [OF D(4) _ r0]) simp_all
    moreover have "mpi_owns view hand s' = (mpi_owns view hand s)(Own_cq c := xs)"
      using owns_same [of s' ?s1 view hand] w x s' by simp
    moreover have "mpi_fresh s'" using fr s' by (auto simp: mpi_fresh_def fresh_ok_def)
    ultimately show ?thesis using D(1) by (simp add: mpi_inv_by_def s')
  qed
qed

text \<open>
  Freeing a device: the request of its posted put receive stays behind without an owner (it is
  neither signalled nor deleted), so it is added to what the invariant lists as held by no object.
\<close>

definition device_quiet :: "ptr \<Rightarrow> ('q, 'm) mpi_st \<Rightarrow> bool" where
  "device_quiet m s \<longleftrightarrow> 1 < mgr_refs s m \<or> map_option man_ids (managers s m) = Some []"

lemma inv_release_manager:
  assumes I: "mpi_inv_by ah rm E view hand s" and r: "release_manager E m s = Inr s'" and q: "device_quiet m s"
  shows "mpi_inv_by ah rm E view hand s'"
proof -
  obtain x where x: "managers s m = Some x" using r by (auto simp: release_manager_def deref_eq_Inr elim!: bind_resE)
  let ?s1 = "s\<lparr>mgr_refs := (mgr_refs s)(m := mgr_refs s m - 1)\<rparr>"
  have I1: "mpi_inv_by ah rm E view hand ?s1" by (rule inv_core [OF I]) (simp add: core_def)
  show ?thesis
  proof (cases "mgr_refs s m - 1 > 0")
    case True
    then show ?thesis using r x I1 by (simp add: release_manager_def)
  next
    case False
    then have none: "man_ids x = []" using q x by (auto simp: device_quiet_def)
    have "s' = ?s1\<lparr>lib := lib s', managers := (managers s)(m := None)\<rparr>"
      using r x False
      by (auto simp: release_manager_def manager_cont_delete_def Let_def split: manager_t.splits if_splits prod.splits
          elim!: bind_resE)
    then obtain l where s': "s' = ?s1\<lparr>lib := l, managers := (managers s)(m := None)\<rparr>" by blast
    show ?thesis
    proof (rule inv_frame [OF I])
      show "mpi_owns view hand s' = mpi_owns view hand s"
      proof (rule ext)
        fix i show "mpi_owns view hand s' i = mpi_owns view hand s i"
          using none x by (cases i) (auto simp: s' cq_ids_def)
      qed
      show "mpi_fresh s'" using mpi_invD(2) [OF I] by (auto simp: s' mpi_fresh_def fresh_ok_def)
    qed (simp_all add: s')
  qed
qed

lemma mpi_free_device_parts:
  assumes f: "mpi_free_device E d s = Inr s'" and dv: "devices s d = Some dv"
  obtains l b where "release_manager E (comp_manager_p dv) (s\<lparr>lib := l, devices := (devices s)(d := None), blocks := b\<rparr>) = Inr s'"
proof -
  obtain e1 l1 where 1: "(if dev_id dv \<noteq> 0 then MPI_Comm_free E (comm dv) (lib s) else (MPI_SUCCESS, lib s)) = (e1, l1)"
    by (rule prod.exhaust)
  obtain e2 l2 where 2: "(if LCW_MPI_USE_STREAM (build E) \<and> use_stream (config s)
      then MPIX_Stream_free E (stream dv) l1 else (MPI_SUCCESS, l1)) = (e2, l2)" by (rule prod.exhaust)
  show thesis using f dv 1 2 that [of _ l2] by (auto simp: mpi_free_device_def split: if_split_asm elim!: bind_resE)
qed

lemma inv_mpi_free_device:
  assumes I: "mpi_inv_by ah rm E view hand s" and f: "mpi_free_device E d s = Inr s'" and dv: "devices s d = Some dv"
    and q: "device_quiet (comp_manager_p dv) s"
  shows "mpi_inv_by ah rm E view (put_ids dv @ hand) s'"
proof -
  obtain l b where r: "release_manager E (comp_manager_p dv) (s\<lparr>lib := l, devices := (devices s)(d := None), blocks := b\<rparr>) = Inr s'"
    using f dv by (rule mpi_free_device_parts)
  let ?s1 = "s\<lparr>lib := l, devices := (devices s)(d := None), blocks := b\<rparr>" and ?h = "put_ids dv @ hand"
  note D = mpi_invD [OF I]
  have "mpi_owns view ?h ?s1 i = ((mpi_owns view hand s)(Own_put d := [], Own_hand := ?h)) i" for i
    by (cases i) (auto simp: cq_ids_def)
  then have w: "mpi_owns view ?h ?s1 = (mpi_owns view hand s)(Own_put d := [], Own_hand := ?h)" ..
  have "acct ah rm (mpi_owns view ?h ?s1) (heap s) (g_pending_msg s) (g_pending_msg_max (config s))"
  proof (cases "put_ids dv")
    case Nil
    then show ?thesis using D(4) owns_put [OF dv, of view hand] w by (simp add: fun_upd_idem)
  next
    case (Cons p xs)
    then have "put_ids dv = [p]" by (auto simp: put_ids_def Let_def split: if_splits)
    then show ?thesis unfolding w using owns_put [OF dv, of view hand] by (intro acct_move [OF D(4), where p = p]) auto
  qed
  then have "mpi_inv_by ah rm E view ?h ?s1" using D(1,2) by (auto simp: mpi_inv_by_def mpi_fresh_def fresh_ok_def)
  then show ?thesis by (rule inv_release_manager [OF _ r]) (use q in \<open>simp add: device_quiet_def\<close>)
qed

end
