(* ===== verification/LCW_Mpi_Reach.thy ===== *)
theory LCW_Mpi_Reach
  imports LCW_Mpi_Safety
begin

text \<open>
  Programs over the MPI backend: any sequence of its operations after \<^verbatim>\<open>initialize\<close>, as an inductive
  relation, and what holds in every state such a program can reach.
\<close>

section \<open>Reachable states\<close>

text \<open>The backend before \<^verbatim>\<open>initialize\<close>: the values the globals and the heap start with.\<close>

definition mpi_start :: "('q, 'm) mpi_st \<Rightarrow> bool" where
  "mpi_start s \<longleftrightarrow>
     heap s = Map.empty \<and> comps s = Map.empty \<and> 0 < next_obj s \<and> g_pending_msg s = 0 \<and>
     g_comp_managers s = [] \<and> devices s = Map.empty \<and> managers s = Map.empty \<and> centries s = Map.empty"

text \<open>
  \<open>lost\<close> collects the requests of the put receives that were still posted when their device was
  freed. A device is freed only when its completion manager has nothing outstanding or outlives
  it, and a completion queue only when it is empty; between calls the application may write any
  memory and choose another allocator.
\<close>

inductive mpi_reach ::
  "('q, 'm) mpi_env \<Rightarrow> ('q \<Rightarrow> ptr list) \<Rightarrow> (string \<rightharpoonup> string) \<Rightarrow> ('q, 'm) mpi_st \<Rightarrow> ptr list \<Rightarrow> ('q, 'm) mpi_st \<Rightarrow> bool"
  for E view getenv s0 where
  initialize: "mpi_initialize E getenv s0 = Inr s \<Longrightarrow> mpi_reach E view getenv s0 [] s"
| alloc_device: "mpi_reach E view getenv s0 lost s \<Longrightarrow> mpi_alloc_device E n c s = Inr (d, s') \<Longrightarrow>
    mpi_reach E view getenv s0 lost s'"
| free_device: "mpi_reach E view getenv s0 lost s \<Longrightarrow> devices s d = Some dv \<Longrightarrow>
    device_quiet (comp_manager_p dv) s \<Longrightarrow> mpi_free_device E d s = Inr s' \<Longrightarrow>
    mpi_reach E view getenv s0 (put_ids dv @ lost) s'"
| do_progress: "mpi_reach E view getenv s0 lost s \<Longrightarrow> mpi_do_progress E d s = Inr (b, s') \<Longrightarrow>
    mpi_reach E view getenv s0 lost s'"
| send: "mpi_reach E view getenv s0 lost s \<Longrightarrow> mpi_send E d rank tag buf len c ctx s = Inr (b, s') \<Longrightarrow>
    mpi_reach E view getenv s0 lost s'"
| recv: "mpi_reach E view getenv s0 lost s \<Longrightarrow> mpi_recv E d rank tag buf len c ctx s = Inr (b, s') \<Longrightarrow>
    mpi_reach E view getenv s0 lost s'"
| put: "mpi_reach E view getenv s0 lost s \<Longrightarrow> mpi_put E d rank buf len c ctx s = Inr (b, s') \<Longrightarrow>
    mpi_reach E view getenv s0 lost s'"
| barrier: "mpi_reach E view getenv s0 lost s \<Longrightarrow> mpi_barrier E d s = Inr s' \<Longrightarrow>
    mpi_reach E view getenv s0 lost s'"
| alloc_cq: "mpi_reach E view getenv s0 lost s \<Longrightarrow> mpi_alloc_cq E s = (c, s') \<Longrightarrow>
    mpi_reach E view getenv s0 lost s'"
| poll_cq: "mpi_reach E view getenv s0 lost s \<Longrightarrow> util_poll_cq E c out s = Inr (b, r, s') \<Longrightarrow>
    mpi_reach E view getenv s0 lost s'"
| free_cq: "mpi_reach E view getenv s0 lost s \<Longrightarrow> cq_ids view c s = [] \<Longrightarrow> util_free_cq c s = Inr s' \<Longrightarrow>
    mpi_reach E view getenv s0 lost s'"
| alloc_handler: "mpi_reach E view getenv s0 lost s \<Longrightarrow> util_alloc_handler f s = (c, s') \<Longrightarrow>
    mpi_reach E view getenv s0 lost s'"
| free_handler: "mpi_reach E view getenv s0 lost s \<Longrightarrow> util_free_handler c s = Inr s' \<Longrightarrow>
    mpi_reach E view getenv s0 lost s'"
| application: "mpi_reach E view getenv s0 lost s \<Longrightarrow>
    mpi_reach E view getenv s0 lost (s\<lparr>mem := m, blocks := bs, m_allocator := al\<rparr>)"

lemma inv_start:
  assumes "lct_queue_fifo E view" and "mpi_start s" and "g_pending_msg_max (config s) < int_max"
  shows "mpi_inv E view [] s"
proof -
  have "mpi_owns view [] s = (\<lambda>_. [])"
  proof
    fix i show "mpi_owns view [] s i = []" using assms(2) by (cases i) (simp_all add: mpi_start_def cq_ids_def)
  qed
  then show ?thesis using assms
    by (simp add: mpi_inv_by_def mpi_fresh_def fresh_ok_def mpi_start_def acct_def partitioned_def pend_def)
qed

lemma mpi_read_config_max:
  "mpi_read_config E getenv c = Inr c' \<Longrightarrow>
   g_pending_msg_max c' = env_int (getenv ''LCW_MPI_MAX_PENDING_MSG'') (g_pending_msg_max c)"
  by (auto simp: mpi_read_config_def Let_def elim!: bind_resE)

lemma inv_mpi_initialize:
  assumes fifo: "lct_queue_fifo E view" and s0: "mpi_start s0"
    and mx: "env_int (getenv ''LCW_MPI_MAX_PENDING_MSG'') (g_pending_msg_max (config s0)) < int_max"
    and i: "mpi_initialize E getenv s0 = Inr s"
  shows "mpi_inv E view [] s"
proof -
  obtain l rk nr c where e: "MPI_Init_thread E (lib s0) = (MPI_SUCCESS, MPI_THREAD_MULTIPLE, l)"
    "MPI_Comm_rank E (MPI_COMM_WORLD E) l = (MPI_SUCCESS, rk)" "MPI_Comm_size E (MPI_COMM_WORLD E) l = (MPI_SUCCESS, nr)"
    and c: "mpi_read_config E getenv (config s0) = Inr c"
    using i by (auto simp: mpi_initialize_def Let_def split: prod.splits elim!: bind_resE)
  let ?s1 = "s0\<lparr>lib := l, g_rank := rk, g_nranks := nr, config := c\<rparr>"
  have I1: "mpi_inv E view [] ?s1"
    using s0 mx mpi_read_config_max [OF c] by (intro inv_start [OF fifo]) (simp_all add: mpi_start_def)
  show ?thesis
  proof (cases "g_num_comp_managers c = 0")
    case True
    then show ?thesis using i e c I1 by (simp add: mpi_initialize_def)
  next
    case False
    then obtain ps s2 where m: "make_managers E (nat (g_num_comp_managers c)) ?s1 = Inr (ps, s2)"
      and s: "s = s2\<lparr>g_comp_managers := ps\<rparr>"
      using i e c by (auto simp: mpi_initialize_def split: if_splits elim!: bind_resE)
    show ?thesis by (rule inv_core [OF inv_make_managers [OF I1 m]]) (simp add: s core_def)
  qed
qed

lemma reach_inv:
  assumes "lct_queue_fifo E view" and "mpi_start s0"
    and "env_int (getenv ''LCW_MPI_MAX_PENDING_MSG'') (g_pending_msg_max (config s0)) < int_max"
    and "mpi_reach E view getenv s0 lost s"
  shows "mpi_inv E view lost s"
  using assms(4)
proof (induction rule: mpi_reach.induct)
  case (initialize s)
  show ?case by (rule inv_mpi_initialize [OF assms(1-3) initialize])
next
  case (barrier lost s d s')
  then obtain l where "s' = s\<lparr>lib := l\<rparr>" by (auto simp: mpi_barrier_def split: prod.splits elim!: bind_resE)
  then show ?case using inv_core [OF barrier.IH, of s'] by (simp add: core_def)
next
  case (alloc_cq lost s c s')
  then show ?case using inv_mpi_alloc_cq [OF alloc_cq.IH] by simp
next
  case (alloc_handler lost s f c s')
  then show ?case using inv_util_alloc_handler [OF alloc_handler.IH, of f] by simp
next
  case (application lost s m bs al)
  show ?case by (rule inv_core [OF application.IH]) (simp add: core_def)
qed (blast intro: inv_mpi_alloc_device inv_mpi_free_device inv_mpi_do_progress inv_mpi_send inv_mpi_recv
  inv_mpi_put inv_util_poll_cq inv_util_free_cq inv_util_free_handler)+

section \<open>A program over the reference MPI\<close>

definition ref_getenv :: "string \<rightharpoonup> string" where
  "ref_getenv = [''LCW_MPI_MAX_PENDING_MSG'' \<mapsto> ''2'']"

definition ref_start :: "(ptr list, ref_lib) mpi_st" where
  "ref_start = ref_mpi_st (mpi_config_default (ref_mpi ref_build))"

text \<open>One queue and one device; then one send in flight.\<close>

definition ref_setup :: "(ptr \<times> ptr \<times> (ptr list, ref_lib) mpi_st) res" where
  "ref_setup =
     bind_res (mpi_initialize (ref_mpi ref_build) ref_getenv ref_start) (\<lambda>s.
       let (c, s) = mpi_alloc_cq (ref_mpi ref_build) s
       in bind_res (mpi_alloc_device (ref_mpi ref_build) 64 c s) (\<lambda>(d, s). Inr (c, d, s)))"

definition ref_program :: "(ptr list, ref_lib) mpi_st res" where
  "ref_program =
     bind_res ref_setup (\<lambda>(c, d, s).
     bind_res (mpi_send (ref_mpi ref_build) d 1 5 4096 8 c 0 s) (\<lambda>(_, s). Inr s))"

text \<open>What the device looks like after the setup.\<close>

definition ref_device_ok :: "ptr \<Rightarrow> ptr \<Rightarrow> (ptr list, ref_lib) mpi_st \<Rightarrow> bool" where
  "ref_device_ok c d s =
     (case devices s d of None \<Rightarrow> False
      | Some dv \<Rightarrow> enable_put dv \<and> \<not> put_entry_lock dv \<and> \<not> stream_lock dv \<and> mpi_req (put_entry dv) = Mpi_request 1 \<and>
          completion (put_entry dv) = c \<and> put_rbuf_size dv = 64 \<and>
          (case managers s (comp_manager_p dv) of Some (Man_req x) \<Rightarrow> entries x = [] \<and> \<not> req_lock x | _ \<Rightarrow> False) \<and>
          (case heap s (ent_request (put_entry dv)) of Some r \<Rightarrow>
             req_buffer r = put_rbuf_data dv \<and> req_op r = PUT_SIGNAL \<and> req_device r = d | _ \<Rightarrow> False))"

lemma ref_setup_runs:
  "case ref_setup of Inl _ \<Rightarrow> False | Inr (c, d, s) \<Rightarrow>
     ref_device_ok c d s \<and> g_pending_msg s = 0 \<and> g_pending_msg_max (config s) = 2 \<and> comps s c = Some (Comp_cq [])"
  by code_simp

lemma ref_setup_reach: "ref_setup = Inr (c, d, s) \<Longrightarrow> mpi_reach (ref_mpi ref_build) (\<lambda>q. q) ref_getenv ref_start [] s"
proof -
  assume "ref_setup = Inr (c, d, s)"
  then obtain s1 s2 where "mpi_initialize (ref_mpi ref_build) ref_getenv ref_start = Inr s1"
    "mpi_alloc_cq (ref_mpi ref_build) s1 = (c, s2)" "mpi_alloc_device (ref_mpi ref_build) 64 c s2 = Inr (d, s)"
    by (auto simp: ref_setup_def Let_def split: prod.splits elim!: bind_resE)
  then show ?thesis by (intro mpi_reach.alloc_device [OF mpi_reach.alloc_cq [OF mpi_reach.initialize]])
qed

lemma ref_program_reach: "ref_program = Inr s \<Longrightarrow> mpi_reach (ref_mpi ref_build) (\<lambda>q. q) ref_getenv ref_start [] s"
proof -
  assume "ref_program = Inr s"
  then obtain c d s1 b where "ref_setup = Inr (c, d, s1)" "mpi_send (ref_mpi ref_build) d 1 5 4096 8 c 0 s1 = Inr (b, s)"
    by (auto simp: ref_program_def elim!: bind_resE)
  then show ?thesis by (intro mpi_reach.send [OF ref_setup_reach])
qed

lemma ref_program_runs:
  "case ref_program of Inl _ \<Rightarrow> False | Inr s \<Rightarrow> g_pending_msg s = 1 \<and> g_pending_msg_max (config s) = 2"
  by code_simp

lemma ref_start_start: "mpi_start ref_start"
  by (simp add: ref_start_def mpi_start_def)

lemma ref_start_max:
  "env_int (ref_getenv ''LCW_MPI_MAX_PENDING_MSG'') (g_pending_msg_max (config ref_start)) < int_max"
  by code_simp

section \<open>What holds in every reachable state\<close>

text \<open>In every state a program over the MPI backend can reach, each \<^verbatim>\<open>request_t\<close> on the heap has exactly
  one owner (the put receive of one device, one entry of one completion manager, one MPI
  continuation, one place in one completion queue, or the list of those lost by freeing a device
  with a posted receive) and every request an owner holds is live: none is leaked otherwise, none
  can be deleted twice and none is used after deletion.\<close>

theorem mpi_requests_have_one_owner:
  assumes "lct_queue_fifo E view" and "mpi_start s0"
    and "env_int (getenv ''LCW_MPI_MAX_PENDING_MSG'') (g_pending_msg_max (config s0)) < int_max"
    and "mpi_reach E view getenv s0 lost s"
  shows "partitioned (mpi_owns view lost s) (dom (heap s))"
  by (rule acctD(1) [OF mpi_invD(4) [OF reach_inv [OF assms]]])

theorem mpi_requests_have_one_owner_witness:
  "\<exists>s. ref_program = Inr s \<and> partitioned (mpi_owns (\<lambda>q. q) [] s) (dom (heap s))"
proof -
  obtain s where s: "ref_program = Inr s" using ref_program_runs by (auto split: sum.splits)
  show ?thesis
    using mpi_requests_have_one_owner [OF ref_mpi_fifo ref_start_start ref_start_max ref_program_reach [OF s]] s
    by blast
qed

text \<open>C9: In every state a program over the MPI backend can reach with throttling enabled, the counter
  \<^verbatim>\<open>g_pending_msg\<close> is exactly the number of sends and puts that are posted and not yet signalled,
  and it never exceeds \<^verbatim>\<open>LCW_MPI_MAX_PENDING_MSG\<close> by more than one (so it never wraps).\<close>

theorem mpi_pending_counter_exact:
  assumes "lct_queue_fifo E view" and "mpi_start s0"
    and "env_int (getenv ''LCW_MPI_MAX_PENDING_MSG'') (g_pending_msg_max (config s0)) < int_max"
    and "mpi_reach E view getenv s0 lost s" and "g_pending_msg_max (config s) > 0"
  shows "g_pending_msg s = int (card (pend (mpi_owns view lost s) (heap s))) \<and>
    g_pending_msg s \<le> g_pending_msg_max (config s) + 1"
  using acctD(5,6) [OF mpi_invD(4) [OF reach_inv [OF assms(1-4)]] assms(5)] by simp_all

theorem mpi_pending_counter_exact_witness:
  "\<exists>s. ref_program = Inr s \<and> 1 = int (card (pend (mpi_owns (\<lambda>q. q) [] s) (heap s)))"
proof -
  obtain s where s: "ref_program = Inr s" "g_pending_msg s = 1" "g_pending_msg_max (config s) = 2"
    using ref_program_runs by (auto split: sum.splits)
  show ?thesis
    using mpi_pending_counter_exact [OF ref_mpi_fifo ref_start_start ref_start_max ref_program_reach [OF s(1)]] s
    by force
qed

end
