(* ===== verification/LCW_Mpi_Calls.thy ===== *)
theory LCW_Mpi_Calls
  imports LCW_Mpi_Reach
begin

text \<open>
  What the communication calls of the MPI backend do, on every branch, when MPI itself does not
  fail: a send, receive or put is either refused by the throttle without any effect or posted
  once and queued at the completion manager, the stream lock is released, and the tag of puts
  is never one a two-sided operation may use.
\<close>

section \<open>MPI calls that succeed\<close>

text \<open>
  \<^verbatim>\<open>MPI_SAFECALL\<close> aborts on a failing MPI call; what follows is about the calls that succeed. Without
  continuations attached, MPI has no callback to run.
\<close>

definition mpi_calls_succeed :: "('q, 'm) mpi_env \<Rightarrow> bool" where
  "mpi_calls_succeed E \<longleftrightarrow>
     (\<forall>a n t r g c m l. fst (MPI_Isend E a n t r g c m l) = MPI_SUCCESS \<and>
                        fst (MPI_Irecv E a n t r g c m l) = MPI_SUCCESS) \<and>
     (\<forall>r m l. t_err (MPI_Test E r m l) = MPI_SUCCESS \<and> t_callbacks (MPI_Test E r m l) = []) \<and>
     (\<forall>st. fst (MPI_Get_count E st MPI_CHAR) = MPI_SUCCESS)"

lemma mpi_calls_succeedD:
  assumes "mpi_calls_succeed E"
  shows "fst (MPI_Isend E a n t r g c m l) = MPI_SUCCESS" "fst (MPI_Irecv E a n t r g c m l) = MPI_SUCCESS"
    "t_err (MPI_Test E q m l) = MPI_SUCCESS" "t_callbacks (MPI_Test E q m l) = []"
    "fst (MPI_Get_count E st MPI_CHAR) = MPI_SUCCESS"
  using assms by (simp_all add: mpi_calls_succeed_def)

lemma ref_mpi_calls_succeed: "mpi_calls_succeed (ref_mpi B)"
  by (simp add: mpi_calls_succeed_def ref_post_def ref_test_def split: option.splits mpi_request.splits)

text \<open>The stream lock of a device can be taken, or there is none to take.\<close>

definition stream_free :: "('q, 'm) mpi_env \<Rightarrow> ptr \<Rightarrow> ('q, 'm) mpi_st \<Rightarrow> bool" where
  "stream_free E d s \<longleftrightarrow>
     LCW_MPI_USE_STREAM (build E) \<and> use_stream (config s) \<longrightarrow> (\<exists>dv. devices s d = Some dv \<and> \<not> stream_lock dv)"

lemma enter_stream_free: "stream_free E d s \<Longrightarrow> \<exists>s1. enter_stream_cs E d s = Inr s1"
  by (auto simp: stream_free_def enter_stream_cs_def)

lemma enter_stream_taken:
  assumes e: "enter_stream_cs E d s = Inr s1" and True: "LCW_MPI_USE_STREAM (build E) \<and> use_stream (config s)"
  obtains dv where "devices s d = Some dv" "\<not> stream_lock dv" "s1 = set_device d (dv\<lparr>stream_lock := True\<rparr>) s"
proof -
  obtain dv where dv: "devices s d = Some dv" using e True by (cases "devices s d") (auto simp: enter_stream_cs_def)
  have "\<not> stream_lock dv" using e True dv by (cases "stream_lock dv") (auto simp: enter_stream_cs_def)
  then show thesis using that [OF dv] e True dv by (simp add: enter_stream_cs_def)
qed

lemma stream_round_trip:
  assumes "enter_stream_cs E d s = Inr s1"
  shows "leave_stream_cs E d (s1\<lparr>mem := m, trace := t, lib := l\<rparr>) = Inr (s\<lparr>mem := m, trace := t, lib := l\<rparr>)"
proof (cases "LCW_MPI_USE_STREAM (build E) \<and> use_stream (config s)")
  case True
  obtain dv where dv: "devices s d = Some dv" "\<not> stream_lock dv"
    and s1: "s1 = set_device d (dv\<lparr>stream_lock := True\<rparr>) s"
    using assms True by (rule enter_stream_taken)
  have eq: "dv\<lparr>stream_lock := False\<rparr> = dv" and triv: "(devices s)(d \<mapsto> dv) = devices s" using dv by auto
  have "leave_stream_cs E d (s1\<lparr>mem := m, trace := t, lib := l\<rparr>) =
      Inr (s\<lparr>mem := m, trace := t, lib := l, devices := (devices s)(d \<mapsto> dv\<lparr>stream_lock := False\<rparr>)\<rparr>)"
    using True by (simp add: leave_stream_cs_def s1 set_device_def)
  then show ?thesis unfolding eq triv by simp
next
  case False
  then show ?thesis using assms by (auto simp: enter_stream_cs_def leave_stream_cs_def)
qed

lemma enter_stream_fields:
  assumes "enter_stream_cs E d s = Inr s1"
  shows "heap s1 = heap s" "comps s1 = comps s" "next_obj s1 = next_obj s" "mem s1 = mem s" "blocks s1 = blocks s"
    "trace s1 = trace s" "lib s1 = lib s" "config s1 = config s" "managers s1 = managers s"
    "g_pending_msg s1 = g_pending_msg s"
  using assms by (auto simp: enter_stream_cs_def set_device_def split: if_splits elim!: bind_resE)

lemma stream_round_trip':
  assumes "enter_stream_cs E d s = Inr s1"
  shows "leave_stream_cs E d (s1\<lparr>trace := t, lib := l\<rparr>) = Inr (s\<lparr>trace := t, lib := l\<rparr>)"
proof -
  have a: "s1\<lparr>mem := mem s1, trace := t, lib := l\<rparr> = s1\<lparr>trace := t, lib := l\<rparr>"
    and b: "s\<lparr>mem := mem s1, trace := t, lib := l\<rparr> = s\<lparr>trace := t, lib := l\<rparr>"
    using enter_stream_fields(4) [OF assms] by simp_all
  show ?thesis using stream_round_trip [OF assms, where m = "mem s1" and t = t and l = l] unfolding a b .
qed

lemma posting_state:
  assumes "enter_stream_cs E d s = Inr s1" and "leave_stream_cs E d s2 = Inr s3"
    and "isend E a n rk tg c s1 = Inr (q, s2) \<or> irecv E a n rk tg c s1 = Inr (q, s2)"
  shows "\<exists>t l. s3 = s\<lparr>trace := t, lib := l\<rparr>"
proof -
  obtain t l where "s2 = s1\<lparr>trace := t, lib := l\<rparr>" 
    using assms(3) isend_state [of E a n rk tg c s1 q s2] irecv_state [of E a n rk tg c s1 q s2] by blast
  then have "leave_stream_cs E d s2 = Inr (s\<lparr>trace := t, lib := l\<rparr>)"
    using stream_round_trip' [OF assms(1)] by simp
  then show ?thesis using assms(2) by auto
qed

section \<open>Posting\<close>

definition message_size :: "int \<Rightarrow> bool" where
  "message_size n \<longleftrightarrow> 0 \<le> n \<and> n < int_max * int_max"

lemma message_size_to_size: "message_size n \<Longrightarrow> to_size n = n"
  by (simp add: message_size_def int_max_square)

lemma choose_type_succeeds: "message_size n \<Longrightarrow> \<exists>dt k t. choose_type n s = Inr (dt, k, s\<lparr>trace := t\<rparr>)"
proof (cases "n \<le> int_max")
  case True
  assume "message_size n"
  then have "choose_type n s = Inr (MPI_BYTE, n, s\<lparr>trace := trace s\<rparr>)"
    using choose_type_small [of n s] True by (simp add: message_size_def)
  then show ?thesis by blast
next
  case False
  assume "message_size n"
  then show ?thesis using choose_type_big [of n s] False by (auto simp: message_size_def)
qed

lemma isend_succeeds:
  assumes E: "mpi_calls_succeed E" and n: "message_size n"
  shows "\<exists>q s'. isend E a n rk tg c s = Inr (q, s')" "\<exists>q s'. irecv E a n rk tg c s = Inr (q, s')"
proof -
  obtain dt k t where t: "choose_type n s = Inr (dt, k, s\<lparr>trace := t\<rparr>)" using choose_type_succeeds [OF n] by blast
  show "\<exists>q s'. isend E a n rk tg c s = Inr (q, s')"
    using mpi_calls_succeedD(1) [OF E, of a k dt rk tg c "mem s" "lib s"] t
    by (cases "MPI_Isend E a k dt rk tg c (mem s) (lib s)") (simp add: isend_def)
  show "\<exists>q s'. irecv E a n rk tg c s = Inr (q, s')"
    using mpi_calls_succeedD(2) [OF E, of a k dt rk tg c "mem s" "lib s"] t
    by (cases "MPI_Irecv E a k dt rk tg c (mem s) (lib s)") (simp add: irecv_def)
qed

lemma manager_req_add_entry_free:
  assumes "managers s m = Some (Man_req x)" and "\<not> req_lock x"
  shows "manager_req_add_entry m e s = Inr (set_manager m (Man_req (x\<lparr>entries := entries x @ [e]\<rparr>)) s)"
proof -
  have eq: "x\<lparr>entries := entries x @ [e], req_lock := False\<rparr> = x\<lparr>entries := entries x @ [e]\<rparr>"
    using assms(2) by simp
  show ?thesis using assms
    by (simp add: eq manager_req_add_entry_def get_manager_req_def spin_lock_def spin_unlock_def Let_def)
qed

text \<open>
  \<open>queued m x e s s'\<close>: besides MPI's own state and the trace, the one difference between \<open>s\<close> and
  \<open>s'\<close> is that the entry \<open>e\<close> is the last one of the manager at \<open>m\<close>.
\<close>

definition queued :: "ptr \<Rightarrow> manager_req_t \<Rightarrow> entry_t \<Rightarrow> ('q, 'm) mpi_st \<Rightarrow> ('q, 'm) mpi_st \<Rightarrow> bool" where
  "queued m x e s s' \<longleftrightarrow>
     (\<exists>t l. s' = s\<lparr>trace := t, lib := l, managers := (managers s)(m \<mapsto> Man_req (x\<lparr>entries := entries x @ [e]\<rparr>))\<rparr>)"

lemma post_entry_succeeds:
  assumes E: "mpi_calls_succeed E" and free: "stream_free E d s" and m: "managers s m = Some (Man_req x)" "\<not> req_lock x"
    and n: "message_size n" and f: "f = isend E a n rk tg c \<or> f = irecv E a n rk tg c"
  shows "\<exists>q s1 s2 s'. f s1 = Inr (q, s2) \<and> lib s1 = lib s \<and> mem s1 = mem s \<and>
           post_entry E d f m e s = Inr (True, s') \<and> queued m x (e\<lparr>mpi_req := q\<rparr>) s s'"
proof -
  obtain s1 where s1: "enter_stream_cs E d s = Inr s1" using enter_stream_free [OF free] by blast
  note F = enter_stream_fields [OF s1]
  obtain q s2 where s2: "f s1 = Inr (q, s2)"
    using isend_succeeds [OF E n, of a rk tg c s1] f by blast
  then obtain t l where tl: "s2 = s1\<lparr>trace := t, lib := l\<rparr>"
    using f isend_state [of E a n rk tg c s1 q s2] irecv_state [of E a n rk tg c s1 q s2] by blast
  have s3: "leave_stream_cs E d s2 = Inr (s\<lparr>trace := t, lib := l\<rparr>)"
    using stream_round_trip' [OF s1] tl by simp
  let ?s' = "set_manager m (Man_req (x\<lparr>entries := entries x @ [e\<lparr>mpi_req := q\<rparr>]\<rparr>)) (s\<lparr>trace := t, lib := l\<rparr>)"
  have "manager_add_entry E m (e\<lparr>mpi_req := q\<rparr>) (s\<lparr>trace := t, lib := l\<rparr>) = Inr ?s'"
    using m manager_req_add_entry_free [of "s\<lparr>trace := t, lib := l\<rparr>" m x] by (simp add: manager_add_entry_def)
  then have "post_entry E d f m e s = Inr (True, ?s')"
    using s1 s2 s3 by (simp add: post_entry_def)
  moreover have "queued m x (e\<lparr>mpi_req := q\<rparr>) s ?s'"
    unfolding queued_def set_manager_def by (intro exI [of _ t] exI [of _ l]) simp
  ultimately show ?thesis using s2 F by blast
qed

section \<open>The calls\<close>

text \<open>
  \<open>posted f r m x d c s res\<close>: the call made the one MPI call \<open>f\<close> (with MPI and memory as in \<open>s\<close>),
  returned \<^verbatim>\<open>true\<close>, and put an entry for it with the new request \<open>r\<close> at the end of the queue of
  manager \<open>m\<close>; nothing else changed.
\<close>

definition posted ::
  "(('q, 'm) mpi_st \<Rightarrow> (mpi_request \<times> ('q, 'm) mpi_st) res) \<Rightarrow> request_t \<Rightarrow> ptr \<Rightarrow> manager_req_t \<Rightarrow> ptr \<Rightarrow> ptr \<Rightarrow>
   ('q, 'm) mpi_st \<Rightarrow> (bool \<times> ('q, 'm) mpi_st) res \<Rightarrow> bool" where
  "posted f r m x d c s res \<longleftrightarrow>
     (\<exists>q s1 s2 s'. f s1 = Inr (q, s2) \<and> lib s1 = lib s \<and> mem s1 = mem s \<and> res = Inr (True, s') \<and>
        queued m x \<lparr>mpi_req = q, ent_device = d, completion = c, ent_request = next_obj s\<rparr>
          (s\<lparr>heap := (heap s)(next_obj s \<mapsto> r), next_obj := Suc (next_obj s)\<rparr>) s')"

lemma posted_post_entry:
  assumes E: "mpi_calls_succeed E" and free: "stream_free E d s" and m: "managers s m = Some (Man_req x)" "\<not> req_lock x"
    and n: "message_size n" and f: "f = isend E a n rk tg cm \<or> f = irecv E a n rk tg cm"
  shows "posted f r m x d c s (post_entry E d f m (new_entry d c (next_obj s)) (snd (new_request r s)))"
proof -
  have "stream_free E d (snd (new_request r s))" "managers (snd (new_request r s)) m = Some (Man_req x)"
    using free m by (simp_all add: stream_free_def)
  from post_entry_succeeds [OF E this m(2) n f, of "new_entry d c (next_obj s)"] show ?thesis
    by (auto simp: posted_def new_entry_def new_request_def)
qed

lemma throttle_cases:
  "throttle s =
     (if g_pending_msg_max (config s) > 0 \<and> g_pending_msg s > g_pending_msg_max (config s) then None
      else Some (s\<lparr>g_pending_msg :=
        (if g_pending_msg_max (config s) > 0 then to_int (g_pending_msg s + 1) else g_pending_msg s)\<rparr>))"
  by (simp add: throttle_def add_pending_def)

text \<open>A send with a message size MPI can express is refused by the throttle with no effect at all, or
  returns \<^verbatim>\<open>true\<close> having posted exactly one MPI send with the caller's buffer, length, rank and
  tag on the device's communicator, and having appended one entry for it (with a new request
  carrying the caller's arguments) to the queue of the device's completion manager; nothing
  else of the state changes but the pending counter.\<close>

theorem mpi_send_posts_once:
  assumes "mpi_calls_succeed E" and "devices s d = Some dv" and "stream_free E d s"
    and "managers s (comp_manager_p dv) = Some (Man_req x)" and "\<not> req_lock x" and "message_size len"
  shows "if g_pending_msg_max (config s) > 0 \<and> g_pending_msg s > g_pending_msg_max (config s)
         then mpi_send E d rank tag buf len c ctx s = Inr (False, s)
         else posted (isend E buf len (to_int rank) (to_int tag) (comm dv))
                \<lparr>req_op = SEND, req_device = d, req_rank = rank, req_tag = tag, req_buffer = buf,
                 req_length = len, req_user_context = ctx\<rparr> (comp_manager_p dv) x d c
                (s\<lparr>g_pending_msg := (if g_pending_msg_max (config s) > 0 then to_int (g_pending_msg s + 1) else g_pending_msg s)\<rparr>)
                (mpi_send E d rank tag buf len c ctx s)"
  using assms posted_post_entry [OF assms(1) _ _ assms(5,6) disjI1 [OF refl], of d
      "s\<lparr>g_pending_msg := (if g_pending_msg_max (config s) > 0 then to_int (g_pending_msg s + 1) else g_pending_msg s)\<rparr>"
      "comp_manager_p dv" buf "to_int rank" "to_int tag" "comm dv"]
  by (simp add: mpi_send_eq throttle_cases message_size_to_size stream_free_def)

text \<open>A receive with a message size MPI can express is never refused: it returns \<^verbatim>\<open>true\<close> having posted
  exactly one MPI receive with the caller's buffer, length, rank and tag and queued one entry
  for it at the device's completion manager; nothing else of the state changes.\<close>

theorem mpi_recv_posts_once:
  assumes "mpi_calls_succeed E" and "devices s d = Some dv" and "stream_free E d s"
    and "managers s (comp_manager_p dv) = Some (Man_req x)" and "\<not> req_lock x" and "message_size len"
  shows "posted (irecv E buf len (to_int rank) (to_int tag) (comm dv))
           \<lparr>req_op = RECV, req_device = d, req_rank = rank, req_tag = tag, req_buffer = buf,
            req_length = len, req_user_context = ctx\<rparr> (comp_manager_p dv) x d c s
           (mpi_recv E d rank tag buf len c ctx s)"
  using assms posted_post_entry [OF assms(1) assms(3-6) disjI2 [OF refl]]
  by (simp add: mpi_recv_eq message_size_to_size)

text \<open>A put is refused by the throttle with no effect, or posts exactly one MPI send on the device's
  reserved put tag and queues one entry for it; nothing else of the state changes but the
  pending counter.\<close>

theorem mpi_put_posts_once:
  assumes "mpi_calls_succeed E" and "devices s d = Some dv" and "enable_put dv" and "stream_free E d s"
    and "managers s (comp_manager_p dv) = Some (Man_req x)" and "\<not> req_lock x" and "message_size len"
  shows "if g_pending_msg_max (config s) > 0 \<and> g_pending_msg s > g_pending_msg_max (config s)
         then mpi_put E d rank buf len c ctx s = Inr (False, s)
         else posted (isend E buf len (to_int rank) (to_int (put_tag dv)) (comm dv))
                \<lparr>req_op = PUT, req_device = d, req_rank = rank, req_tag = put_tag dv, req_buffer = buf,
                 req_length = len, req_user_context = ctx\<rparr> (comp_manager_p dv) x d c
                (s\<lparr>g_pending_msg := (if g_pending_msg_max (config s) > 0 then to_int (g_pending_msg s + 1) else g_pending_msg s)\<rparr>)
                (mpi_put E d rank buf len c ctx s)"
  using assms posted_post_entry [OF assms(1) _ _ assms(6,7) disjI1 [OF refl], of d
      "s\<lparr>g_pending_msg := (if g_pending_msg_max (config s) > 0 then to_int (g_pending_msg s + 1) else g_pending_msg s)\<rparr>"
      "comp_manager_p dv" buf "to_int rank" "to_int (put_tag dv)" "comm dv"]
  by (simp add: mpi_put_eq throttle_cases message_size_to_size stream_free_def)

section \<open>Tags\<close>

text \<open>The MPI standard: the attribute \<^verbatim>\<open>MPI_TAG_UB\<close> is an \<^verbatim>\<open>int\<close> of at least 32767.\<close>

definition mpi_tag_ub_ok :: "('q, 'm) mpi_env \<Rightarrow> bool" where
  "mpi_tag_ub_ok E \<longleftrightarrow> (\<forall>cm l ub. MPI_Comm_get_tag_ub E cm l = Some ub \<longrightarrow> 32767 \<le> ub \<and> ub \<le> int_max)"

lemma post_put_recv_state:
  assumes "post_put_recv E d c s = Inr s'" and "devices s d = Some dv"
  shows "\<exists>q r t l. req_op r = PUT_SIGNAL \<and> req_device r = d \<and> req_buffer r = put_rbuf_data dv \<and>
    s' = s\<lparr>heap := (heap s)(next_obj s \<mapsto> r), next_obj := Suc (next_obj s), trace := t, lib := l,
      devices := (devices s)(d \<mapsto> dv\<lparr>put_entry := \<lparr>mpi_req = q, ent_device = d, completion = c, ent_request = next_obj s\<rparr>\<rparr>)\<rparr>"
proof -
  define r where "r = \<lparr>req_op = PUT_SIGNAL, req_device = d, req_rank = - 1, req_tag = put_tag dv,
            req_buffer = put_rbuf_data dv, req_length = to_int64 (put_rbuf_size dv), req_user_context = nullptr\<rparr>"
  obtain s1 q s2 s3 dv1 where p: "enter_stream_cs E d (snd (new_request r s)) = Inr s1"
    "irecv E (put_rbuf_data dv) (to_size (to_int64 (put_rbuf_size dv))) (MPI_ANY_SOURCE E)
       (to_int (put_tag dv)) (comm dv) s1 = Inr (q, s2)"
    "leave_stream_cs E d s2 = Inr s3" "devices s3 d = Some dv1"
    "s' = set_device d (dv1\<lparr>put_entry := \<lparr>mpi_req = q, ent_device = d, completion = c, ent_request = next_obj s\<rparr>\<rparr>) s3"
    using assms unfolding post_put_recv_def
    by (auto simp: r_def new_request_def Let_def deref_eq_Inr elim!: bind_resE)
  obtain t l where s3: "s3 = (snd (new_request r s))\<lparr>trace := t, lib := l\<rparr>"
    using posting_state [OF p(1,3) disjI2 [OF p(2)]] by blast
  then have "dv1 = dv" using p(4) assms(2) by simp
  then show ?thesis using s3 p(5)
    by (intro exI [of _ q] exI [of _ r] exI [of _ t] exI [of _ l]) (simp add: set_device_def new_request_def r_def)
qed


section \<open>Instances\<close>

lemma ref_setup_device:
  obtains c d s dv x where "ref_setup = Inr (c, d, s)" "devices s d = Some dv" "enable_put dv" "\<not> put_entry_lock dv"
    "mpi_req (put_entry dv) = Mpi_request 1" "completion (put_entry dv) = c"
    "managers s (comp_manager_p dv) = Some (Man_req x)" "\<not> req_lock x" "entries x = []" "comps s c = Some (Comp_cq [])"
    "g_pending_msg s = 0" "g_pending_msg_max (config s) = 2" "stream_free (ref_mpi ref_build) d s"
    "\<exists>r. heap s (ent_request (put_entry dv)) = Some r \<and> req_buffer r = put_rbuf_data dv \<and>
       req_op r = PUT_SIGNAL \<and> req_device r = d" "put_rbuf_size dv = 64"
proof -
  have st: "stream_free (ref_mpi ref_build) d s" for d s by (simp add: stream_free_def ref_build_def)
  obtain c d s where s: "ref_setup = Inr (c, d, s)" "ref_device_ok c d s" "comps s c = Some (Comp_cq [])"
    "g_pending_msg s = 0" "g_pending_msg_max (config s) = 2"
    using ref_setup_runs by (auto split: sum.splits)
  obtain dv x r where "devices s d = Some dv" "managers s (comp_manager_p dv) = Some (Man_req x)"
    "heap s (ent_request (put_entry dv)) = Some r" "enable_put dv" "\<not> put_entry_lock dv"
    "mpi_req (put_entry dv) = Mpi_request 1" "completion (put_entry dv) = c" "\<not> req_lock x" "entries x = []"
    "req_buffer r = put_rbuf_data dv" "req_op r = PUT_SIGNAL" "req_device r = d" "put_rbuf_size dv = 64"
    using s(2) unfolding ref_device_ok_def by (auto split: option.splits manager_t.splits)
  then show thesis using that [OF s(1)] s st by blast
qed

theorem mpi_send_posts_once_witness:
  "\<exists>c d s s'. ref_setup = Inr (c, d, s) \<and> mpi_send (ref_mpi ref_build) d 1 5 4096 8 c 0 s = Inr (True, s')"
proof (rule ref_setup_device)
  fix c d s dv x
  assume s: "ref_setup = Inr (c, d, s)" and m: "g_pending_msg s = 0" "g_pending_msg_max (config s) = 2"
    and h: "devices s d = Some dv" "stream_free (ref_mpi ref_build) d s" "managers s (comp_manager_p dv) = Some (Man_req x)" "\<not> req_lock x"
  from mpi_send_posts_once [OF ref_mpi_calls_succeed h, of 8 1 5 4096 c 0]
  show ?thesis using s m by (auto simp: message_size_def int_max_def posted_def)
qed

theorem mpi_recv_posts_once_witness:
  "\<exists>c d s s'. ref_setup = Inr (c, d, s) \<and> mpi_recv (ref_mpi ref_build) d 1 5 4096 8 c 0 s = Inr (True, s')"
proof (rule ref_setup_device)
  fix c d s dv x
  assume s: "ref_setup = Inr (c, d, s)"
    and h: "devices s d = Some dv" "stream_free (ref_mpi ref_build) d s" "managers s (comp_manager_p dv) = Some (Man_req x)" "\<not> req_lock x"
  from mpi_recv_posts_once [OF ref_mpi_calls_succeed h, of 8 4096 1 5 0 c]
  show ?thesis using s by (auto simp: message_size_def int_max_def posted_def)
qed

theorem mpi_put_posts_once_witness:
  "\<exists>c d s s'. ref_setup = Inr (c, d, s) \<and> mpi_put (ref_mpi ref_build) d 1 4096 8 c 0 s = Inr (True, s')"
proof (rule ref_setup_device)
  fix c d s dv x
  assume s: "ref_setup = Inr (c, d, s)" and m: "g_pending_msg s = 0" "g_pending_msg_max (config s) = 2"
    and h: "devices s d = Some dv" "enable_put dv" "stream_free (ref_mpi ref_build) d s" "managers s (comp_manager_p dv) = Some (Man_req x)" "\<not> req_lock x"
  from mpi_put_posts_once [OF ref_mpi_calls_succeed h, of 8 1 4096 c 0]
  show ?thesis using s m by (auto simp: message_size_def int_max_def posted_def)
qed


end
