(* ===== verification/LCW_Mpi_Progress.thy ===== *)
theory LCW_Mpi_Progress
  imports LCW_Mpi_Calls
begin

text \<open>
  What progress achieves: an arrived put is copied out, delivered to the device's completion
  object and its receive posted again, and the round-robin of \<^verbatim>\<open>manager_req_t\<close> signals every
  completed operation within one round over its queue.
\<close>

section \<open>Signalling\<close>

text \<open>
  \<open>notified E c r s s'\<close>: the completion object \<open>c\<close> has been given the request \<open>r\<close>, as the newest
  element of a queue or as the argument of the last handler call.
\<close>

definition notified :: "('q, 'm) mpi_env \<Rightarrow> ptr \<Rightarrow> request_t \<Rightarrow> ('q, 'm) mpi_st \<Rightarrow> ('q, 'm) mpi_st \<Rightarrow> bool" where
  "notified E c r s s' \<longleftrightarrow>
     (case comps s c of
        Some (Comp_cq q) \<Rightarrow> \<exists>k. comps s' c = Some (Comp_cq (LCT_queue_push E q k)) \<and> heap s' k = Some r
      | Some (Comp_handler f) \<Rightarrow> trace s' \<noteq> [] \<and> last (trace s') = Handler_call f r
      | None \<Rightarrow> False)"

lemma fresh_ok_Suc:
  assumes f: "fresh_ok s" and h: "dom (heap s') \<subseteq> insert (next_obj s) (dom (heap s))"
    and c: "dom (comps s') \<subseteq> insert (next_obj s) (dom (comps s))" and n: "next_obj s' = Suc (next_obj s)"
  shows "fresh_ok s'"
proof -
  have lt: "0 < p \<and> p < Suc (next_obj s)" if "p \<in> insert (next_obj s) A" "\<forall>p\<in>A. 0 < p \<and> p < next_obj s" for p A
    using that fresh_ok_next(3) [OF f] by auto
  show ?thesis using f h c unfolding fresh_ok_def n by (meson lt subsetD zero_less_Suc)
qed

lemma fresh_ok_same:
  "fresh_ok s \<Longrightarrow> dom (heap s') \<subseteq> dom (heap s) \<Longrightarrow> dom (comps s') \<subseteq> dom (comps s) \<Longrightarrow> next_obj s' = next_obj s \<Longrightarrow>
   fresh_ok s'"
  unfolding fresh_ok_def by (metis subsetD)

lemma signal_comp_ok:
  assumes r: "heap s (ent_request e) = Some r" and c: "comps s (completion e) = Some cm" and f: "fresh_ok s"
  shows "\<exists>s'. signal_comp E e s = Inr s' \<and> notified E (completion e) r s s' \<and> heap s' (ent_request e) = None \<and>
     (\<forall>p. p \<noteq> ent_request e \<longrightarrow> p < next_obj s \<longrightarrow> heap s' p = heap s p) \<and>
     (\<forall>k. comps s' k = None \<longleftrightarrow> comps s k = None) \<and> fresh_ok s'"
proof -
  have ne: "next_obj s \<noteq> ent_request e" using r fresh_ok_next(1) [OF f] by auto
  obtain s' where s': "signal_comp E e s = Inr s'"
    using r c by (cases cm) (auto simp: signal_comp_def util_signal_comp_def comp_cq_signal_def new_request_def
        comp_handler_signal_def Let_def)
  have "notified E (completion e) r s s' \<and> heap s' (ent_request e) = None \<and>
     (\<forall>p. p \<noteq> ent_request e \<longrightarrow> p < next_obj s \<longrightarrow> heap s' p = heap s p) \<and>
     (\<forall>k. comps s' k = None \<longleftrightarrow> comps s k = None) \<and> fresh_ok s'"
    using s'
  proof (rule signal_compE)
    fix r' t h k n
    assume "heap s (ent_request e) = Some r'"
      and s: "s' = (signal_account E (req_op r') s)\<lparr>trace := t, heap := h, comps := k, next_obj := n\<rparr>"
      and out: "(\<exists>q. comps s (completion e) = Some (Comp_cq q) \<and>
          h = ((heap s)(next_obj s \<mapsto> r'))(ent_request e := None) \<and>
          k = (comps s)(completion e \<mapsto> Comp_cq (LCT_queue_push E q (next_obj s))) \<and>
          n = Suc (next_obj s) \<and> t = trace (signal_account E (req_op r') s)) \<or>
        (\<exists>f. comps s (completion e) = Some (Comp_handler f) \<and>
          h = (heap s)(ent_request e := None) \<and> k = comps s \<and> n = next_obj s \<and>
          t = trace (signal_account E (req_op r') s) @ [Handler_call f r'])"
    have [simp]: "r' = r" using r \<open>heap s (ent_request e) = Some r'\<close> by simp
    from out show ?thesis
    proof (elim disjE exE conjE)
      fix q assume q: "comps s (completion e) = Some (Comp_cq q)"
        "h = ((heap s)(next_obj s \<mapsto> r'))(ent_request e := None)"
        "k = (comps s)(completion e \<mapsto> Comp_cq (LCT_queue_push E q (next_obj s)))" "n = Suc (next_obj s)"
      then have "fresh_ok s'" 
        by (intro fresh_ok_Suc [OF f]) (auto simp: s)
      then show ?thesis using q ne by (auto simp: s notified_def)
    next
      fix g assume q: "comps s (completion e) = Some (Comp_handler g)" "h = (heap s)(ent_request e := None)"
        "k = comps s" "n = next_obj s" "t = trace (signal_account E (req_op r') s) @ [Handler_call g r']"
      then have "fresh_ok s'" 
        by (intro fresh_ok_same [OF f]) (auto simp: s)
      then show ?thesis using q by (simp add: s notified_def)
    qed
  qed
  then show ?thesis using s' by blast
qed

lemma mpi_test_ok:
  assumes "mpi_calls_succeed E"
  shows "mpi_test E q s = (let t = MPI_Test E q (mem s) (lib s)
           in Inr (t_flag t, t_status t, t_req t, s\<lparr>mem := t_mem t, lib := t_lib t\<rparr>))"
  using mpi_calls_succeedD(3,4) [OF assms] by (simp add: mpi_test_def Let_def)

lemma stream_round_trip_put:
  assumes e: "enter_stream_cs E d s = Inr s1" and dv: "devices s d = Some dv"
  shows "\<exists>dv1. devices s1 d = Some dv1 \<and> put_entry dv1 = put_entry dv \<and>
    leave_stream_cs E d (set_device d (dv1\<lparr>put_entry := x\<rparr>) (s1\<lparr>mem := m, lib := l\<rparr>)) =
    Inr (set_device d (dv\<lparr>put_entry := x\<rparr>) (s\<lparr>mem := m, lib := l\<rparr>))"
proof (cases "LCW_MPI_USE_STREAM (build E) \<and> use_stream (config s)")
  case True
  then have lk: "\<not> stream_lock dv" and s1: "s1 = s\<lparr>devices := (devices s)(d \<mapsto> dv\<lparr>stream_lock := True\<rparr>)\<rparr>"
    using e dv by (auto simp: enter_stream_cs_def set_device_def spin_lock_def split: if_splits)
  have eq: "dv\<lparr>stream_lock := True, put_entry := x, stream_lock := False\<rparr> = dv\<lparr>put_entry := x\<rparr>" using lk by simp
  have "leave_stream_cs E d (set_device d (dv\<lparr>stream_lock := True, put_entry := x\<rparr>) (s1\<lparr>mem := m, lib := l\<rparr>)) =
      Inr (set_device d (dv\<lparr>stream_lock := True, put_entry := x, stream_lock := False\<rparr>) (s\<lparr>mem := m, lib := l\<rparr>))"
    using True by (simp add: leave_stream_cs_def s1 set_device_def)
  then show ?thesis unfolding eq by (intro exI [of _ "dv\<lparr>stream_lock := True\<rparr>"]) (simp add: s1)
next
  case False
  then show ?thesis using e dv by (auto simp: enter_stream_cs_def leave_stream_cs_def)
qed

section \<open>Puts\<close>

lemma post_put_recv_succeeds:
  assumes E: "mpi_calls_succeed E" and dv: "devices s d = Some dv" and free: "stream_free E d s"
    and n: "message_size (put_rbuf_size dv)"
  shows "\<exists>s'. post_put_recv E d c s = Inr s'"
proof -
  define r where "r = \<lparr>req_op = PUT_SIGNAL, req_device = d, req_rank = - 1, req_tag = put_tag dv,
            req_buffer = put_rbuf_data dv, req_length = to_int64 (put_rbuf_size dv), req_user_context = nullptr\<rparr>"
  let ?s0 = "snd (new_request r s)"
  have sz: "to_size (to_int64 (put_rbuf_size dv)) = put_rbuf_size dv"
    using n by (simp add: message_size_def int_max_square is_int64_def)
  have "stream_free E d ?s0" using free by (simp add: stream_free_def)
  then obtain s1 where s1: "enter_stream_cs E d ?s0 = Inr s1" using enter_stream_free by blast
  obtain q s2 where s2: "irecv E (put_rbuf_data dv) (put_rbuf_size dv) (MPI_ANY_SOURCE E) (to_int (put_tag dv))
      (comm dv) s1 = Inr (q, s2)" using isend_succeeds(2) [OF E n] by blast
  obtain t l where "s2 = s1\<lparr>trace := t, lib := l\<rparr>" using irecv_state [OF s2] by blast
  then have "leave_stream_cs E d s2 = Inr (?s0\<lparr>trace := t, lib := l\<rparr>)" using stream_round_trip' [OF s1] by simp
  then show ?thesis using dv s1 s2 sz
    by (simp add: post_put_recv_def r_def [symmetric] new_request_def Let_def)
qed

lemma put_completed_ok:
  assumes E: "mpi_calls_succeed E" and dv: "devices s d = Some dv" and free: "stream_free E d s"
    and sz: "message_size (put_rbuf_size dv)"
    and n: "MPI_Get_count E st MPI_CHAR = (MPI_SUCCESS, n)" "0 \<le> n" "is_int n"
    and r: "heap s (ent_request e) = Some r" "req_op r = PUT_SIGNAL" "req_device r = d"
    and buf: "allocate E (m_allocator s) n (blocks s) = buf" "buf \<noteq> nullptr"
  shows "\<exists>q r' t l. req_op r' = PUT_SIGNAL \<and> req_device r' = d \<and> req_buffer r' = put_rbuf_data dv \<and>
    put_completed E e st s = Inr (s\<lparr>blocks := (buf, nat n) # blocks s,
      mem := memcpy buf (req_buffer r) (nat n) (mem s),
      heap := ((heap s)(ent_request e \<mapsto> r\<lparr>req_length := n, req_tag := MPI_TAG st, req_rank := MPI_SOURCE st,
        req_buffer := buf\<rparr>))(next_obj s \<mapsto> r'), next_obj := Suc (next_obj s), trace := t, lib := l,
      devices := (devices s)(d \<mapsto> dv\<lparr>put_entry := \<lparr>mpi_req = q, ent_device = d, completion = completion e,
        ent_request = next_obj s\<rparr>\<rparr>)\<rparr>)"
proof -
  let ?p = "ent_request e"
  let ?r1 = "r\<lparr>req_length := n, req_tag := MPI_TAG st, req_rank := MPI_SOURCE st\<rparr>"
  let ?s2 = "s\<lparr>blocks := (buf, nat n) # blocks s, mem := memcpy buf (req_buffer r) (nat n) (mem s),
    heap := (heap s)(?p \<mapsto> ?r1\<lparr>req_buffer := buf\<rparr>)\<rparr>"
  have ns: "to_size n = n" using n by (simp add: is_int_def)
  have cp: "set_received E ?p st s = Inr (s\<lparr>heap := (heap s)(?p \<mapsto> ?r1)\<rparr>)"
    using r n by (simp add: set_received_def)
  have co: "copy_out E ?p (s\<lparr>heap := (heap s)(?p \<mapsto> ?r1)\<rparr>) = Inr ?s2"
    using r buf ns by (simp add: copy_out_def Let_def)
  have d2: "devices ?s2 d = Some dv" "stream_free E d ?s2" using dv free by (simp_all add: stream_free_def)
  obtain s3 where s3: "post_put_recv E d (completion e) ?s2 = Inr s3"
    using post_put_recv_succeeds [OF E d2 sz] by blast
  then have "put_completed E e st s = Inr s3" using cp co r(3) by (simp add: put_completed_def)
  then show ?thesis using post_put_recv_state [OF s3 d2(1)] by auto
qed


section \<open>The round-robin of the request manager\<close>

text \<open>MPI leaves the handle of a request whose test fails as it is.\<close>

definition test_keeps_handle :: "('q, 'm) mpi_env \<Rightarrow> bool" where
  "test_keeps_handle E \<longleftrightarrow> (\<forall>q m l. \<not> t_flag (MPI_Test E q m l) \<longrightarrow> t_req (MPI_Test E q m l) = q)"

text \<open>A manager whose outstanding operations can all be completed: nobody holds its lock, and the
  completion objects of its entries exist.\<close>

definition entry_ok :: "('q, 'm) mpi_env \<Rightarrow> ('q, 'm) mpi_st \<Rightarrow> entry_t \<Rightarrow> bool" where
  "entry_ok E s e \<longleftrightarrow> mpi_req e \<noteq> MPI_REQUEST_NULL \<and> stream_free E (ent_device e) s \<and> comps s (completion e) \<noteq> None \<and>
     (\<exists>r. heap s (ent_request e) = Some r \<and> req_op r \<noteq> PUT_SIGNAL)"

definition serviceable :: "('q, 'm) mpi_env \<Rightarrow> ptr \<Rightarrow> manager_req_t \<Rightarrow> ('q, 'm) mpi_st \<Rightarrow> bool" where
  "serviceable E m x s \<longleftrightarrow>
     managers s m = Some (Man_req x) \<and> \<not> req_lock x \<and> distinct (map ent_request (entries x)) \<and>
     distinct (map mpi_req (entries x)) \<and> list_all (entry_ok E s) (entries x) \<and> fresh_ok s"

lemma manager_req_test_ok:
  assumes E: "mpi_calls_succeed E" and q: "mpi_req e \<noteq> MPI_REQUEST_NULL" and free: "stream_free E (ent_device e) s"
    and T: "MPI_Test E (mpi_req e) (mem s) (lib s) = T"
  shows "manager_req_test E e s =
    Inr (t_flag T, Some (t_status T), e\<lparr>mpi_req := t_req T\<rparr>, s\<lparr>mem := t_mem T, lib := t_lib T\<rparr>)"
proof -
  obtain s1 where s1: "enter_stream_cs E (ent_device e) s = Inr s1" using enter_stream_free [OF free] by blast
  note F = enter_stream_fields [OF s1]
  have a: "s1\<lparr>mem := t_mem T, trace := trace s1, lib := t_lib T\<rparr> = s1\<lparr>mem := t_mem T, lib := t_lib T\<rparr>"
    and b: "s\<lparr>mem := t_mem T, trace := trace s1, lib := t_lib T\<rparr> = s\<lparr>mem := t_mem T, lib := t_lib T\<rparr>"
    using F(6) by simp_all
  have "leave_stream_cs E (ent_device e) (s1\<lparr>mem := t_mem T, lib := t_lib T\<rparr>) = Inr (s\<lparr>mem := t_mem T, lib := t_lib T\<rparr>)"
    using stream_round_trip [OF s1, where m = "t_mem T" and t = "trace s1" and l = "t_lib T"] unfolding a b .
  then show ?thesis using q s1 T F by (simp add: manager_req_test_def mpi_test_ok [OF E] Let_def)
qed

text \<open>One call on the front entry, when it is not complete and when it is.\<close>

lemma manager_step_again:
  assumes E: "mpi_calls_succeed E" "test_keeps_handle E" and S: "serviceable E m x s" and x: "entries x = e # rest"
    and T: "\<not> t_flag (MPI_Test E (mpi_req e) (mem s) (lib s))"
  shows "\<exists>s'. manager_req_do_progress E m s = Inr (False, s') \<and> serviceable E m (x\<lparr>entries := rest @ [e]\<rparr>) s' \<and>
    heap s' = heap s \<and> lib s' = t_lib (MPI_Test E (mpi_req e) (mem s) (lib s))"
proof -
  let ?T = "MPI_Test E (mpi_req e) (mem s) (lib s)"
  let ?xl = "x\<lparr>req_lock := True, entries := rest\<rparr>" and ?x' = "x\<lparr>entries := rest @ [e]\<rparr>"
  let ?s0 = "set_manager m (Man_req ?xl) s"
  let ?s' = "set_manager m (Man_req ?x') (?s0\<lparr>mem := t_mem ?T, lib := t_lib ?T\<rparr>)"
  have m: "managers s m = Some (Man_req x)" "\<not> req_lock x" and e: "entry_ok E s e"
    using S x by (simp_all add: serviceable_def)
  have st: "stream_free E (ent_device e) ?s0" using e by (simp add: entry_ok_def stream_free_def)
  have "manager_req_test E e ?s0 = Inr (False, Some (t_status ?T), e, ?s0\<lparr>mem := t_mem ?T, lib := t_lib ?T\<rparr>)"
    using manager_req_test_ok [OF E(1) _ st, of ?T] e T E(2) by (simp add: entry_ok_def test_keeps_handle_def)
  moreover have eq: "x\<lparr>entries := rest @ [e], req_lock := False\<rparr> = ?x'" using m(2) by simp
  ultimately have "manager_req_do_progress E m s = Inr (False, ?s')"
    using m x by (simp add: manager_req_do_progress_def get_manager_req_def Let_def eq)
  moreover have "serviceable E m ?x' ?s'"
    using S x by (auto simp: serviceable_def entry_ok_def stream_free_def list_all_iff fresh_ok_def)
  ultimately show ?thesis by (intro exI [of _ ?s']) simp
qed

text \<open>The request an operation completes with: a receive learns its actual length, tag and source.\<close>

definition completed_request :: "('q, 'm) mpi_env \<Rightarrow> mpi_status \<Rightarrow> request_t \<Rightarrow> request_t" where
  "completed_request E st r =
     (if req_op r = RECV
      then r\<lparr>req_length := snd (MPI_Get_count E st MPI_CHAR), req_tag := MPI_TAG st, req_rank := MPI_SOURCE st\<rparr>
      else r)"

lemma manager_req_complete_ok:
  assumes E: "mpi_calls_succeed E" and r: "heap s (ent_request e) = Some r" "req_op r \<noteq> PUT_SIGNAL"
    and c: "comps s (completion e) \<noteq> None" and f: "fresh_ok s"
  shows "\<exists>s'. manager_req_complete E e (Some st) s = Inr s' \<and> notified E (completion e) (completed_request E st r) s s' \<and>
     heap s' (ent_request e) = None \<and> (\<forall>p. p \<noteq> ent_request e \<longrightarrow> p < next_obj s \<longrightarrow> heap s' p = heap s p) \<and>
     (\<forall>k. comps s' k = None \<longleftrightarrow> comps s k = None) \<and> fresh_ok s' \<and>
     managers s' = managers s \<and> devices s' = devices s \<and> config s' = config s \<and> lib s' = lib s"
proof -
  let ?s1 = "s\<lparr>heap := (heap s)(ent_request e \<mapsto> completed_request E st r)\<rparr>"
  obtain cm where cm: "comps ?s1 (completion e) = Some cm" using c by auto
  have "fresh_ok ?s1" using r by (intro fresh_ok_same [OF f]) auto
  then obtain s' where s': "signal_comp E e ?s1 = Inr s'" "notified E (completion e) (completed_request E st r) ?s1 s'"
    "heap s' (ent_request e) = None" "\<forall>p. p \<noteq> ent_request e \<longrightarrow> p < next_obj s \<longrightarrow> heap s' p = heap s p"
    "\<forall>k. comps s' k = None \<longleftrightarrow> comps s k = None" "fresh_ok s'"
    using signal_comp_ok [of ?s1 e "completed_request E st r" cm E] cm by auto
  have "manager_req_complete E e (Some st) s = Inr s'"
  proof (cases "req_op r = RECV")
    case True
    then have "set_received E (ent_request e) st s = Inr ?s1"
      using r mpi_calls_succeedD(5) [OF E, of st]
      by (cases "MPI_Get_count E st MPI_CHAR") (simp add: set_received_def completed_request_def)
    then show ?thesis using True r s'(1) by (simp add: manager_req_complete_def)
  next
    case False
    then have "?s1 = s" using r by (simp add: completed_request_def fun_upd_idem)
    then show ?thesis using False r s'(1) by (simp add: manager_req_complete_def)
  qed
  moreover have "notified E (completion e) (completed_request E st r) s s'" using s'(2) by (simp add: notified_def)
  ultimately show ?thesis using s' signal_comp_frame [OF s'(1)] by auto
qed

lemma manager_step_done:
  assumes E: "mpi_calls_succeed E" and S: "serviceable E m x s" and x: "entries x = e # rest"
    and T: "MPI_Test E (mpi_req e) (mem s) (lib s) = T" "t_flag T" and r: "heap s (ent_request e) = Some r"
  shows "\<exists>s'. manager_req_do_progress E m s = Inr (True, s') \<and> serviceable E m (x\<lparr>entries := rest\<rparr>) s' \<and>
    notified E (completion e) (completed_request E (t_status T) r) s s' \<and> heap s' (ent_request e) = None \<and>
    (\<forall>e'\<in>set rest. heap s' (ent_request e') = heap s (ent_request e')) \<and> lib s' = t_lib T"
proof -
  let ?xl = "x\<lparr>req_lock := True, entries := rest\<rparr>" and ?x' = "x\<lparr>entries := rest\<rparr>"
  let ?s0 = "set_manager m (Man_req ?xl) s" and ?e = "e\<lparr>mpi_req := t_req T\<rparr>"
  let ?s1 = "set_manager m (Man_req ?x') (?s0\<lparr>mem := t_mem T, lib := t_lib T\<rparr>)"
  have m: "managers s m = Some (Man_req x)" "\<not> req_lock x" and e: "entry_ok E s e" and f: "fresh_ok s"
    and rest: "\<forall>e'\<in>set rest. entry_ok E s e'"
    using S x by (auto simp: serviceable_def list_all_iff)
  have "ent_request e \<notin> ent_request ` set rest" using S x by (simp add: serviceable_def)
  then have d: "\<forall>e'\<in>set rest. ent_request e' \<noteq> ent_request e" by (metis image_eqI)
  have st: "stream_free E (ent_device e) ?s0" using e by (simp add: entry_ok_def stream_free_def)
  have t: "manager_req_test E e ?s0 = Inr (True, Some (t_status T), ?e, ?s0\<lparr>mem := t_mem T, lib := t_lib T\<rparr>)"
    using manager_req_test_ok [OF E _ st, of T] e T by (simp add: entry_ok_def)
  have eq: "x\<lparr>entries := rest, req_lock := False\<rparr> = ?x'" using m(2) by simp
  have "fresh_ok ?s1" using f by (simp add: fresh_ok_def)
  then obtain s' where s': "manager_req_complete E ?e (Some (t_status T)) ?s1 = Inr s'"
    "notified E (completion ?e) (completed_request E (t_status T) r) ?s1 s'" "heap s' (ent_request e) = None"
    "\<forall>p. p \<noteq> ent_request e \<longrightarrow> p < next_obj s \<longrightarrow> heap s' p = heap s p" "\<forall>k. comps s' k = None \<longleftrightarrow> comps s k = None"
    "fresh_ok s'" "managers s' = managers ?s1" "devices s' = devices s" "config s' = config s" "lib s' = t_lib T"
    using manager_req_complete_ok [OF E, of ?s1 ?e r "t_status T"] e r by (auto simp: entry_ok_def)
  have same: "heap s' (ent_request e') = heap s (ent_request e')" if "e' \<in> set rest" for e'
  proof -
    have "ent_request e' < next_obj s" using rest that f by (fastforce simp: entry_ok_def fresh_ok_def)
    then show ?thesis using s'(4) d that by blast
  qed
  have "manager_req_do_progress E m s = Inr (True, s')"
    using m x t s'(1) by (simp add: manager_req_do_progress_def get_manager_req_def Let_def eq)
  moreover have "serviceable E m ?x' s'"
    using S x s'(5-9) rest same by (auto simp: serviceable_def entry_ok_def stream_free_def list_all_iff)
  ultimately show ?thesis using s'(2,3,10) same by (intro exI [of _ s']) (simp add: notified_def)
qed

text \<open>\<open>n\<close> calls of \<^verbatim>\<open>do_progress\<close>.\<close>

fun poll_manager :: "('q, 'm) mpi_env \<Rightarrow> ptr \<Rightarrow> nat \<Rightarrow> ('q, 'm) mpi_st \<Rightarrow> ('q, 'm) mpi_st res" where
  "poll_manager E m 0 s = Inr s"
| "poll_manager E m (Suc n) s = bind_res (manager_req_do_progress E m s) (\<lambda>(_, s). poll_manager E m n s)"

text \<open>
  What MPI promises of completion: an operation that is complete with status \<open>st\<close> is found so by
  the next test of its request, and testing another request does not change that.
\<close>

definition mpi_completion :: "('q, 'm) mpi_env \<Rightarrow> (mpi_request \<Rightarrow> mpi_status \<Rightarrow> 'm \<Rightarrow> bool) \<Rightarrow> bool" where
  "mpi_completion E complete \<longleftrightarrow>
     (\<forall>q st m l. complete q st l \<longrightarrow> t_flag (MPI_Test E q m l) \<and> t_status (MPI_Test E q m l) = st) \<and>
     (\<forall>q q' st m l. complete q st l \<longrightarrow> q' \<noteq> q \<longrightarrow> complete q st (t_lib (MPI_Test E q' m l)))"

lemma manager_step_any:
  assumes E: "mpi_calls_succeed E" "test_keeps_handle E" and S: "serviceable E m x s" and x: "entries x = e0 # rest"
    and e: "i < length rest"
  shows "\<exists>b s1 x1. manager_req_do_progress E m s = Inr (b, s1) \<and> serviceable E m x1 s1 \<and> i < length (entries x1) \<and>
      entries x1 ! i = rest ! i \<and> heap s1 (ent_request (rest ! i)) = heap s (ent_request (rest ! i)) \<and>
      lib s1 = t_lib (MPI_Test E (mpi_req e0) (mem s) (lib s))"
proof (cases "t_flag (MPI_Test E (mpi_req e0) (mem s) (lib s))")
  case True
  obtain r0 where r0: "heap s (ent_request e0) = Some r0" using S x by (auto simp: serviceable_def entry_ok_def)
  obtain s1 where "manager_req_do_progress E m s = Inr (True, s1)" "serviceable E m (x\<lparr>entries := rest\<rparr>) s1"
    "\<forall>e'\<in>set rest. heap s1 (ent_request e') = heap s (ent_request e')"
    "lib s1 = t_lib (MPI_Test E (mpi_req e0) (mem s) (lib s))"
    using manager_step_done [OF E(1) S x refl True r0] by blast
  then show ?thesis using e by (intro exI [of _ True] exI [of _ s1] exI [of _ "x\<lparr>entries := rest\<rparr>"]) auto
next
  case False
  obtain s1 where "manager_req_do_progress E m s = Inr (False, s1)" "serviceable E m (x\<lparr>entries := rest @ [e0]\<rparr>) s1"
    "heap s1 = heap s" "lib s1 = t_lib (MPI_Test E (mpi_req e0) (mem s) (lib s))"
    using manager_step_again [OF E S x False] by blast
  then show ?thesis using e
    by (intro exI [of _ False] exI [of _ s1] exI [of _ "x\<lparr>entries := rest @ [e0]\<rparr>"]) (simp add: nth_append)
qed

lemma manager_reaches:
  assumes "mpi_calls_succeed E" and "test_keeps_handle E" and C: "mpi_completion E complete"
  shows "serviceable E m x s \<Longrightarrow> i < length (entries x) \<Longrightarrow> e = entries x ! i \<Longrightarrow> complete (mpi_req e) st (lib s) \<Longrightarrow>
    \<exists>s' x' rest. poll_manager E m i s = Inr s' \<and> serviceable E m x' s' \<and> entries x' = e # rest \<and>
      heap s' (ent_request e) = heap s (ent_request e) \<and> complete (mpi_req e) st (lib s')"
proof (induction i arbitrary: s x)
  case 0
  then show ?case by (cases "entries x") auto
next
  case (Suc i)
  then obtain e0 rest where x: "entries x = e0 # rest" by (cases "entries x") auto
  then have e: "e = rest ! i" "i < length rest" using Suc.prems by simp_all
  obtain b s1 x1 where s1: "manager_req_do_progress E m s = Inr (b, s1)" "serviceable E m x1 s1"
    "i < length (entries x1)" "entries x1 ! i = e" "heap s1 (ent_request e) = heap s (ent_request e)"
    "lib s1 = t_lib (MPI_Test E (mpi_req e0) (mem s) (lib s))"
    using manager_step_any [OF assms(1,2) Suc.prems(1) x e(2)] e(1) by auto
  have "mpi_req e0 \<noteq> mpi_req e" using Suc.prems(1) x e by (force simp: serviceable_def)
  then have "complete (mpi_req e) st (lib s1)" using C Suc.prems(4) s1(6) by (simp add: mpi_completion_def)
  then show ?case using Suc.IH [OF s1(2,3) s1(4) [symmetric]] s1(1,5) by auto
qed


section \<open>Instances\<close>

definition ref_complete :: "mpi_request \<Rightarrow> mpi_status \<Rightarrow> ref_lib \<Rightarrow> bool" where
  "ref_complete q st l \<longleftrightarrow> (\<exists>n. q = Mpi_request n \<and> map_of (lib_done l) n = Some st)"

lemma ref_completion: "mpi_completion (ref_mpi B) ref_complete"
  by (auto simp: mpi_completion_def ref_complete_def ref_test_def split: option.splits mpi_request.splits)

lemma ref_keeps_handle: "test_keeps_handle (ref_mpi B)"
  by (auto simp: test_keeps_handle_def ref_test_def split: option.splits)

definition ref_arrival :: mpi_status where
  "ref_arrival = \<lparr>MPI_SOURCE = 1, MPI_TAG = 1048575, status_bytes = 3\<rparr>"


text \<open>Two sends in flight, of which MPI completes the second first.\<close>

definition ref_two_sends :: "(ptr \<times> (ptr list, ref_lib) mpi_st) res" where
  "ref_two_sends =
     bind_res ref_setup (\<lambda>(c, d, s).
     bind_res (mpi_send (ref_mpi ref_build) d 1 5 4096 8 c 0 s) (\<lambda>(_, s).
     bind_res (mpi_send (ref_mpi ref_build) d 1 6 4096 8 c 0 s) (\<lambda>(_, s).
     Inr (c, s\<lparr>lib := (lib s)\<lparr>lib_done := [(3, ref_status)]\<rparr>\<rparr>))))"

definition ref_entries :: "entry_t list" where
  "ref_entries = [\<lparr>mpi_req = Mpi_request 2, ent_device = 2, completion = 1, ent_request = 5\<rparr>,
                  \<lparr>mpi_req = Mpi_request 3, ent_device = 2, completion = 1, ent_request = 6\<rparr>]"

definition ref_send_request :: "int \<Rightarrow> request_t" where
  "ref_send_request tag = \<lparr>req_op = SEND, req_device = 2, req_rank = 1, req_tag = tag, req_buffer = 4096,
     req_length = 8, req_user_context = 0\<rparr>"

lemma ref_two_sends_runs:
  "case ref_two_sends of Inl _ \<Rightarrow> False | Inr (c, s) \<Rightarrow>
     managers s 3 = Some (Man_req \<lparr>entries = ref_entries, req_lock = False\<rparr>) \<and> comps s 1 = Some (Comp_cq []) \<and>
     heap s 5 = Some (ref_send_request 5) \<and> heap s 6 = Some (ref_send_request 6) \<and> lib_done (lib s) = [(3, ref_status)]"
  by code_simp

lemma ref_two_sends_fresh: "ref_two_sends = Inr (c, s) \<Longrightarrow> fresh_ok s"
proof -
  assume "ref_two_sends = Inr (c, s)"
  then obtain d s0 b1 s1 b2 s2 where t: "ref_setup = Inr (c, d, s0)"
    "mpi_send (ref_mpi ref_build) d 1 5 4096 8 c 0 s0 = Inr (b1, s1)"
    "mpi_send (ref_mpi ref_build) d 1 6 4096 8 c 0 s1 = Inr (b2, s2)" and s: "s = s2\<lparr>lib := lib s\<rparr>"
    by (auto simp: ref_two_sends_def elim!: bind_resE)
  have "mpi_reach (ref_mpi ref_build) (\<lambda>q. q) ref_getenv ref_start [] s2"
    using t by (intro mpi_reach.send [OF mpi_reach.send [OF ref_setup_reach]])
  from mpi_invD(3) [OF reach_inv [OF ref_mpi_fifo ref_start_start ref_start_max this]]
  have "fresh_ok s2" .
  then show ?thesis by (subst s) (simp add: fresh_ok_def)
qed


end
