(* ===== verification/LCW_Runtime.thy ===== *)
theory LCW_Runtime
  imports LCW_Api LCW_Mpi_Progress
begin

text \<open>
  The class \<^verbatim>\<open>backend_mpi_t\<close> as a backend of the public functions: it meets the contract of a
  backend, so every program over the API keeps the invariant of the MPI backend. Also the life
  cycle of the library and the choice of a backend.
\<close>

section \<open>The class \<open>backend_mpi_t\<close>\<close>

definition backend_mpi_t :: "('q, 'm) mpi_env \<Rightarrow> (string \<rightharpoonup> string) \<Rightarrow> ('q, 'm) mpi_st backend_base_t" where
  "backend_mpi_t E getenv =
     \<lparr>get_backend = MPI, b_construct = base_construct, b_initialize = mpi_initialize E getenv,
      b_finalize = mpi_finalize E, b_get_rank = mpi_get_rank, b_get_nranks = mpi_get_nranks,
      b_alloc_device = mpi_alloc_device E, b_free_device = mpi_free_device E,
      b_do_progress = mpi_do_progress E, b_send = mpi_send E, b_recv = mpi_recv E, b_put = mpi_put E,
      b_get_max_tag = mpi_get_max_tag, b_barrier = mpi_barrier E,
      b_alloc_handler = base_alloc_handler, b_free_handler = base_free_handler,
      b_alloc_cq = (\<lambda>s. Inr (mpi_alloc_cq E s)), b_free_cq = base_free_cq, b_poll_cq = base_poll_cq E,
      b_set_custom_allocator = base_set_custom_allocator\<rparr>"

section \<open>The MPI backend meets the contract\<close>

definition mpi_allowed :: "('q \<Rightarrow> ptr list) \<Rightarrow> api_call \<Rightarrow> ('q, 'm) mpi_st \<Rightarrow> bool" where
  "mpi_allowed view c s =
     (case c of Free_device d \<Rightarrow> (case devices s d of None \<Rightarrow> False | Some dv \<Rightarrow> device_quiet (comp_manager_p dv) s)
      | Free_cq p \<Rightarrow> cq_ids view p s = []
      | _ \<Rightarrow> True)"

lemma inv_mpi_barrier:
  assumes I: "mpi_inv E view hand s" and b: "mpi_barrier E d s = Inr s'"
  shows "mpi_inv E view hand s'"
proof -
  obtain l where "s' = s\<lparr>lib := l\<rparr>" using b by (auto simp: mpi_barrier_def split: prod.splits elim!: bind_resE)
  then show ?thesis using inv_core [OF I, of s'] by (simp add: core_def)
qed

interpretation mpi_backend: backend_contract "backend_mpi_t E getenv" "\<lambda>s. \<exists>lost. mpi_inv E view lost s" "mpi_allowed view"
  for E getenv view
proof (unfold_locales, goal_cases)
  case (1 s t)
  then obtain lost where "mpi_inv E view lost s" by blast
  then have "mpi_inv E view lost (s\<lparr>trace := t\<rparr>)" by (rule inv_core) (simp add: core_def)
  then show ?case by blast
next
  case (3 s d s')
  then show ?case
    by (auto simp: backend_mpi_t_def mpi_allowed_def split: option.splits dest: inv_mpi_free_device)
next
  case (5 s f c s')
  then show ?case using inv_util_alloc_handler [of 0 1 E view _ s f] by (auto simp: backend_mpi_t_def base_alloc_handler_def)
next
  case (7 s c s')
  then show ?case using inv_mpi_alloc_cq [of 0 1 E view _ s] by (auto simp: backend_mpi_t_def)
next
  case (14 s a)
  then obtain lost where "mpi_inv E view lost s" by blast
  then have "mpi_inv E view lost (base_set_custom_allocator a s)"
    by (rule inv_core) (simp add: core_def base_set_custom_allocator_def)
  then show ?case by (auto simp: backend_mpi_t_def)
qed (auto simp: backend_mpi_t_def base_free_handler_def base_free_cq_def base_poll_cq_def mpi_allowed_def
    intro: inv_mpi_alloc_device inv_mpi_do_progress inv_util_free_handler inv_util_free_cq inv_util_poll_cq
      inv_mpi_send inv_mpi_recv inv_mpi_put inv_mpi_barrier)

lemma lcw_initialize_mpi:
  assumes i: "lcw_initialize E getenv class_of backend s0 = Inr s" and c: "class_of MPI = backend_mpi_t E getenv"
    and m: "backend = MPI \<or> backend = AUTO \<and> auto_backend (build E) getenv = MPI"
    and fifo: "lct_queue_fifo E view" and s0: "mpi_start (inner s0)"
    and mx: "env_int (getenv ''LCW_MPI_MAX_PENDING_MSG'') (g_pending_msg_max (config (inner s0))) < int_max"
  shows "backend_p s = Some (backend_mpi_t E getenv) \<and> (\<exists>lost. mpi_inv E view lost (inner s))"
proof -
  have ab: "alloc_backend (build E) getenv class_of backend = Inr b \<Longrightarrow> b = backend_mpi_t E getenv" for b
    using m c by (auto simp: alloc_backend_def Let_def split: if_splits)
  obtain x where x: "mpi_initialize E getenv (base_construct (inner s0)) = Inr x"
    and s: "backend_p s = Some (backend_mpi_t E getenv)" "inner s = pcounter_initialize E x"
    using i by (auto simp: lcw_initialize_def Let_def backend_mpi_t_def split: if_splits elim!: bind_resE dest!: ab)
  have "mpi_inv E view [] x"
    using s0 mx by (intro inv_mpi_initialize [OF fifo _ _ x]) (simp_all add: base_construct_def mpi_start_def)
  then have "mpi_inv E view [] (inner s)" unfolding s(2)
    by (rule inv_core) (simp add: pcounter_initialize_def fold_log_event core_def del: fold.simps)
  then show ?thesis using s(1) by blast
qed

section \<open>Properties of the API\<close>


text \<open>C31: The life cycle of the library: \<^verbatim>\<open>initialize\<close> succeeds only when no backend is installed and leaves one;
  a second \<^verbatim>\<open>initialize\<close> aborts; \<^verbatim>\<open>finalize\<close> removes the backend, after which every call of the API
  fails its assertion until the next \<^verbatim>\<open>initialize\<close>.\<close>

theorem lcw_lifecycle:
  assumes "lcw_initialize E getenv class_of backend s = Inr s'"
  shows "\<not> lcw_is_initialized s \<and> lcw_is_initialized s' \<and> lct_ready s' \<and> log_ready s' \<and>
    lcw_initialize E getenv class_of backend' s' = Inl (Abort not_initialized) \<and>
    (\<forall>s''. lcw_finalize E s' = Inr s'' \<longrightarrow>
       \<not> lcw_is_initialized s'' \<and> \<not> lct_ready s'' \<and> \<not> log_ready s'' \<and> lcw_finalize E s'' = Inl (Assert_failed not_initialized) \<and>
       lcw_get_rank s'' = Inl (Assert_failed not_initialized) \<and> lcw_get_nranks s'' = Inl (Assert_failed not_initialized) \<and>
       lcw_get_max_tag d s'' = Inl (Assert_failed not_initialized) \<and>
       (\<forall>c. api_step E c s'' = Inl (Assert_failed not_initialized)))"
proof -
  have none: "lcw_finalize E t = Inl (Assert_failed not_initialized) \<and> lcw_get_rank t = Inl (Assert_failed not_initialized) \<and>
      lcw_get_nranks t = Inl (Assert_failed not_initialized) \<and> lcw_get_max_tag d t = Inl (Assert_failed not_initialized) \<and>
      (\<forall>c. api_step E c t = Inl (Assert_failed not_initialized))" if "backend_p t = None" for t
  proof -
    have "api_step E c t = Inl (Assert_failed not_initialized)" for c
      using that by (cases c) (simp_all add: with_backend_def lcw_alloc_device_def lcw_free_device_def
        lcw_do_progress_def lcw_alloc_handler_def lcw_free_handler_def lcw_alloc_cq_def lcw_free_cq_def lcw_poll_cq_def
        lcw_send_def lcw_recv_def lcw_put_def lcw_barrier_def lcw_set_custom_allocator_def)
    then show ?thesis using that
      by (simp add: with_backend_def lcw_finalize_def lcw_get_rank_def lcw_get_nranks_def lcw_get_max_tag_def)
  qed
  have "backend_p s = None" "backend_p s' \<noteq> None" "lct_ready s'" "log_ready s'"
    using assms by (auto simp: lcw_initialize_def Let_def split: if_splits elim!: bind_resE)
  moreover have "backend_p s'' = None \<and> \<not> lct_ready s'' \<and> \<not> log_ready s''" if "lcw_finalize E s' = Inr s''" for s''
    using that \<open>backend_p s' \<noteq> None\<close> by (auto simp: lcw_finalize_def with_backend_def elim!: bind_resE)
  ultimately show ?thesis using none by (auto simp: lcw_is_initialized_def lcw_initialize_def)
qed

text \<open>Without \<^verbatim>\<open>LCW_BACKEND_AUTO\<close> in the environment the automatic choice is the first of MPI, LCI2, LCI
  that was built, and initialization aborts exactly when none of the three was (in particular in
  a build with the GEX backend alone).\<close>

theorem auto_backend_choice:
  assumes "getenv ''LCW_BACKEND_AUTO'' = None"
  shows "case alloc_backend B getenv class_of AUTO of
      Inr b \<Rightarrow> (if LCW_ENABLE_BACKEND_MPI B then b = class_of MPI
                else if LCW_ENABLE_BACKEND_LCI2 B then b = class_of LCI2
                else LCW_ENABLE_BACKEND_LCI B \<and> b = class_of LCI)
    | Inl e \<Rightarrow> \<not> LCW_ENABLE_BACKEND_MPI B \<and> \<not> LCW_ENABLE_BACKEND_LCI2 B \<and> \<not> LCW_ENABLE_BACKEND_LCI B"
  using assms by (simp add: alloc_backend_def auto_backend_def)

text \<open>\<^verbatim>\<open>initialize\<close> sets up the lock table before it reads \<^verbatim>\<open>LCW_FORCE_PTHREAD_SPINLOCK\<close>: when the variable
  is set at the first initialization, a custom lock table installed by the user stays in use,
  and the forcing only takes effect if the library is finalized and initialized again.\<close>

theorem force_spinlock_is_late:
  assumes "getenv ''LCW_FORCE_PTHREAD_SPINLOCK'' = Some p" and "atoi p \<noteq> 0"
    and "setuped (globals s)" and "\<not> force_default_spinlock (globals s)"
    and "lcw_initialize E getenv class_of backend s = Inr s1" and "lcw_finalize E s1 = Inr s2"
    and "lcw_initialize E getenv class_of backend s2 = Inr s3"
  shows "spinlock_op (globals s1) = spinlock_op (globals s) \<and> force_default_spinlock (globals s1) \<and>
    spinlock_op (globals s3) = (if APPLE (build E) then op_table ''pthread_mutex'' Fn_pthread_mutex
      else op_table ''pthread_spinlock'' Fn_pthread_spinlock)"
proof -
  have g: "globals t' = init_env getenv (custom_spinlock_init (build E) (globals t))"
    if "lcw_initialize E getenv class_of backend t = Inr t'" for t t'
    using that by (auto simp: lcw_initialize_def Let_def split: if_splits elim!: bind_resE)
  have "globals s2 = globals s1"
    using assms(6) by (auto simp: lcw_finalize_def with_backend_def split: option.splits elim!: bind_resE)
  then show ?thesis using g [OF assms(5)] g [OF assms(7)] assms(1-4)
    by (simp add: init_env_def custom_spinlock_init_def)
qed

section \<open>Instances\<close>

text \<open>The reference build without performance counters.\<close>

definition ref_quiet :: build_flags where
  "ref_quiet = ref_build\<lparr>LCW_ENABLE_PCOUNTER := False\<rparr>"

definition ref_class :: "(string \<rightharpoonup> string) \<Rightarrow> backend_t \<Rightarrow> (ptr list, ref_lib) mpi_st backend_base_t" where
  "ref_class getenv k = backend_mpi_t (ref_mpi ref_quiet) getenv"

definition ref_lcw :: "(ptr list, ref_lib) mpi_st lcw_st" where
  "ref_lcw = \<lparr>backend_p = None, inner = ref_start, globals = spin_globals_init, lct_ready = False, log_ready = False, lct_rank = 0\<rparr>"

definition ref_calls :: "api_call list" where
  "ref_calls = [Alloc_cq, Alloc_device 64 1, Send 2 1 5 4096 8 1 0]"

text \<open>The same calls on the backend's own state.\<close>

definition ref_inner :: "(ptr list, ref_lib) mpi_st res" where
  "ref_inner =
     bind_res (mpi_initialize (ref_mpi ref_quiet) ref_getenv ref_start) (\<lambda>i.
       let (_, i) = mpi_alloc_cq (ref_mpi ref_quiet) i
       in bind_res (mpi_alloc_device (ref_mpi ref_quiet) 64 1 i) (\<lambda>(_, i).
          bind_res (mpi_send (ref_mpi ref_quiet) 2 1 5 4096 8 1 0 i) (\<lambda>(_, i). Inr i)))"

lemma ref_inner_runs:
  "case ref_inner of Inl _ \<Rightarrow> False | Inr i \<Rightarrow> g_pending_msg i = 1 \<and> g_pending_msg_max (config i) = 2"
  by code_simp

lemma ref_quiet_pcounters [simp]:
  "pcounter_initialize (ref_mpi ref_quiet) s = s" "pcounter_finalize (ref_mpi ref_quiet) s = s"
  "pcounter_add (ref_mpi ref_quiet) h v s = s"
  "pcounter_begin (ref_mpi ref_quiet) h s = s" "pcounter_end (ref_mpi ref_quiet) h s = s"
  by (simp_all add: pcounter_initialize_def pcounter_finalize_def pcounter_add_def pcounter_begin_def
      pcounter_end_def ref_quiet_def)

lemma ref_class_simps:
  "b_construct (ref_class getenv k) s = s\<lparr>m_allocator := Alloc_default\<rparr>"
  "b_initialize (ref_class getenv k) = mpi_initialize (ref_mpi ref_quiet) getenv"
  "b_finalize (ref_class getenv k) = mpi_finalize (ref_mpi ref_quiet)"
  "b_alloc_cq (ref_class getenv k) = (\<lambda>s. Inr (mpi_alloc_cq (ref_mpi ref_quiet) s))"
  "b_alloc_device (ref_class getenv k) = mpi_alloc_device (ref_mpi ref_quiet)"
  "b_send (ref_class getenv k) = mpi_send (ref_mpi ref_quiet)"
  by (simp_all add: ref_class_def backend_mpi_t_def base_construct_def)

lemma ref_class_construct [simp]: "ref_start\<lparr>m_allocator := Alloc_default\<rparr> = ref_start"
  by (simp add: ref_start_def ref_mpi_st_def ref_rt_def rt.defs)

lemma ref_auto:
  "getenv ''LCW_BACKEND_AUTO'' = None \<Longrightarrow> alloc_backend ref_quiet getenv class_of AUTO = Inr (class_of MPI)"
  by (simp add: alloc_backend_def auto_backend_def ref_quiet_def ref_build_def)

lemma ref_initialize:
  assumes "getenv ''LCW_BACKEND_AUTO'' = None" and "backend_p s = None"
    and "mpi_initialize (ref_mpi ref_quiet) getenv ((inner s)\<lparr>m_allocator := Alloc_default\<rparr>) = Inr i"
  shows "\<exists>s'. lcw_initialize (ref_mpi ref_quiet) getenv (ref_class getenv) AUTO s = Inr s' \<and>
    inner s' = i \<and> backend_p s' = Some (ref_class getenv MPI)"
  using assms ref_auto [of getenv "ref_class getenv"]
  by (simp add: lcw_initialize_def Let_def lcw_get_rank_def with_backend_def ref_class_simps)

lemma ref_calls_run:
  "\<exists>s s'. lcw_initialize (ref_mpi ref_quiet) ref_getenv (ref_class ref_getenv) AUTO ref_lcw = Inr s \<and>
     api_exec (ref_mpi ref_quiet) ref_calls s = Inr s' \<and>
     g_pending_msg (inner s') = 1 \<and> g_pending_msg_max (config (inner s')) = 2"
proof -
  let ?E = "ref_mpi ref_quiet"
  obtain i where "ref_inner = Inr i" and g: "g_pending_msg i = 1" "g_pending_msg_max (config i) = 2"
    using ref_inner_runs by (auto split: sum.splits)
  then obtain i1 c i2 d i3 r where i1: "mpi_initialize ?E ref_getenv ref_start = Inr i1"
    and i2: "mpi_alloc_cq ?E i1 = (c, i2)" and i3: "mpi_alloc_device ?E 64 1 i2 = Inr (d, i3)"
    and i4: "mpi_send ?E 2 1 5 4096 8 1 0 i3 = Inr (r, i)"
    by (auto simp: ref_inner_def Let_def split: prod.splits elim!: bind_resE)
  obtain s where s: "lcw_initialize ?E ref_getenv (ref_class ref_getenv) AUTO ref_lcw = Inr s"
    "inner s = i1" "backend_p s = Some (ref_class ref_getenv MPI)"
    using ref_initialize [of ref_getenv ref_lcw i1] i1 by (auto simp: ref_lcw_def ref_getenv_def)
  have "api_exec ?E ref_calls s = Inr (s\<lparr>inner := i\<rparr>)"
    using s(2,3) i2 i3 i4 by (simp add: ref_calls_def lcw_alloc_cq_def lcw_alloc_device_def lcw_send_def with_backend_def
        on_inner_def counted_call_def ref_class_simps Let_def)
  then show ?thesis using s(1) g by fastforce
qed


theorem lcw_lifecycle_witness:
  "\<exists>s. lcw_initialize (ref_mpi ref_quiet) ref_getenv (ref_class ref_getenv) AUTO ref_lcw = Inr s \<and> lcw_is_initialized s \<and>
     lcw_initialize (ref_mpi ref_quiet) ref_getenv (ref_class ref_getenv) MPI s = Inl (Abort not_initialized)"
proof -
  obtain s where s: "lcw_initialize (ref_mpi ref_quiet) ref_getenv (ref_class ref_getenv) AUTO ref_lcw = Inr s"
    using ref_calls_run by blast
  show ?thesis using lcw_lifecycle [OF s, of MPI] s by blast
qed

theorem auto_backend_choice_witness:
  "alloc_backend ref_build Map.empty (ref_class Map.empty) AUTO = Inr (ref_class Map.empty MPI)"
  using auto_backend_choice [of Map.empty ref_build "ref_class Map.empty"]
  by (auto simp: ref_build_def split: sum.splits)

definition ref_force_getenv :: "string \<rightharpoonup> string" where
  "ref_force_getenv = [''LCW_FORCE_PTHREAD_SPINLOCK'' \<mapsto> ''1'']"

definition ref_user_table :: custom_spinlock_op_t where
  "ref_user_table = op_table ''mine'' (Fn_user 7)"

definition ref_lcw_custom :: "(ptr list, ref_lib) mpi_st lcw_st" where
  "ref_lcw_custom = ref_lcw\<lparr>globals := snd (custom_spinlock_setup ref_user_table spin_globals_init)\<rparr>"

definition ref_twice :: "(ptr list, ref_lib) mpi_st res" where
  "ref_twice =
     bind_res (mpi_initialize (ref_mpi ref_quiet) ref_force_getenv ref_start) (\<lambda>i.
     bind_res (mpi_finalize (ref_mpi ref_quiet) i) (\<lambda>i.
     mpi_initialize (ref_mpi ref_quiet) ref_force_getenv (i\<lparr>m_allocator := Alloc_default\<rparr>)))"

lemma ref_twice_runs: "case ref_twice of Inl _ \<Rightarrow> False | Inr i \<Rightarrow> True"
  by code_simp

lemma ref_force_run:
  "\<exists>s1 s2 s3. lcw_initialize (ref_mpi ref_quiet) ref_force_getenv (ref_class ref_force_getenv) AUTO ref_lcw_custom = Inr s1 \<and>
    lcw_finalize (ref_mpi ref_quiet) s1 = Inr s2 \<and>
    lcw_initialize (ref_mpi ref_quiet) ref_force_getenv (ref_class ref_force_getenv) AUTO s2 = Inr s3"
proof -
  let ?E = "ref_mpi ref_quiet" and ?g = ref_force_getenv
  obtain i1 i2 i3 where i1: "mpi_initialize ?E ?g ref_start = Inr i1" and i2: "mpi_finalize ?E i1 = Inr i2"
    and i3: "mpi_initialize ?E ?g (i2\<lparr>m_allocator := Alloc_default\<rparr>) = Inr i3"
    using ref_twice_runs by (auto simp: ref_twice_def split: sum.splits elim!: bind_resE)
  have au: "?g ''LCW_BACKEND_AUTO'' = None" by (simp add: ref_force_getenv_def)
  obtain s1 where s1: "lcw_initialize ?E ?g (ref_class ?g) AUTO ref_lcw_custom = Inr s1"
    "inner s1 = i1" "backend_p s1 = Some (ref_class ?g MPI)"
    using ref_initialize [of ?g ref_lcw_custom i1] au i1 by (auto simp: ref_lcw_custom_def ref_lcw_def)
  obtain s2 where s2: "lcw_finalize ?E s1 = Inr s2" "inner s2 = i2" "backend_p s2 = None"
    using s1 i2 by (simp add: lcw_finalize_def with_backend_def ref_class_simps)
  show ?thesis using s1(1) s2(1) ref_initialize [of ?g s2 i3] au s2(3) i3 s2(2) by auto
qed

theorem force_spinlock_is_late_witness:
  "\<exists>s1. lcw_initialize (ref_mpi ref_quiet) ref_force_getenv (ref_class ref_force_getenv) AUTO ref_lcw_custom = Inr s1 \<and>
     spinlock_op (globals s1) = ref_user_table"
proof -
  obtain s1 s2 s3 where s: "lcw_initialize (ref_mpi ref_quiet) ref_force_getenv (ref_class ref_force_getenv) AUTO ref_lcw_custom = Inr s1"
    "lcw_finalize (ref_mpi ref_quiet) s1 = Inr s2"
    "lcw_initialize (ref_mpi ref_quiet) ref_force_getenv (ref_class ref_force_getenv) AUTO s2 = Inr s3"
    using ref_force_run by blast
  have "ref_force_getenv ''LCW_FORCE_PTHREAD_SPINLOCK'' = Some ''1''" "atoi ''1'' \<noteq> 0"
    by (simp add: ref_force_getenv_def) code_simp
  from force_spinlock_is_late [OF this _ _ s] show ?thesis using s(1)
    by (simp add: ref_lcw_custom_def custom_spinlock_setup_def spin_globals_init_def)
qed

end
