(* ===== verification/LCW_Mpi_Delivery.thy ===== *)
theory LCW_Mpi_Delivery
  imports LCW_Runtime LCW_Delivery
begin

text \<open>The MPI backend delivers every send and put exactly once, with either completion manager.\<close>

section \<open>Operations that move nothing\<close>

lemma moves_set [simp]:
  "moves P D s (set_device p d t) \<longleftrightarrow> moves P D s t" "moves P D s (set_manager p m t) \<longleftrightarrow> moves P D s t"
  "moves P D s (add_pending k t) \<longleftrightarrow> moves P D s t"
  by (rule moves_cong; simp add: set_device_def set_manager_def add_pending_def)+

lemma moves_fields [simp]:
  "moves P D s (t\<lparr>lib := l\<rparr>) \<longleftrightarrow> moves P D s t"
  "moves P D s (t\<lparr>centries := ce\<rparr>) \<longleftrightarrow> moves P D s t"
  by (rule moves_cong; simp)+

lemma quiet_fields:
  "quiet s (s\<lparr>lib := l\<rparr>)" "quiet s (s\<lparr>mem := m, lib := l\<rparr>)" "quiet s (s\<lparr>centries := ce\<rparr>)"
  by simp_all

lemma quiet_stream:
  "enter_stream_cs E d s = Inr s' \<Longrightarrow> quiet s s'" "leave_stream_cs E d s = Inr s' \<Longrightarrow> quiet s s'"
  by (auto simp: enter_stream_cs_def leave_stream_cs_def split: if_splits elim!: bind_resE)

lemma quiet_signal_account: "quiet s (signal_account E op s)"
  by (cases op) (simp_all add: signal_account_def Let_def)

lemma quiet_choose_type: "choose_type sz s = Inr (dt, n, s') \<Longrightarrow> quiet s s'"
  by (auto simp: choose_type_def type_contiguous_def Let_def split: if_splits elim!: bind_resE)

lemma quiet_isend: "isend E a sz r g c s = Inr (q, s') \<Longrightarrow> quiet s s'"
  by (auto simp: isend_def Let_def release_type_def split: prod.splits if_splits elim!: bind_resE dest!: quiet_choose_type)

lemma quiet_irecv: "irecv E a sz r g c s = Inr (q, s') \<Longrightarrow> quiet s s'"
  by (auto simp: irecv_def Let_def release_type_def split: prod.splits if_splits elim!: bind_resE dest!: quiet_choose_type)

section \<open>Signalling a completion\<close>

lemma quiet_signal_comp:
  assumes "signal_comp E entry s = Inr s'"
  shows "quiet s s'"
proof -
  obtain r s1 where r: "heap s (ent_request entry) = Some r"
    and s1: "util_signal_comp E (completion entry) r (signal_account E (req_op r) s) = Inr s1"
    and s': "delete_request (ent_request entry) s1 = Inr s'"
    using assms by (auto simp: signal_comp_def deref_eq_Inr elim!: bind_resE)
  have 1: "moves (as_out r) {#} s s1" by (rule quiet_trans [OF quiet_signal_account moves_signal [OF s1]])
  have "heap (signal_account E (req_op r) s) (ent_request entry) = Some r" using r by simp
  then have "heap s1 (ent_request entry) = Some r" by (rule signal_heap [OF s1])
  then have "moves (as_out r) (as_out r) s s'" by (intro moves_trans [OF 1 moves_delete [OF s']]) simp_all
  then show ?thesis by (simp add: moves_def ac_simps)
qed

lemma quiet_run_callbacks: "run_callbacks E cbs s = Inr s' \<Longrightarrow> quiet s s'"
proof (induction cbs arbitrary: s)
  case (Cons cb cbs)
  obtain status p where cb: "cb = (status, p)" by (cases cb)
  obtain e s1 where "signal_comp E e s = Inr s1" "run_callbacks E cbs (s1\<lparr>centries := (centries s1)(p := None)\<rparr>) = Inr s'"
    using Cons.prems by (auto simp: cb complete_cb_def elim!: bind_resE)
  then show ?case using quiet_trans [OF quiet_signal_comp quiet_trans [OF quiet_fields(3) Cons.IH]] by blast
qed simp

lemma quiet_mpi_test: "mpi_test E q s = Inr (ok, st, r, s') \<Longrightarrow> quiet s s'"
  by (auto simp: mpi_test_def Let_def elim!: bind_resE intro: quiet_trans [OF quiet_fields(2) quiet_run_callbacks])

section \<open>Completion managers\<close>

lemma quiet_manager_cont_add_entry:
  assumes "manager_cont_add_entry E m entry s = Inr s'"
  shows "quiet s s'"
proof -
  let ?s1 = "snd (new_centry entry s)"
  obtain s2 l cbs s3 where s2: "enter_stream_cs E (ent_device entry) ?s1 = Inr s2" and s3: "run_callbacks E cbs (s2\<lparr>lib := l\<rparr>) = Inr s3"
    and s': "leave_stream_cs E (ent_device entry) s3 = Inr s'"
    using assms by (auto simp: manager_cont_add_entry_def Let_def split: prod.splits elim!: bind_resE)
  have "quiet s ?s1" by (rule quiet_frame) (auto simp: new_centry_def)
  then show ?thesis
    by (rule quiet_trans [OF _ quiet_trans [OF quiet_stream(1) [OF s2] quiet_trans [OF quiet_fields(1)
          quiet_trans [OF quiet_run_callbacks [OF s3] quiet_stream(2) [OF s']]]]])
qed

lemma quiet_manager_add_entry: "manager_add_entry E p e s = Inr s' \<Longrightarrow> quiet s s'"
  by (auto simp: manager_add_entry_def manager_req_add_entry_def Let_def split: manager_t.splits elim!: bind_resE
      intro: quiet_manager_cont_add_entry)

lemma quiet_manager_req_test: "manager_req_test E e s = Inr (ok, st, e', s') \<Longrightarrow> quiet s s'"
  unfolding manager_req_test_def
  by (auto split: if_splits elim!: bind_resE intro: quiet_trans [OF quiet_stream(1) quiet_trans [OF quiet_mpi_test quiet_stream(2)]])

lemma quiet_set_received:
  assumes "set_received E p st s = Inr s'" "heap s p = Some r" "\<not> outgoing r"
  shows "quiet s s'" "\<exists>r'. heap s' p = Some r' \<and> \<not> outgoing r'"
proof -
  obtain n where s': "s' = s\<lparr>heap := (heap s)(p \<mapsto> r\<lparr>req_length := n, req_tag := MPI_TAG st, req_rank := MPI_SOURCE st\<rparr>)\<rparr>"
    using assms(1,2) by (auto simp: set_received_def split: prod.splits elim!: bind_resE)
  show "quiet s s'" unfolding s' by (rule quiet_replace [OF assms(2)]) (use assms(3) in \<open>simp_all add: as_out_def outgoing_def\<close>)
  show "\<exists>r'. heap s' p = Some r' \<and> \<not> outgoing r'" using assms(3) by (simp add: s' outgoing_def)
qed

lemma quiet_manager_req_complete:
  assumes "manager_req_complete E e st s = Inr s'"
  shows "quiet s s'"
proof -
  obtain r s1 where r: "heap s (ent_request e) = Some r"
    and s1: "(if req_op r = RECV then (case st of None \<Rightarrow> Inl Uninit_read | Some st \<Rightarrow> set_received E (ent_request e) st s) else Inr s) = Inr s1"
    and s': "signal_comp E e s1 = Inr s'"
    using assms by (auto simp: manager_req_complete_def deref_eq_Inr elim!: bind_resE)
  have "quiet s s1" using s1 quiet_set_received(1) [OF _ r]
    by (auto simp: outgoing_def split: if_splits option.splits)
  then show ?thesis using quiet_signal_comp [OF s'] by (rule quiet_trans)
qed

lemma quiet_manager_req_do_progress:
  assumes "manager_req_do_progress E p s = Inr (ret, s')"
  shows "quiet s s'"
proof -
  obtain m where m: "get_manager_req p s = Inr m" using assms by (auto simp: manager_req_do_progress_def elim!: bind_resE)
  show ?thesis
  proof (cases "entries m = [] \<or> req_lock m")
    case True
    then show ?thesis using assms m by (auto simp: manager_req_do_progress_def Let_def spin_try_lock_def split: if_splits)
  next
    case False
    then obtain e rest where e: "entries m = e # rest" by (auto simp: neq_Nil_conv)
    let ?s0 = "set_manager p (Man_req (m\<lparr>req_lock := True, entries := rest\<rparr>)) s"
    obtain ok st e' s1 where t: "manager_req_test E e ?s0 = Inr (ok, st, e', s1)"
      and rest: "bind_res (get_manager_req p s1) (\<lambda>m. bind_res (spin_unlock (req_lock (if ok then m else m\<lparr>entries := entries m @ [e']\<rparr>))) (\<lambda>l.
         if \<not> ok then Inr (False, set_manager p (Man_req ((if ok then m else m\<lparr>entries := entries m @ [e']\<rparr>)\<lparr>req_lock := l\<rparr>)) s1)
         else bind_res (manager_req_complete E e' st (set_manager p (Man_req ((if ok then m else m\<lparr>entries := entries m @ [e']\<rparr>)\<lparr>req_lock := l\<rparr>)) s1))
           (\<lambda>s. Inr (True, s)))) = Inr (ret, s')"
      using assms m False e by (auto simp: manager_req_do_progress_def Let_def elim!: bind_resE)
    have 1: "quiet s s1" by (rule quiet_trans [OF _ quiet_manager_req_test [OF t]]) simp
    obtain m1 l where m1: "if ok then manager_req_complete E e' st (set_manager p (Man_req (m1\<lparr>req_lock := l\<rparr>)) s1) = Inr s'
        else s' = set_manager p (Man_req (m1\<lparr>req_lock := l\<rparr>)) s1"
      using rest by (cases ok) (auto elim!: bind_resE)
    have 2: "quiet s (set_manager p (Man_req (m1\<lparr>req_lock := l\<rparr>)) s1)" using 1 by simp
    show ?thesis using m1 2 quiet_trans [OF 2 quiet_manager_req_complete] by (cases ok) simp_all
  qed
qed

lemma quiet_manager_cont_do_progress:
  assumes "manager_cont_do_progress E p m s = Inr (ret, s')"
  shows "quiet s s'"
proof (cases "cont_req m = MPI_REQUEST_NULL \<or> cont_lock m")
  case True
  then show ?thesis using assms by (auto simp: manager_cont_do_progress_def Let_def spin_try_lock_def split: if_splits)
next
  case False
  then obtain ok st r s1 where t: "mpi_test E (cont_req m) (set_manager p (Man_cont (m\<lparr>cont_lock := True\<rparr>)) s) = Inr (ok, st, r, s1)"
    and s': "quiet s1 s'"
    using assms by (auto simp: manager_cont_do_progress_def Let_def spin_try_lock_def split: if_splits prod.splits elim!: bind_resE)
  have "quiet s s1" by (rule quiet_trans [OF _ quiet_mpi_test [OF t]]) simp
  then show ?thesis using s' by (rule quiet_trans)
qed

lemma quiet_manager_do_progress: "manager_do_progress E p s = Inr (ret, s') \<Longrightarrow> quiet s s'"
  by (auto simp: manager_do_progress_def split: manager_t.splits elim!: bind_resE
      intro: quiet_manager_req_do_progress quiet_manager_cont_do_progress)

section \<open>Devices\<close>

lemma quiet_post_put_recv:
  assumes "post_put_recv E d c s = Inr s'"
  shows "quiet s s'"
proof -
  obtain dv where dv: "devices s d = Some dv" using assms by (auto simp: post_put_recv_def deref_eq_Inr elim!: bind_resE)
  define r where "r = \<lparr>req_op = PUT_SIGNAL, req_device = d, req_rank = - 1, req_tag = put_tag dv,
            req_buffer = put_rbuf_data dv, req_length = to_int64 (put_rbuf_size dv), req_user_context = nullptr\<rparr>"
  obtain p s1 where n: "new_request r s = (p, s1)" by (cases "new_request r s")
  obtain s2 q s3 s4 dv' e where s2: "enter_stream_cs E d s1 = Inr s2"
    and s3: "irecv E (put_rbuf_data dv) (to_size (to_int64 (put_rbuf_size dv))) (MPI_ANY_SOURCE E) (to_int (put_tag dv)) (comm dv) s2 = Inr (q, s3)"
    and s4: "leave_stream_cs E d s3 = Inr s4" and s': "s' = set_device d (dv'\<lparr>put_entry := e\<rparr>) s4"
    using assms dv n by (auto simp: post_put_recv_def r_def Let_def elim!: bind_resE)
  have "moves (as_out r) {#} s s1" by (rule moves_new_request [OF n])
  then have "quiet s s1" by (simp add: r_def)
  then have "quiet s s4" by (rule quiet_trans [OF _ quiet_trans [OF quiet_stream(1) [OF s2] quiet_trans [OF quiet_irecv [OF s3] quiet_stream(2) [OF s4]]]])
  then show ?thesis by (simp add: s')
qed

lemma quiet_put_completed:
  assumes "put_completed E e st s = Inr s'"
  shows "quiet s s'"
proof -
  obtain s1 s2 and r2 :: request_t where s1: "set_received E (ent_request e) st s = Inr s1" and s2: "copy_out E (ent_request e) s1 = Inr s2"
    and s': "post_put_recv E (req_device r2) (completion e) s2 = Inr s'"
    using assms unfolding put_completed_def by (elim bind_resE) blast
  obtain r1 where r1: "heap s1 (ent_request e) = Some r1" "req_op r1 = PUT_SIGNAL"
    using s2 by (auto simp: copy_out_def deref_eq_Inr elim!: bind_resE)
  obtain r where r: "heap s (ent_request e) = Some r" "req_op r = PUT_SIGNAL"
    using s1 r1 by (auto simp: set_received_def deref_eq_Inr split: prod.splits elim!: bind_resE)
  have 1: "quiet s s1" by (rule quiet_set_received(1) [OF s1 r(1)]) (simp add: outgoing_def r)
  obtain b n m where s2': "s2 = s1\<lparr>blocks := b, mem := m, heap := (heap s1)(ent_request e \<mapsto> r1\<lparr>req_buffer := n\<rparr>)\<rparr>"
    using s2 r1 by (auto simp: copy_out_def Let_def elim!: bind_resE)
  have 2: "quiet s1 s2" unfolding s2'
    by (rule quiet_replace [OF r1(1), where r' = "r1\<lparr>req_buffer := n\<rparr>"]) (simp_all add: r1(2))
  show ?thesis by (rule quiet_trans [OF 1 quiet_trans [OF 2 quiet_post_put_recv [OF s']]])
qed

lemma quiet_progress_put:
  assumes "progress_put E d dv s = Inr (ret, s')"
  shows "quiet s s'"
proof (cases "put_entry_lock dv")
  case True
  then show ?thesis using assms by (auto simp: progress_put_def)
next
  case False
  let ?s0 = "set_device d (dv\<lparr>put_entry_lock := True\<rparr>) s"
  obtain ok e s1 s2 where q: "quiet ?s0 s1" and s2: "unlock_put_entry d s1 = Inr s2"
    and s': "(if ok then bind_res (signal_comp E e s2) (\<lambda>s. Inr (True, s)) else Inr (False, s2)) = Inr (ret, s')"
  proof -
    obtain ok e s1 where t: "(if mpi_req (put_entry dv) \<noteq> MPI_REQUEST_NULL then
          bind_res (enter_stream_cs E d ?s0) (\<lambda>s.
          bind_res (mpi_test E (mpi_req (put_entry dv)) s) (\<lambda>(succeed, status, r, s).
          bind_res (deref (devices s) d) (\<lambda>dv.
          bind_res (leave_stream_cs E d (set_device d (dv\<lparr>put_entry := (put_entry dv)\<lparr>mpi_req := r\<rparr>\<rparr>) s)) (\<lambda>s.
             if succeed
             then bind_res (put_completed E ((put_entry dv)\<lparr>mpi_req := r\<rparr>) status s) (\<lambda>s. Inr (True, (put_entry dv)\<lparr>mpi_req := r\<rparr>, s))
             else Inr (False, (put_entry dv)\<lparr>mpi_req := r\<rparr>, s)))))
        else Inr (False, put_entry dv, ?s0)) = Inr (ok, e, s1)"
      and rest: "bind_res (unlock_put_entry d s1) (\<lambda>s. if ok then bind_res (signal_comp E e s) (\<lambda>s. Inr (True, s)) else Inr (False, s)) = Inr (ret, s')"
      using assms False unfolding progress_put_def Let_def by (auto elim!: bind_resE [where f = "case_prod _"])
    obtain s2 where "unlock_put_entry d s1 = Inr s2"
      "(if ok then bind_res (signal_comp E e s2) (\<lambda>s. Inr (True, s)) else Inr (False, s2)) = Inr (ret, s')"
      using rest by (elim bind_resE)
    moreover have "quiet ?s0 s1"
    proof (cases "mpi_req (put_entry dv) = MPI_REQUEST_NULL")
      case False
      then obtain s3 st q s4 dv4 s5 where s3: "enter_stream_cs E d ?s0 = Inr s3" and s4: "mpi_test E (mpi_req (put_entry dv)) s3 = Inr (ok, st, q, s4)"
        and s5: "leave_stream_cs E d (set_device d (dv4\<lparr>put_entry := (put_entry dv4)\<lparr>mpi_req := q\<rparr>\<rparr>) s4) = Inr s5"
        and s1: "if ok then put_completed E ((put_entry dv4)\<lparr>mpi_req := q\<rparr>) st s5 = Inr s1 else s1 = s5"
        using t by (auto split: if_splits elim!: bind_resE)
      have "quiet ?s0 (set_device d (dv4\<lparr>put_entry := (put_entry dv4)\<lparr>mpi_req := q\<rparr>\<rparr>) s4)"
        using quiet_trans [OF quiet_stream(1) [OF s3] quiet_mpi_test [OF s4]] by simp
      then have q5: "quiet ?s0 s5" using quiet_stream(2) [OF s5] by (rule quiet_trans)
      then show ?thesis using s1 quiet_trans [OF q5 quiet_put_completed] by (cases ok) auto
    qed (use t in simp)
    ultimately show thesis using that by blast
  qed
  have "quiet s s1" by (rule quiet_trans [OF _ q]) simp
  moreover have "quiet s1 s2" using s2 by (auto simp: unlock_put_entry_def elim!: bind_resE)
  ultimately have 2: "quiet s s2" by (rule quiet_trans)
  show ?thesis using s' 2 by (auto split: if_splits elim!: bind_resE intro: quiet_trans [OF 2 quiet_signal_comp])
qed

lemma quiet_mpi_do_progress:
  assumes "mpi_do_progress E d s = Inr (ret, s')"
  shows "quiet s s'"
proof -
  obtain p1 m p2 and dv :: mpi_device_t where p1: "(if enable_put dv \<and> mpi_req (put_entry dv) \<noteq> MPI_REQUEST_NULL
      then progress_put E d dv s else Inr (False, s)) = Inr p1" and p2: "manager_do_progress E m (snd p1) = Inr p2" "s' = snd p2"
  proof -
    obtain p1 m p2 and dv :: mpi_device_t where p1: "(if enable_put dv \<and> mpi_req (put_entry dv) \<noteq> MPI_REQUEST_NULL
        then progress_put E d dv s else Inr (False, s)) = Inr p1"
      and p2: "manager_do_progress E m (snd p1) = Inr p2" "Inr (fst p2 \<or> fst p1, snd p2) = (Inr (ret, s') :: (bool \<times> _) res)"
      using assms unfolding mpi_do_progress_def case_prod_unfold by (elim bind_resE) blast
    from p2 show thesis using that [OF p1] by simp
  qed
  have "quiet s (snd p1)" using p1 quiet_progress_put [of E d dv s "fst p1"] by (auto split: if_splits)
  then show ?thesis unfolding p2(2) by (rule quiet_trans) (rule quiet_manager_do_progress [of E m _ "fst p2"], simp add: p2)
qed

lemma quiet_make_manager: "make_manager E s = Inr (p, s') \<Longrightarrow> quiet s s'"
  by (rule quiet_bump) (auto simp: make_manager_def manager_cont_new_def Let_def split: comp_type_t.splits if_splits prod.splits elim!: bind_resE)

lemma quiet_release_manager: "release_manager E p s = Inr s' \<Longrightarrow> quiet s s'"
  by (rule quiet_bump) (auto simp: release_manager_def manager_cont_delete_def Let_def split: manager_t.splits if_splits prod.splits elim!: bind_resE)

lemma quiet_mpi_alloc_device:
  assumes "mpi_alloc_device E n c s = Inr (d, s')"
  shows "quiet s s'"
proof -
  let ?s0 = "s\<lparr>next_obj := Suc (next_obj s), g_ndevices := to_int (g_ndevices s + 1)\<rparr>"
  obtain st cm s1 m s2 k buf s3 dv where s1: "device_comm E ?s0 = Inr (st, cm, s1)"
    and s2: "device_manager E (g_ndevices s) (if MPI_VERSION E \<ge> 3 then s1\<lparr>lib := MPI_Comm_set_info E cm comm_hints (lib s1)\<rparr> else s1) = Inr (m, s2)"
    and s3: "vector_resize E k s2 = Inr (buf, s3)" and s': "post_put_recv E (next_obj s) c (set_device (next_obj s) dv s3) = Inr s'"
    using assms unfolding mpi_alloc_device_def Let_def by (auto elim!: bind_resE)
  have "quiet s ?s0" by (rule quiet_bump) simp_all
  moreover have "quiet ?s0 s1" using s1
    by (intro quiet_bump) (auto simp: device_comm_def Let_def split: if_splits prod.splits elim!: bind_resE)
  moreover have "quiet s1 s2"
  proof -
    let ?t = "if MPI_VERSION E \<ge> 3 then s1\<lparr>lib := MPI_Comm_set_info E cm comm_hints (lib s1)\<rparr> else s1"
    have "quiet s1 ?t" by simp
    moreover have "quiet ?t s2"
    proof (cases "g_comp_managers ?t = []")
      case True
      then show ?thesis using s2 by (simp add: device_manager_def quiet_make_manager)
    next
      case False
      then show ?thesis using s2 by (intro quiet_bump) (auto simp: device_manager_def Let_def simp del: if_split)
    qed
    ultimately show ?thesis by (rule quiet_trans)
  qed
  moreover have "quiet s2 s3" using s3 by (intro quiet_bump) (auto simp: vector_resize_def Let_def split: if_splits)
  moreover have "quiet s3 s'" by (rule quiet_trans [OF _ quiet_post_put_recv [OF s']]) simp
  ultimately show ?thesis by (blast intro: quiet_trans)
qed

lemma quiet_mpi_free_device:
  assumes "mpi_free_device E d s = Inr s'"
  shows "quiet s s'"
proof -
  obtain p l ds bs where "release_manager E p (s\<lparr>lib := l, devices := ds, blocks := bs\<rparr>) = Inr s'"
    using assms unfolding mpi_free_device_def Let_def by (auto simp: case_prod_unfold split: if_splits elim!: bind_resE)
  moreover have "quiet s (s\<lparr>lib := l, devices := ds, blocks := bs\<rparr>)" by (rule quiet_bump) simp_all
  ultimately show ?thesis using quiet_release_manager quiet_trans by blast
qed

section \<open>Communication\<close>

lemma quiet_throttle: "throttle s = Some s' \<Longrightarrow> quiet s s'"
  by (auto simp: throttle_def split: if_splits)

lemma mpi_send_moves:
  assumes "mpi_send E d rank tag buf len c ctx s = Inr (ret, s')"
  shows "\<exists>r. posts (Send d rank tag buf len c ctx) r \<and> moves (if ret then {#r#} else {#}) {#} s s'"
proof (cases "throttle s")
  case None
  then show ?thesis using assms by (simp add: mpi_send_def)
next
  case (Some s0)
  define r where "r = \<lparr>req_op = SEND, req_device = d, req_rank = rank, req_tag = tag, req_buffer = buf, req_length = len, req_user_context = ctx\<rparr>"
  obtain p s1 where n: "new_request r s0 = (p, s1)" by (cases "new_request r s0")
  obtain s2 q s3 s4 and dv :: mpi_device_t where s2: "enter_stream_cs E d s1 = Inr s2"
    and s3: "isend E buf (to_size len) (to_int rank) (to_int tag) (comm dv) s2 = Inr (q, s3)" and s4: "leave_stream_cs E d s3 = Inr s4"
    and s': "manager_add_entry E (comp_manager_p dv) \<lparr>mpi_req = q, ent_device = d, completion = c, ent_request = p\<rparr> s4 = Inr s'" and ret
    using assms Some n by (auto simp: mpi_send_def r_def Let_def elim!: bind_resE)
  have "moves {#r#} {#} s s1" using quiet_trans [OF quiet_throttle [OF Some] moves_new_request [OF n]] by (simp add: r_def)
  moreover have "quiet s1 s'"
    by (rule quiet_trans [OF quiet_stream(1) [OF s2] quiet_trans [OF quiet_isend [OF s3] quiet_trans [OF quiet_stream(2) [OF s4] quiet_manager_add_entry [OF s']]]])
  ultimately have "moves {#r#} {#} s s'" by (rule trans_quiet)
  then show ?thesis using \<open>ret\<close> by (intro exI [of _ r]) (simp add: r_def)
qed

lemma mpi_put_moves:
  assumes "mpi_put E d rank buf len c ctx s = Inr (ret, s')"
  shows "\<exists>r. posts (Put d rank buf len c ctx) r \<and> moves (if ret then {#r#} else {#}) {#} s s'"
proof -
  obtain dv where dv: "devices s d = Some dv" "enable_put dv" using assms by (auto simp: mpi_put_def deref_eq_Inr elim!: bind_resE)
  define r where "r = \<lparr>req_op = PUT, req_device = d, req_rank = rank, req_tag = put_tag dv, req_buffer = buf, req_length = len, req_user_context = ctx\<rparr>"
  have post: "posts (Put d rank buf len c ctx) r" by (simp add: r_def)
  show ?thesis
  proof (cases "throttle s")
    case None
    then show ?thesis using assms dv post by (auto simp: mpi_put_def)
  next
    case (Some s0)
    obtain p s1 where n: "new_request r s0 = (p, s1)" by (cases "new_request r s0")
    obtain s2 q s3 s4 where s2: "enter_stream_cs E d s1 = Inr s2"
      and s3: "isend E buf (to_size len) (to_int rank) (to_int (put_tag dv)) (comm dv) s2 = Inr (q, s3)" and s4: "leave_stream_cs E d s3 = Inr s4"
      and s': "manager_add_entry E (comp_manager_p dv) \<lparr>mpi_req = q, ent_device = d, completion = c, ent_request = p\<rparr> s4 = Inr s'" and ret
      using assms Some n dv by (auto simp: mpi_put_def r_def Let_def elim!: bind_resE)
    have "moves {#r#} {#} s s1" using quiet_trans [OF quiet_throttle [OF Some] moves_new_request [OF n]] by (simp add: r_def)
    moreover have "quiet s1 s'"
      by (rule quiet_trans [OF quiet_stream(1) [OF s2] quiet_trans [OF quiet_isend [OF s3] quiet_trans [OF quiet_stream(2) [OF s4] quiet_manager_add_entry [OF s']]]])
    ultimately have "moves {#r#} {#} s s'" by (rule trans_quiet)
    then show ?thesis using \<open>ret\<close> post by auto
  qed
qed

lemma quiet_mpi_recv:
  assumes "mpi_recv E d rank tag buf len c ctx s = Inr (ret, s')"
  shows "quiet s s'"
proof -
  define r where "r = \<lparr>req_op = RECV, req_device = d, req_rank = rank, req_tag = tag, req_buffer = buf, req_length = len, req_user_context = ctx\<rparr>"
  obtain p s1 where n: "new_request r s = (p, s1)" by (cases "new_request r s")
  obtain s2 q s3 s4 and dv :: mpi_device_t where s2: "enter_stream_cs E d s1 = Inr s2"
    and s3: "irecv E buf (to_size len) (to_int rank) (to_int tag) (comm dv) s2 = Inr (q, s3)" and s4: "leave_stream_cs E d s3 = Inr s4"
    and s': "manager_add_entry E (comp_manager_p dv) \<lparr>mpi_req = q, ent_device = d, completion = c, ent_request = p\<rparr> s4 = Inr s'"
    using assms n by (auto simp: mpi_recv_def r_def Let_def elim!: bind_resE)
  have "quiet s s1" using moves_new_request [OF n] by (simp add: r_def)
  then show ?thesis
    by (rule quiet_trans [OF _ quiet_trans [OF quiet_stream(1) [OF s2] quiet_trans [OF quiet_irecv [OF s3] quiet_trans [OF quiet_stream(2) [OF s4] quiet_manager_add_entry [OF s']]]]])
qed

interpretation mpi_delivery: exactly_once "backend_mpi_t E getenv" for E getenv
proof (unfold_locales, goal_cases)
  case (4 f s c s')
  then show ?case using quiet_alloc_comp(1) [of s "Comp_handler f"]
    by (auto simp: backend_mpi_t_def base_alloc_handler_def util_alloc_handler_def)
next
  case (6 s c s')
  then show ?case using quiet_alloc_comp(1) [of s]
    by (auto simp: backend_mpi_t_def mpi_alloc_cq_def util_alloc_cq_def) (metis snd_conv)
next
  case (8 d s s')
  then show ?case by (intro quiet_bump) (auto simp: backend_mpi_t_def mpi_barrier_def split: prod.splits elim!: bind_resE)
next
  case (9 s a)
  then show ?case by (intro quiet_bump) (simp_all add: backend_mpi_t_def base_set_custom_allocator_def)
next
  case (11 d rank tag buf len c ctx s ret s')
  then show ?case by (intro mpi_send_moves) (simp add: backend_mpi_t_def)
next
  case (13 c q s ret q' s')
  then show ?case by (intro moves_poll) (simp add: backend_mpi_t_def base_poll_cq_def)
next
  case (12 d rank buf len c ctx s ret s')
  then show ?case by (intro mpi_put_moves) (simp add: backend_mpi_t_def)
qed (auto simp: backend_mpi_t_def base_free_handler_def base_free_cq_def
    intro: quiet_mpi_alloc_device quiet_mpi_free_device quiet_mpi_do_progress quiet_alloc_comp(2,3) quiet_mpi_recv)

section \<open>The property\<close>

text \<open>C1: Over the MPI backend, whatever a program does: the sends and puts that were accepted (the call
  returned true) are, each exactly once and with the arguments they were posted with, those that
  \<^verbatim>\<open>poll_cq\<close> has returned, those passed to a completion handler, and those the library still holds.\<close>

theorem mpi_delivers_exactly_once:
  assumes "backend_p s = Some (backend_mpi_t E getenv)" and "api_history E cs s = Inr (h, s')"
    and "fresh_ok (inner s)" and "heap (inner s) = Map.empty" and "handled_in (trace (inner s)) = {#}"
  shows "\<exists>ps. list_all2 posts (accepted h) ps \<and>
    mset ps = reported h + out_heap (heap (inner s')) + handled_in (trace (inner s'))"
  by (rule mpi_delivery.history_exactly_once [OF assms(1,2,3) _ assms(5)]) (simp add: assms(4))

section \<open>Instance\<close>

definition ref_mpi_ready :: "(ptr list, ref_lib) mpi_st lcw_st" where
  "ref_mpi_ready = ref_lcw\<lparr>backend_p := Some (backend_mpi_t (ref_mpi ref_quiet) ref_getenv)\<rparr>"

definition ref_mpi_inner :: "(bool \<times> (ptr list, ref_lib) mpi_st) res" where
  "ref_mpi_inner =
     (let (_, i) = mpi_alloc_cq (ref_mpi ref_quiet) ref_start
      in bind_res (mpi_alloc_device (ref_mpi ref_quiet) 64 1 i) (\<lambda>(_, i). mpi_send (ref_mpi ref_quiet) 2 1 5 4096 8 1 0 i))"

lemma ref_mpi_inner_runs: "case ref_mpi_inner of Inl _ \<Rightarrow> False | Inr (ret, i) \<Rightarrow> ret"
  by code_simp

lemma ref_mpi_history:
  "\<exists>h s'. api_history (ref_mpi ref_quiet) ref_calls ref_mpi_ready = Inr (h, s') \<and> accepted h = [Send 2 1 5 4096 8 1 0]"
proof -
  let ?E = "ref_mpi ref_quiet"
  obtain c i1 d i2 i3 where i1: "mpi_alloc_cq ?E ref_start = (c, i1)" and i2: "mpi_alloc_device ?E 64 1 i1 = Inr (d, i2)"
    and i3: "mpi_send ?E 2 1 5 4096 8 1 0 i2 = Inr (True, i3)"
    using ref_mpi_inner_runs by (auto simp: ref_mpi_inner_def Let_def split: sum.splits prod.splits elim!: bind_resE)
  have b: "backend_p ref_mpi_ready = Some (backend_mpi_t ?E ref_getenv)" "inner ref_mpi_ready = ref_start"
    by (simp_all add: ref_mpi_ready_def ref_lcw_def)
  have f: "b_alloc_cq (backend_mpi_t ?E ref_getenv) = (\<lambda>s. Inr (mpi_alloc_cq ?E s))"
    "b_alloc_device (backend_mpi_t ?E ref_getenv) = mpi_alloc_device ?E" "b_send (backend_mpi_t ?E ref_getenv) = mpi_send ?E"
    by (simp_all add: backend_mpi_t_def)
  show ?thesis using b f i1 i2 i3
    by (simp add: ref_calls_def lcw_alloc_cq_def lcw_alloc_device_def lcw_send_def
        with_backend_def on_inner_def counted_call_def accepted_def)
qed

lemma ref_mpi_ready_ok:
  "backend_p ref_mpi_ready = Some (backend_mpi_t (ref_mpi ref_quiet) ref_getenv)" "fresh_ok (inner ref_mpi_ready)"
  "heap (inner ref_mpi_ready) = Map.empty" "handled_in (trace (inner ref_mpi_ready)) = {#}"
  by (simp_all add: ref_mpi_ready_def ref_lcw_def ref_start_def ref_mpi_st_def ref_rt_def rt.defs fresh_ok_def handled_in_def map_filter_def)

theorem mpi_delivers_exactly_once_witness:
  "\<exists>h s' r. api_history (ref_mpi ref_quiet) ref_calls ref_mpi_ready = Inr (h, s') \<and> posts (Send 2 1 5 4096 8 1 0) r \<and>
     {#r#} = reported h + out_heap (heap (inner s')) + handled_in (trace (inner s'))"
proof -
  obtain h s' where h: "api_history (ref_mpi ref_quiet) ref_calls ref_mpi_ready = Inr (h, s')" "accepted h = [Send 2 1 5 4096 8 1 0]"
    using ref_mpi_history by blast
  from mpi_delivers_exactly_once [OF ref_mpi_ready_ok(1) h(1) ref_mpi_ready_ok(2-4)] h
  show ?thesis by (auto simp: list_all2_Cons1)
qed

end
