(* ===== verification/LCW_Mpi_Threads.thy ===== *)
theory LCW_Mpi_Threads
  imports LCW_Mpi_Reach
begin

text \<open>
  Several threads in the MPI backend. \<open>thread_step\<close> cuts \<^verbatim>\<open>send\<close>, \<^verbatim>\<open>recv\<close>, \<^verbatim>\<open>put\<close> and \<^verbatim>\<open>do_progress\<close> of
  \<^verbatim>\<open>src/src/backend/mpi/backend_mpi.cpp\<close> and the methods of both completion managers into the steps between
  which another thread may run: one access to the shared counter, to a lock or to what a lock
  protects, one call of MPI with its stream lock, one signal. A thread that finds the lock of
  \<^verbatim>\<open>add_entry\<close> taken stays where it is and tries again.
\<close>

section \<open>The steps of a thread\<close>

datatype thread_pc =
    Idle
  | Throttle ptr request_t
  | Counting ptr request_t
  | Creating ptr request_t
  | Posting request_t entry_t
  | Adding ptr entry_t
  | Pushing ptr entry_t
  | Pushed ptr
  | Progress ptr
  | Put_trying ptr
  | Put_locked ptr
  | Put_received ptr entry_t mpi_status
  | Put_unlocking ptr "entry_t option"
  | Put_signalling ptr entry_t
  | Managing ptr
  | Trying ptr
  | Locked ptr
  | Testing ptr entry_t
  | Requeueing ptr entry_t
  | Unlocking ptr "(entry_t \<times> mpi_status option) option"
  | Completing entry_t "mpi_status option"
  | Cont_trying ptr
  | Cont_locked ptr
  | Cont_unlocking ptr

text \<open>The calls a thread may make, and where each starts.\<close>

datatype mpi_call =
    Call_send ptr int int ptr int ptr ptr
  | Call_recv ptr int int ptr int ptr ptr
  | Call_put ptr int ptr int ptr ptr
  | Call_do_progress ptr

fun start_call :: "mpi_call \<Rightarrow> ('q, 'm) mpi_st \<Rightarrow> thread_pc res" where
  "start_call (Call_send d rank tag buf len c ctx) s =
     Inr (Throttle c \<lparr>req_op = SEND, req_device = d, req_rank = rank, req_tag = tag, req_buffer = buf,
                      req_length = len, req_user_context = ctx\<rparr>)"
| "start_call (Call_recv d rank tag buf len c ctx) s =
     Inr (Creating c \<lparr>req_op = RECV, req_device = d, req_rank = rank, req_tag = tag, req_buffer = buf,
                      req_length = len, req_user_context = ctx\<rparr>)"
| "start_call (Call_put d rank buf len c ctx) s =
     bind_res (deref (devices s) d) (\<lambda>dv.
     bind_res (lcw_assert (enable_put dv) ''Put is not enabled!'') (\<lambda>_.
     Inr (Throttle c \<lparr>req_op = PUT, req_device = d, req_rank = rank, req_tag = put_tag dv, req_buffer = buf,
                      req_length = len, req_user_context = ctx\<rparr>)))"
| "start_call (Call_do_progress d) s = Inr (Progress d)"

definition mpi_post ::
  "('q, 'm) mpi_env \<Rightarrow> request_t \<Rightarrow> mpi_device_t \<Rightarrow> ('q, 'm) mpi_st \<Rightarrow> (mpi_request \<times> ('q, 'm) mpi_st) res" where
  "mpi_post E r dv =
     (if req_op r = RECV then irecv else isend) E (req_buffer r) (to_size (req_length r)) (to_int (req_rank r))
       (to_int (req_tag r)) (comm dv)"

fun thread_step :: "('q, 'm) mpi_env \<Rightarrow> thread_pc \<Rightarrow> ('q, 'm) mpi_st \<Rightarrow> (thread_pc \<times> ('q, 'm) mpi_st) res" where
  "thread_step E Idle s = Inr (Idle, s)"
| "thread_step E (Throttle c r) s =
     Inr (if g_pending_msg_max (config s) > 0
          then if g_pending_msg s > g_pending_msg_max (config s) then Idle else Counting c r
          else Creating c r, s)"
| "thread_step E (Counting c r) s = Inr (Creating c r, add_pending 1 s)"
| "thread_step E (Creating c r) s =
     (let (p, s) = new_request r s in Inr (Posting r (new_entry (req_device r) c p), s))"
| "thread_step E (Posting r e) s =
     bind_res (deref (devices s) (req_device r)) (\<lambda>dv.
     bind_res (enter_stream_cs E (req_device r) s) (\<lambda>s.
     bind_res (mpi_post E r dv s) (\<lambda>(q, s).
     bind_res (leave_stream_cs E (req_device r) s) (\<lambda>s.
     Inr (Adding (comp_manager_p dv) (e\<lparr>mpi_req := q\<rparr>), s)))))"
| "thread_step E (Adding m e) s =
     bind_res (deref (managers s) m) (\<lambda>x.
       case x of
         Man_req x \<Rightarrow>
           let (ok, l) = spin_try_lock (req_lock x)
           in if ok then Inr (Pushing m e, set_manager m (Man_req (x\<lparr>req_lock := l\<rparr>)) s) else Inr (Adding m e, s)
       | Man_cont x \<Rightarrow> bind_res (manager_cont_add_entry E x e s) (\<lambda>s. Inr (Idle, s)))"
| "thread_step E (Pushing m e) s =
     bind_res (get_manager_req m s) (\<lambda>x.
     Inr (Pushed m, set_manager m (Man_req (x\<lparr>entries := entries x @ [e]\<rparr>)) s))"
| "thread_step E (Pushed m) s =
     bind_res (get_manager_req m s) (\<lambda>x.
     bind_res (spin_unlock (req_lock x)) (\<lambda>l.
     Inr (Idle, set_manager m (Man_req (x\<lparr>req_lock := l\<rparr>)) s)))"
| "thread_step E (Progress d) s =
     bind_res (deref (devices s) d) (\<lambda>dv.
     Inr (if enable_put dv \<and> mpi_req (put_entry dv) \<noteq> MPI_REQUEST_NULL then Put_trying d else Managing d, s))"
| "thread_step E (Put_trying d) s =
     bind_res (deref (devices s) d) (\<lambda>dv.
       let (ok, l) = spin_try_lock (put_entry_lock dv)
       in Inr (if ok then (Put_locked d, set_device d (dv\<lparr>put_entry_lock := l\<rparr>) s) else (Managing d, s)))"
| "thread_step E (Put_locked d) s =
     bind_res (deref (devices s) d) (\<lambda>dv.
     if mpi_req (put_entry dv) = MPI_REQUEST_NULL then Inr (Put_unlocking d None, s)
     else
       bind_res (enter_stream_cs E d s) (\<lambda>s.
       bind_res (mpi_test E (mpi_req (put_entry dv)) s) (\<lambda>(succeed, status, q, s).
       bind_res (deref (devices s) d) (\<lambda>dv.
       let entry = (put_entry dv)\<lparr>mpi_req := q\<rparr>
       in bind_res (leave_stream_cs E d (set_device d (dv\<lparr>put_entry := entry\<rparr>) s)) (\<lambda>s.
          Inr (if succeed then Put_received d entry status else Put_unlocking d None, s))))))"
| "thread_step E (Put_received d e st) s =
     bind_res (put_completed E e st s) (\<lambda>s. Inr (Put_unlocking d (Some e), s))"
| "thread_step E (Put_unlocking d done) s =
     bind_res (unlock_put_entry d s) (\<lambda>s.
     Inr (case done of None \<Rightarrow> Managing d | Some e \<Rightarrow> Put_signalling d e, s))"
| "thread_step E (Put_signalling d e) s = bind_res (signal_comp E e s) (\<lambda>s. Inr (Managing d, s))"
| "thread_step E (Managing d) s =
     bind_res (deref (devices s) d) (\<lambda>dv.
     bind_res (deref (managers s) (comp_manager_p dv)) (\<lambda>x.
     Inr (case x of Man_req x \<Rightarrow> if entries x = [] then Idle else Trying (comp_manager_p dv)
          | Man_cont x \<Rightarrow> if cont_req x \<noteq> MPI_REQUEST_NULL then Cont_trying (comp_manager_p dv) else Idle, s)))"
| "thread_step E (Trying m) s =
     bind_res (get_manager_req m s) (\<lambda>x.
       let (ok, l) = spin_try_lock (req_lock x)
       in Inr (if ok then (Locked m, set_manager m (Man_req (x\<lparr>req_lock := l\<rparr>)) s) else (Idle, s)))"
| "thread_step E (Locked m) s =
     bind_res (get_manager_req m s) (\<lambda>x.
     Inr (case entries x of [] \<Rightarrow> (Unlocking m None, s)
          | e # rest \<Rightarrow> (Testing m e, set_manager m (Man_req (x\<lparr>entries := rest\<rparr>)) s)))"
| "thread_step E (Testing m e) s =
     bind_res (manager_req_test E e s) (\<lambda>(succeed, status, e, s).
     Inr (if succeed then Unlocking m (Some (e, status)) else Requeueing m e, s))"
| "thread_step E (Requeueing m e) s =
     bind_res (get_manager_req m s) (\<lambda>x.
     Inr (Unlocking m None, set_manager m (Man_req (x\<lparr>entries := entries x @ [e]\<rparr>)) s))"
| "thread_step E (Unlocking m done) s =
     bind_res (get_manager_req m s) (\<lambda>x.
     bind_res (spin_unlock (req_lock x)) (\<lambda>l.
     Inr (case done of None \<Rightarrow> Idle | Some (e, st) \<Rightarrow> Completing e st,
          set_manager m (Man_req (x\<lparr>req_lock := l\<rparr>)) s)))"
| "thread_step E (Completing e st) s = bind_res (manager_req_complete E e st s) (\<lambda>s. Inr (Idle, s))"
| "thread_step E (Cont_trying m) s =
     bind_res (deref (managers s) m) (\<lambda>x.
       case x of Man_req _ \<Rightarrow> Inl Bad_cast
       | Man_cont x \<Rightarrow>
           let (ok, l) = spin_try_lock (cont_lock x)
           in Inr (if ok then (Cont_locked m, set_manager m (Man_cont (x\<lparr>cont_lock := l\<rparr>)) s) else (Idle, s)))"
| "thread_step E (Cont_locked m) s =
     bind_res (deref (managers s) m) (\<lambda>x.
       case x of Man_req _ \<Rightarrow> Inl Bad_cast
       | Man_cont x \<Rightarrow>
           bind_res (mpi_test E (cont_req x) s) (\<lambda>(succeed, _, q, s).
           let (err, l) = (if succeed then MPI_Start E q (lib s) else (MPI_SUCCESS, lib s))
           in bind_res (MPI_SAFECALL err) (\<lambda>_.
              Inr (Cont_unlocking m, set_manager m (Man_cont (x\<lparr>cont_req := q\<rparr>)) (s\<lparr>lib := l\<rparr>)))))"
| "thread_step E (Cont_unlocking m) s =
     bind_res (deref (managers s) m) (\<lambda>x.
       case x of Man_req _ \<Rightarrow> Inl Bad_cast
       | Man_cont x \<Rightarrow>
           bind_res (spin_unlock (cont_lock x)) (\<lambda>l.
           Inr (Idle, set_manager m (Man_cont (x\<lparr>cont_lock := l\<rparr>)) s)))"

section \<open>Interleavings\<close>

text \<open>
  The threads with the shared state. A completion queue is polled in one step (the LCT queue is safe
  for threads). At any time the application may write memory and choose another allocator, and the state of
  MPI may change, as messages arrive or by other calls of MPI.
\<close>

inductive threads_step ::
  "('q, 'm) mpi_env \<Rightarrow> thread_pc list \<times> ('q, 'm) mpi_st \<Rightarrow> thread_pc list \<times> ('q, 'm) mpi_st \<Rightarrow> bool" for E where
  call: "start_call c s = Inr p \<Longrightarrow> threads_step E (us @ Idle # vs, s) (us @ p # vs, s)"
| go: "p \<noteq> Idle \<Longrightarrow> thread_step E p s = Inr (p', s') \<Longrightarrow> threads_step E (us @ p # vs, s) (us @ p' # vs, s')"
| poll: "util_poll_cq E c out s = Inr (b, r, s') \<Longrightarrow> threads_step E (us @ Idle # vs, s) (us @ Idle # vs, s')"
| application: "threads_step E (ps, s) (ps, s\<lparr>mem := m, blocks := bs, m_allocator := al, lib := l\<rparr>)"

abbreviation threads_run ::
  "('q, 'm) mpi_env \<Rightarrow> thread_pc list \<times> ('q, 'm) mpi_st \<Rightarrow> thread_pc list \<times> ('q, 'm) mpi_st \<Rightarrow> bool" where
  "threads_run E \<equiv> (threads_step E)\<^sup>*\<^sup>*"

section \<open>What a thread holds\<close>

fun in_hand :: "thread_pc \<Rightarrow> ptr list" where
  "in_hand (Posting r e) = [ent_request e]"
| "in_hand (Adding m e) = [ent_request e]"
| "in_hand (Pushing m e) = [ent_request e]"
| "in_hand (Put_unlocking d (Some e)) = [ent_request e]"
| "in_hand (Put_signalling d e) = [ent_request e]"
| "in_hand (Testing m e) = [ent_request e]"
| "in_hand (Requeueing m e) = [ent_request e]"
| "in_hand (Unlocking m (Some (e, st))) = [ent_request e]"
| "in_hand (Completing e st) = [ent_request e]"
| "in_hand _ = []"

definition hands :: "thread_pc list \<Rightarrow> ptr list" where
  "hands ps = concat (map in_hand ps)"

text \<open>A message that is counted and has no request yet, and one that is about to be counted.\<close>

fun counted_msg :: "thread_pc \<Rightarrow> bool" where
  "counted_msg (Creating c r) = throttled (req_op r)"
| "counted_msg _ = False"

fun counting :: "thread_pc \<Rightarrow> bool" where
  "counting (Counting c r) = True"
| "counting _ = False"

text \<open>Who is between the lock and the unlock of a manager, and of the put receive of a device.\<close>

fun in_manager :: "ptr \<Rightarrow> thread_pc \<Rightarrow> bool" where
  "in_manager m (Pushing m' e) \<longleftrightarrow> m' = m"
| "in_manager m (Pushed m') \<longleftrightarrow> m' = m"
| "in_manager m (Locked m') \<longleftrightarrow> m' = m"
| "in_manager m (Testing m' e) \<longleftrightarrow> m' = m"
| "in_manager m (Requeueing m' e) \<longleftrightarrow> m' = m"
| "in_manager m (Unlocking m' x) \<longleftrightarrow> m' = m"
| "in_manager m (Cont_locked m') \<longleftrightarrow> m' = m"
| "in_manager m (Cont_unlocking m') \<longleftrightarrow> m' = m"
| "in_manager m _ \<longleftrightarrow> False"

fun in_put :: "ptr \<Rightarrow> thread_pc \<Rightarrow> bool" where
  "in_put d (Put_locked d') \<longleftrightarrow> d' = d"
| "in_put d (Put_received d' e st) \<longleftrightarrow> d' = d"
| "in_put d (Put_unlocking d' x) \<longleftrightarrow> d' = d"
| "in_put d _ \<longleftrightarrow> False"

definition manager_locked :: "('q, 'm) mpi_st \<Rightarrow> ptr \<Rightarrow> bool" where
  "manager_locked s m =
     (case managers s m of None \<Rightarrow> False | Some (Man_req x) \<Rightarrow> req_lock x | Some (Man_cont x) \<Rightarrow> cont_lock x)"

definition put_locked :: "('q, 'm) mpi_st \<Rightarrow> ptr \<Rightarrow> bool" where
  "put_locked s d = (case devices s d of None \<Rightarrow> False | Some dv \<Rightarrow> put_entry_lock dv)"

end
