(* ===== verification/LCW_Mpi_Thread_Steps.thy ===== *)
theory LCW_Mpi_Thread_Steps
  imports LCW_Mpi_Threads
begin

text \<open>
  What one step of one thread in the MPI backend does: it keeps the ownership of requests with what the
  thread has in hand, leaves alone what the other threads have in hand and the put receives it has not
  locked, and a lock changes exactly when the thread enters or leaves its section.
\<close>

section \<open>What a step does to the thread and to the others\<close>

definition put_request :: "('q, 'm) mpi_st \<Rightarrow> ptr \<Rightarrow> ptr option" where
  "put_request s d = map_option (\<lambda>dv. ent_request (put_entry dv)) (devices s d)"

definition queueable :: "('q, 'm) mpi_st \<Rightarrow> ptr \<Rightarrow> bool" where
  "queueable s p \<longleftrightarrow> (\<exists>r. heap s p = Some r \<and> req_op r \<noteq> PUT_SIGNAL)"

text \<open>What holds at each place of the code, and what the other threads leave alone.\<close>

fun at_ok :: "('q, 'm) mpi_st \<Rightarrow> thread_pc \<Rightarrow> bool" where
  "at_ok s (Throttle c r) \<longleftrightarrow> throttled (req_op r)"
| "at_ok s (Counting c r) \<longleftrightarrow> throttled (req_op r)"
| "at_ok s (Creating c r) \<longleftrightarrow> req_op r \<noteq> PUT_SIGNAL"
| "at_ok s (Posting r e) \<longleftrightarrow> queueable s (ent_request e)"
| "at_ok s (Adding m e) \<longleftrightarrow> queueable s (ent_request e)"
| "at_ok s (Pushing m e) \<longleftrightarrow> queueable s (ent_request e)"
| "at_ok s (Testing m e) \<longleftrightarrow> queueable s (ent_request e)"
| "at_ok s (Requeueing m e) \<longleftrightarrow> queueable s (ent_request e)"
| "at_ok s (Put_received d e st) \<longleftrightarrow> put_request s d = Some (ent_request e)"
| "at_ok s _ \<longleftrightarrow> True"

definition spares :: "ptr set \<Rightarrow> ptr list \<Rightarrow> ('q, 'm) mpi_st \<Rightarrow> ('q, 'm) mpi_st \<Rightarrow> bool" where
  "spares D H s s' \<longleftrightarrow> config s' = config s \<and> (\<forall>p\<in>set H. heap s' p = heap s p) \<and>
     (\<forall>d. d \<notin> D \<longrightarrow> put_request s' d = put_request s d)"

lemma at_ok_spared:
  assumes "at_ok s p" and "spares D H s s'" and "set (in_hand p) \<subseteq> set H" and "\<forall>d\<in>D. \<not> in_put d p"
  shows "at_ok s' p"
  using assms by (cases p) (auto simp: spares_def queueable_def)

text \<open>A lock changes hands with the thread that enters or leaves its section.\<close>

definition locks_follow :: "thread_pc \<Rightarrow> thread_pc \<Rightarrow> ('q, 'm) mpi_st \<Rightarrow> ('q, 'm) mpi_st \<Rightarrow> bool" where
  "locks_follow p p' s s' \<longleftrightarrow>
     (\<forall>m. of_bool (manager_locked s' m) + of_bool (in_manager m p) =
          of_bool (manager_locked s m) + (of_bool (in_manager m p') :: nat)) \<and>
     (\<forall>d. of_bool (put_locked s' d) + of_bool (in_put d p) =
          of_bool (put_locked s d) + (of_bool (in_put d p') :: nat))"

definition step_ok ::
  "('q, 'm) mpi_env \<Rightarrow> ('q \<Rightarrow> ptr list) \<Rightarrow> int \<Rightarrow> int \<Rightarrow> ptr list \<Rightarrow> thread_pc \<Rightarrow> ('q, 'm) mpi_st \<Rightarrow> thread_pc \<Rightarrow> ('q, 'm) mpi_st \<Rightarrow> bool" where
  "step_ok E view A R H p s p' s' \<longleftrightarrow>
     mpi_inv_by (A + of_bool (counted_msg p')) (R - of_bool (counting p')) E view (in_hand p' @ H) s' \<and>
     at_ok s' p' \<and> spares {d. in_put d p} H s s' \<and> locks_follow p p' s s'"

text \<open>The calls around MPI change at most the stream lock of a device.\<close>

definition dev_like :: "('q, 'm) mpi_st \<Rightarrow> ('q, 'm) mpi_st \<Rightarrow> bool" where
  "dev_like s s' \<longleftrightarrow> managers s' = managers s \<and>
     (\<forall>d. map_option (stream_lock_update (\<lambda>_. False)) (devices s' d) = map_option (stream_lock_update (\<lambda>_. False)) (devices s d))"

lemma dev_like_trans: "dev_like s s1 \<Longrightarrow> dev_like s1 s2 \<Longrightarrow> dev_like s s2"
  by (simp add: dev_like_def)

lemma dev_like_same: "managers s' = managers s \<Longrightarrow> devices s' = devices s \<Longrightarrow> dev_like s s'"
  by (simp add: dev_like_def)

lemma dev_likeD:
  assumes "dev_like s s'"
  shows "managers s' = managers s" "manager_locked s' = manager_locked s" "put_locked s' = put_locked s"
    "put_request s' = put_request s"
proof -
  show m: "managers s' = managers s" using assms by (simp add: dev_like_def)
  then show "manager_locked s' = manager_locked s" by (simp add: manager_locked_def fun_eq_iff)
  have d: "map_option (stream_lock_update (\<lambda>_. False)) (devices s' d) = map_option (stream_lock_update (\<lambda>_. False)) (devices s d)" for d
    using assms by (simp add: dev_like_def)
  have "map_option put_entry_lock (devices s' d) = map_option put_entry_lock (devices s d)" for d
    using arg_cong [OF d [of d], of "map_option put_entry_lock"] by (simp add: option.map_comp comp_def)
  then have "put_locked s' d = put_locked s d" for d
    by (metis (no_types, lifting) put_locked_def option.case_eq_if option.map_disc_iff option.map_sel)
  then show "put_locked s' = put_locked s" ..
  show "put_request s' = put_request s"
  proof
    fix x show "put_request s' x = put_request s x"
      using arg_cong [OF d [of x], of "map_option (\<lambda>dv. ent_request (put_entry dv))"] by (simp add: put_request_def option.map_comp comp_def)
  qed
qed

lemma dev_like_stream:
  "enter_stream_cs E d s = Inr s' \<Longrightarrow> dev_like s s'" "leave_stream_cs E d s = Inr s' \<Longrightarrow> dev_like s s'"
  by (auto simp: enter_stream_cs_def leave_stream_cs_def set_device_def deref_eq_Inr dev_like_def split: if_splits
      elim!: bind_resE)

lemma dev_like_mpi_test: "mpi_test E q s = Inr (b, st, q', s') \<Longrightarrow> dev_like s s'"
  by (auto simp: mpi_test_def Let_def elim!: bind_resE intro!: dev_like_same dest!: run_callbacks_frame)

lemma dev_like_mpi_post: "mpi_post E r dv s = Inr (q, s') \<Longrightarrow> dev_like s s'"
  by (auto simp: mpi_post_def split: if_splits intro!: dev_like_same dest!: isend_state irecv_state)

lemma dev_like_manager_req_test: "manager_req_test E e s = Inr (b, st, e', s') \<Longrightarrow> dev_like s s'"
  by (auto simp: manager_req_test_def split: if_splits elim!: bind_resE intro: dev_like_same
      dest!: dev_like_stream dev_like_mpi_test intro: dev_like_trans)

lemma locks_follow_same:
  "manager_locked s' = manager_locked s \<Longrightarrow> put_locked s' = put_locked s \<Longrightarrow>
   (\<And>m. in_manager m p' = in_manager m p) \<Longrightarrow> (\<And>d. in_put d p' = in_put d p) \<Longrightarrow> locks_follow p p' s s'"
  by (simp add: locks_follow_def)

subsection \<open>The counter\<close>

lemma inv_counters:
  assumes "mpi_inv_by A R E view hand s"
    and "g_pending_msg_max (config s) > 0 \<Longrightarrow>
      0 \<le> A' \<and> g_pending_msg_max (config s) + R' \<le> int_max \<and> A' = A \<and> g_pending_msg s \<le> g_pending_msg_max (config s) + R'"
  shows "mpi_inv_by A' R' E view hand s"
  using assms by (auto simp: mpi_inv_by_def acct_def)

lemma inv_unthrottled:
  "mpi_inv_by A R E view hand s \<Longrightarrow> \<not> g_pending_msg_max (config s) > 0 \<Longrightarrow> mpi_inv_by A' R' E view hand s"
  by (auto simp: mpi_inv_by_def acct_def)

lemma inv_count:
  assumes I: "mpi_inv_by A (R - 1) E view hand s" and R: "g_pending_msg_max (config s) > 0 \<Longrightarrow> g_pending_msg_max (config s) + R \<le> int_max"
  shows "mpi_inv_by (A + 1) R E view hand (add_pending 1 s)"
proof -
  note D = mpi_invD [OF I] and C = acctD [OF mpi_invD(4) [OF I]]
  have "to_int (g_pending_msg s + 1) = g_pending_msg s + 1" if "g_pending_msg_max (config s) > 0"
    using C(4-7) that R by (intro to_int_id) (simp add: is_int_def int_max_def)
  moreover have "mpi_owns view hand (add_pending 1 s) = mpi_owns view hand s" by (rule owns_same) (simp_all add: add_pending_def)
  ultimately show ?thesis using D R by (auto simp: mpi_inv_by_def acct_def add_pending_def mpi_fresh_def fresh_ok_def)
qed

lemma inv_create:
  assumes I: "mpi_inv_by (A + of_bool (throttled (req_op r))) R E view hand s" and A: "0 \<le> A"
  shows "mpi_inv_by A R E view (next_obj s # hand) (snd (new_request r s))"
proof (cases "throttled (req_op r)")
  case True
  note D = mpi_invD [OF I]
  let ?s' = "snd (new_request r s)"
  have "acct A R (mpi_owns view hand s) (heap s) (g_pending_msg s - 1) (g_pending_msg_max (config s))"
    using D(4) True A by (auto simp: acct_def)
  then have "acct A R ((mpi_owns view hand s)(Own_hand := next_obj s # hand)) ((heap s)(next_obj s \<mapsto> r)) (g_pending_msg s)
      (g_pending_msg_max (config s))"
    using I True acctD(6) [OF D(4)] by (intro acct_alloc) auto
  moreover have "mpi_owns view (next_obj s # hand) ?s' = (mpi_owns view hand s)(Own_hand := next_obj s # hand)"
    using owns_same [of ?s' s view "next_obj s # hand"] owns_hand [of view "next_obj s # hand" s hand] by simp
  ultimately show ?thesis using D(1) fresh_new_request [OF D(2)] by (simp add: mpi_inv_by_def)
next
  case False
  then show ?thesis using inv_new_request [OF _ False] I by simp
qed

subsection \<open>Each step\<close>

text \<open>Two rules for the many steps that only move along: no owned object is touched, or MPI is called.\<close>

lemma step_ok_core:
  assumes I: "mpi_inv_by (A + of_bool (counted_msg p)) (R - of_bool (counting p)) E view (in_hand p @ H) s"
    and c: "core s' = core s" "config s' = config s"
    and p: "in_hand p' = in_hand p" "counted_msg p' = counted_msg p" "counting p' = counting p" "at_ok s' p'" "locks_follow p p' s s'"
  shows "step_ok E view A R H p s p' s'"
  using inv_core [OF I c(1)] c p coreD(1) [OF c(1)] coreD(6) [OF c(1)]
  by (simp add: step_ok_def spares_def put_request_def)

lemma step_ok_keeps:
  assumes I: "mpi_inv_by (A + of_bool (counted_msg p)) (R - of_bool (counting p)) E view (in_hand p @ H) s"
    and k: "keeps E view (in_hand p @ H) s s'" "dev_like s s'"
    and p: "in_hand p' = in_hand p" "counted_msg p' = counted_msg p" "counting p' = counting p" "at_ok s' p'"
      "\<And>m. in_manager m p' = in_manager m p" "\<And>d. in_put d p' = in_put d p"
  shows "step_ok E view A R H p s p' s'"
proof -
  note K = keepsD [OF k(1) I]
  show ?thesis using K(1,4) K(2) p dev_likeD [OF k(2)]
    by (auto simp: step_ok_def spares_def intro: locks_follow_same)
qed

lemma queueable_keeps:
  "keeps E view hand s s' \<Longrightarrow> mpi_inv_by A R E view hand s \<Longrightarrow> p \<in> set hand \<Longrightarrow> queueable s p \<Longrightarrow> queueable s' p"
  using keepsD(2) by (metis queueable_def)

lemma step_throttle:
  assumes "mpi_inv_by A R E view H s" and "throttled (req_op r)" and "1 \<le> R"
    and "thread_step E (Throttle c r) s = Inr (p', s')"
  shows "step_ok E view A R H (Throttle c r) s p' s'"
proof -
  note C = acctD [OF mpi_invD(4) [OF assms(1)]]
  have "mpi_inv_by A (R - 1) E view H s" if "g_pending_msg_max (config s) > 0" "g_pending_msg s \<le> g_pending_msg_max (config s)"
    using C(4,7) that assms(3) by (intro inv_counters [OF assms(1)]) auto
  moreover have "mpi_inv_by (A + 1) R E view H s" if "\<not> g_pending_msg_max (config s) > 0"
    by (rule inv_unthrottled [OF assms(1) that])
  ultimately show ?thesis using assms
    by (auto simp: step_ok_def spares_def locks_follow_def throttled_def split: if_splits)
qed

lemma step_counting:
  assumes I: "mpi_inv_by A (R - 1) E view H s" and r: "throttled (req_op r)"
    and R: "g_pending_msg_max (config s) > 0 \<Longrightarrow> g_pending_msg_max (config s) + R \<le> int_max"
    and "thread_step E (Counting c r) s = Inr (p', s')"
  shows "step_ok E view A R H (Counting c r) s p' s'"
proof -
  have "p' = Creating c r" "s' = add_pending 1 s" using assms(4) by simp_all
  then show ?thesis using inv_count [OF I R] r
    by (auto simp: step_ok_def spares_def locks_follow_def throttled_def add_pending_def put_request_def
        manager_locked_def put_locked_def)
qed

lemma step_creating:
  assumes I: "mpi_inv_by (A + of_bool (throttled (req_op r))) R E view H s" and A: "0 \<le> A" and r: "req_op r \<noteq> PUT_SIGNAL"
    and t: "thread_step E (Creating c r) s = Inr (p', s')"
  shows "step_ok E view A R H (Creating c r) s p' s'"
proof -
  have p: "p' = Posting r (new_entry (req_device r) c (next_obj s))" "s' = snd (new_request r s)"
    using t by (auto simp: new_request_def)
  have "heap s' p = heap s p" if "p \<in> set H" for p using mpi_inv_hand_lt [OF I that] p by simp
  then show ?thesis using inv_create [OF I A] r
    by (auto simp: step_ok_def spares_def locks_follow_def p put_request_def manager_locked_def put_locked_def queueable_def)
qed

lemma step_posting:
  assumes I: "mpi_inv_by A R E view (ent_request e # H) s" and q: "queueable s (ent_request e)"
    and t: "thread_step E (Posting r e) s = Inr (p', s')"
  shows "step_ok E view A R H (Posting r e) s p' s'"
proof -
  obtain dv s1 x s2 where dv: "devices s (req_device r) = Some dv" and s1: "enter_stream_cs E (req_device r) s = Inr s1"
    and s2: "mpi_post E r dv s1 = Inr (x, s2)" and s': "leave_stream_cs E (req_device r) s2 = Inr s'"
    and p': "p' = Adding (comp_manager_p dv) (e\<lparr>mpi_req := x\<rparr>)"
    using t by (auto simp: deref_eq_Inr elim!: bind_resE)
  have k: "keeps E view (ent_request e # H) s s'"
    using s2 by (intro keeps_posting [OF s1 _ s']) (auto simp: mpi_post_def split: if_splits)
  have "dev_like s s'" using dev_like_stream(1) [OF s1] dev_like_mpi_post [OF s2] dev_like_stream(2) [OF s'] by (blast intro: dev_like_trans)
  then show ?thesis using k I p' queueable_keeps [OF k I _ q] by (intro step_ok_keeps) simp_all
qed

lemma locked_set_manager [simp]:
  "manager_locked (set_manager m (Man_req x) s) = (manager_locked s)(m := req_lock x)"
  "manager_locked (set_manager m (Man_cont y) s) = (manager_locked s)(m := cont_lock y)"
  "put_locked (set_manager m z s) = put_locked s" "put_request (set_manager m z s) = put_request s"
  by (simp_all add: fun_eq_iff manager_locked_def put_locked_def put_request_def)

lemma locked_set_device [simp]:
  "manager_locked (set_device d dv s) = manager_locked s"
  "put_locked (set_device d dv s) = (put_locked s)(d := put_entry_lock dv)"
  "put_request (set_device d dv s) = (put_request s)(d := Some (ent_request (put_entry dv)))"
  by (simp_all add: fun_eq_iff manager_locked_def put_locked_def put_request_def)

lemma locked_at:
  "managers s m = Some (Man_req x) \<Longrightarrow> manager_locked s m = req_lock x"
  "managers s m = Some (Man_cont y) \<Longrightarrow> manager_locked s m = cont_lock y"
  "devices s d = Some dv \<Longrightarrow> put_locked s d = put_entry_lock dv"
  by (simp_all add: manager_locked_def put_locked_def)

lemma core_relock:
  "managers s m = Some (Man_req x) \<Longrightarrow> entries x' = entries x \<Longrightarrow> core (set_manager m (Man_req x') s) = core s"
  "managers s m = Some (Man_cont y) \<Longrightarrow> core (set_manager m (Man_cont y') s) = core s"
  by (simp_all add: core_set_manager man_ids_def)

text \<open>Taking and releasing a lock, with the same requests in hand.\<close>

lemma step_ok_relock:
  assumes I: "mpi_inv_by A R E view (in_hand p @ H) s"
    and x: "managers s m = Some (Man_req x) \<and> s' = set_manager m (Man_req (x\<lparr>req_lock := l\<rparr>)) s \<or>
      managers s m = Some (Man_cont y) \<and> s' = set_manager m (Man_cont (y\<lparr>cont_lock := l\<rparr>)) s"
    and l: "l \<noteq> manager_locked s m"
    and p: "in_hand p' = in_hand p" "\<not> counted_msg p" "\<not> counted_msg p'" "\<not> counting p" "\<not> counting p'" "at_ok s' p'"
      "\<And>d. \<not> in_put d p" "\<And>d. \<not> in_put d p'"
      "\<And>i. in_manager i p \<longleftrightarrow> i = m \<and> \<not> l" "\<And>i. in_manager i p' \<longleftrightarrow> i = m \<and> l"
  shows "step_ok E view A R H p s p' s'"
proof (rule step_ok_core)
  show "core s' = core s" "config s' = config s" using x by (auto intro: core_relock)
  have "manager_locked s' = (manager_locked s)(m := l)" "put_locked s' = put_locked s" using x by auto
  then show "locks_follow p p' s s'" using l p(7-) by (cases l) (simp_all add: locks_follow_def)
qed (use I p in simp_all)

lemma step_adding:
  assumes I: "mpi_inv_by A R E view (ent_request e # H) s" and q: "queueable s (ent_request e)"
    and t: "thread_step E (Adding m e) s = Inr (p', s')"
  shows "step_ok E view A R H (Adding m e) s p' s'"
proof -
  obtain x where x: "managers s m = Some x" using t by (auto simp: deref_eq_Inr elim!: bind_resE)
  show ?thesis
  proof (cases x)
    case (Man_req y)
    show ?thesis
    proof (cases "req_lock y")
      case True
      then have "p' = Adding m e" "s' = s" using t x Man_req by simp_all
      then show ?thesis using I q by (intro step_ok_core) (simp_all add: locks_follow_def)
    next
      case False
      then have "p' = Pushing m e" "s' = set_manager m (Man_req (y\<lparr>req_lock := True\<rparr>)) s" using t x Man_req by simp_all
      then show ?thesis using I q x Man_req False
        by (intro step_ok_relock [where x = y and m = m and l = True]) (auto simp: locked_at queueable_def)
    qed
  next
    case (Man_cont y)
    then have a: "manager_cont_add_entry E y e s = Inr s'" and p': "p' = Idle" using t x by (auto elim!: bind_resE)
    have op: "req_op r \<noteq> PUT_SIGNAL" if "heap s (ent_request e) = Some r" for r using q that by (simp add: queueable_def)
    let ?s0 = "snd (new_centry e s)"
    have I0: "mpi_inv_by A R E view H ?s0" by (rule inv_new_centry [OF I op])
    obtain s1 cbs l s2 where s1: "enter_stream_cs E (ent_device e) ?s0 = Inr s1"
      and s2: "run_callbacks E cbs (s1\<lparr>lib := l\<rparr>) = Inr s2" and s': "leave_stream_cs E (ent_device e) s2 = Inr s'"
      using a by (auto simp: manager_cont_add_entry_def new_centry_def Let_def split: prod.splits elim!: bind_resE)
    note K1 = keepsD [OF keeps_stream(1) [OF s1] I0]
    have Il: "mpi_inv_by A R E view H (s1\<lparr>lib := l\<rparr>)" by (rule inv_core [OF K1(1)]) (simp add: core_def)
    note K2 = inv_run_callbacks [OF Il s2] run_callbacks_frame [OF s2]
    note K3 = keepsD [OF keeps_stream(2) [OF s'] conjunct1 [OF K2(1)]]
    have "dev_like s ?s0" by (rule dev_like_same) (simp_all add: new_centry_def)
    moreover have "dev_like s1 s2" using K2(2) by (intro dev_like_same) simp_all
    ultimately have dl: "dev_like s s'" using dev_like_stream(1) [OF s1] dev_like_stream(2) [OF s'] by (blast intro: dev_like_trans)
    have "heap s' p = heap s p" if "p \<in> set H" for p
      using K1(2) [OF that] K2(1) K3(2) [OF that] that by (simp add: new_centry_def)
    moreover have "config s' = config s" using K1(4) K2(2) K3(4) by (simp add: new_centry_def)
    ultimately show ?thesis using inv_manager_cont_add_entry [OF I a op] dev_likeD [OF dl] p'
      by (auto simp: step_ok_def spares_def intro: locks_follow_same)
  qed
qed

lemma step_push:
  assumes I: "mpi_inv_by A R E view (ent_request e # H) s" and q: "queueable s (ent_request e)"
    and x: "managers s m = Some (Man_req x)" and s': "s' = set_manager m (Man_req (x\<lparr>entries := entries x @ [e]\<rparr>)) s"
    and p: "in_hand p = [ent_request e]" "in_hand p' = []" "\<not> counted_msg p" "\<not> counted_msg p'" "\<not> counting p" "\<not> counting p'"
      "at_ok s' p'" "\<And>d. \<not> in_put d p" "\<And>d. \<not> in_put d p'" "\<And>i. in_manager i p \<longleftrightarrow> i = m" "\<And>i. in_manager i p' \<longleftrightarrow> i = m"
  shows "step_ok E view A R H p s p' s'"
proof -
  have "mpi_inv_by A R E view H s'" unfolding s' using q by (intro inv_push_back [OF I x]) (auto simp: queueable_def)
  then show ?thesis using x p by (auto simp: step_ok_def spares_def locks_follow_def s' locked_at)
qed

lemma step_pop:
  assumes I: "mpi_inv_by A R E view H s" and x: "managers s m = Some (Man_req x)" "entries x = e # rest"
  shows "step_ok E view A R H (Locked m) s (Testing m e) (set_manager m (Man_req (x\<lparr>entries := rest\<rparr>)) s)"
proof -
  let ?s' = "set_manager m (Man_req (x\<lparr>entries := rest\<rparr>)) s"
  have J: "mpi_inv_by A R E view (ent_request e # H) ?s'" using x by (intro inv_pop_front [OF I x(1)]) simp
  obtain r where "heap s (ent_request e) = Some r" using mpi_inv_live [OF J] by auto
  then have "queueable s (ent_request e)" using inv_front_op [OF I x(1)] x(2) by (auto simp: queueable_def)
  then show ?thesis using J x by (auto simp: step_ok_def spares_def locks_follow_def locked_at queueable_def)
qed

lemma step_testing:
  assumes I: "mpi_inv_by A R E view (ent_request e # H) s" and q: "queueable s (ent_request e)"
    and t: "thread_step E (Testing m e) s = Inr (p', s')"
  shows "step_ok E view A R H (Testing m e) s p' s'"
proof -
  obtain b st e' where r: "manager_req_test E e s = Inr (b, st, e', s')"
    and p': "p' = (if b then Unlocking m (Some (e', st)) else Requeueing m e')" using t by (auto elim!: bind_resE)
  note K = keeps_manager_req_test(1) [OF r, of view "ent_request e # H"] keeps_manager_req_test(2) [OF r]
  show ?thesis using K I p' queueable_keeps [OF K(1) I _ q] dev_like_manager_req_test [OF r]
    by (intro step_ok_keeps) simp_all
qed

lemma signal_comp_spares:
  assumes "mpi_inv_by A R E view (ent_request e # H) s" and "signal_comp E e s = Inr s'"
  shows "spares {} H s s'" "dev_like s s'"
proof -
  have "heap s' p = heap s p" if "p \<in> set H" for p
  proof (rule signal_comp_heap [OF assms(2)])
    show "p < next_obj s" using mpi_inv_hand_lt [OF assms(1)] that by simp
    have "distinct (ent_request e # H)" using partitioned_distinct [OF acctD(1) [OF mpi_invD(4) [OF assms(1)]], of Own_hand] by simp
    then show "p \<noteq> ent_request e" using that by auto
  qed
  then show "spares {} H s s'" using signal_comp_frame [OF assms(2)] by (simp add: spares_def put_request_def)
  show "dev_like s s'" using signal_comp_frame [OF assms(2)] by (intro dev_like_same) simp_all
qed

lemma step_ok_signalled:
  assumes "mpi_inv_by A R E view H s'" "spares {} H s s'" "dev_like s s'"
    and p: "in_hand p' = []" "\<not> counted_msg p'" "\<not> counting p'" "at_ok s' p'"
      "\<And>m. in_manager m p' = in_manager m p" "\<And>d. in_put d p' = in_put d p"
  shows "step_ok E view A R H p s p' s'"
  using assms dev_likeD [OF assms(3)] by (auto simp: step_ok_def spares_def intro: locks_follow_same)

lemma step_completing:
  assumes I: "mpi_inv_by A R E view (ent_request e # H) s" and t: "thread_step E (Completing e st) s = Inr (p', s')"
  shows "step_ok E view A R H (Completing e st) s p' s'"
proof -
  have c: "manager_req_complete E e st s = Inr s'" and p': "p' = Idle" using t by (auto elim!: bind_resE)
  have "spares {} H s s' \<and> dev_like s s'" using c
  proof (cases rule: manager_req_completeE)
    case (sent r)
    then show ?thesis using signal_comp_spares [OF I] by blast
  next
    case (received r x s1)
    have I1: "mpi_inv_by A R E view (ent_request e # H) s1" by (rule inv_set_received [OF I received(4)])
    have "distinct (ent_request e # H)" using partitioned_distinct [OF acctD(1) [OF mpi_invD(4) [OF I]], of Own_hand] by simp
    then have "spares {} H s s1" "dev_like s s1"
      using received(4) by (auto elim!: set_receivedE simp: spares_def put_request_def intro: dev_like_same)
    then show ?thesis using signal_comp_spares [OF I1 received(5)] dev_like_trans by (auto simp: spares_def)
  qed
  then show ?thesis using inv_manager_req_complete [OF I c] p' by (intro step_ok_signalled) simp_all
qed

lemma step_put_signalling:
  assumes I: "mpi_inv_by A R E view (ent_request e # H) s" and t: "thread_step E (Put_signalling d e) s = Inr (p', s')"
  shows "step_ok E view A R H (Put_signalling d e) s p' s'"
proof -
  have c: "signal_comp E e s = Inr s'" and p': "p' = Managing d" using t by (auto elim!: bind_resE)
  show ?thesis using inv_signal_comp [OF I c] signal_comp_spares [OF I c] p' by (intro step_ok_signalled) simp_all
qed

subsection \<open>The put receive\<close>

lemma step_put_trying:
  assumes I: "mpi_inv_by A R E view H s" and t: "thread_step E (Put_trying d) s = Inr (p', s')"
  shows "step_ok E view A R H (Put_trying d) s p' s'"
proof -
  obtain dv where dv: "devices s d = Some dv" using t by (auto simp: deref_eq_Inr elim!: bind_resE)
  show ?thesis
  proof (cases "put_entry_lock dv")
    case True
    then show ?thesis using t dv I by (intro step_ok_core) (auto simp: locks_follow_def)
  next
    case False
    then have p: "p' = Put_locked d" "s' = set_device d (dv\<lparr>put_entry_lock := True\<rparr>) s" using t dv by simp_all
    have "locks_follow (Put_trying d) p' s s'" using False dv by (simp add: p locks_follow_def locked_at)
    then show ?thesis using I p dv by (intro step_ok_core) (simp_all add: core_set_device)
  qed
qed

lemma step_put_locked:
  assumes I: "mpi_inv_by A R E view H s" and t: "thread_step E (Put_locked d) s = Inr (p', s')"
  shows "step_ok E view A R H (Put_locked d) s p' s'"
proof -
  obtain dv where dv: "devices s d = Some dv" using t by (auto simp: deref_eq_Inr elim!: bind_resE)
  show ?thesis
  proof (cases "mpi_req (put_entry dv) = MPI_REQUEST_NULL")
    case True
    then have "p' = Put_unlocking d None" "s' = s" using t dv by simp_all
    then show ?thesis using I by (intro step_ok_core) (simp_all add: locks_follow_def)
  next
    case False
    then obtain s1 b st q s2 dv2 where s1: "enter_stream_cs E d s = Inr s1"
      and s2: "mpi_test E (mpi_req (put_entry dv)) s1 = Inr (b, st, q, s2)" and dv2: "devices s2 d = Some dv2"
      and s': "leave_stream_cs E d (set_device d (dv2\<lparr>put_entry := (put_entry dv2)\<lparr>mpi_req := q\<rparr>\<rparr>) s2) = Inr s'"
      and p': "p' = (if b then Put_received d ((put_entry dv2)\<lparr>mpi_req := q\<rparr>) st else Put_unlocking d None)"
      using t dv by (auto simp: deref_eq_Inr Let_def elim!: bind_resE)
    let ?s3 = "set_device d (dv2\<lparr>put_entry := (put_entry dv2)\<lparr>mpi_req := q\<rparr>\<rparr>) s2"
    have k2: "keeps E view H s s2" by (rule keeps_trans [OF keeps_stream(1) [OF s1] keeps_mpi_test [OF s2]])
    have d2: "dev_like s s2" by (rule dev_like_trans [OF dev_like_stream(1) [OF s1] dev_like_mpi_test [OF s2]])
    have c3: "core ?s3 = core s2" using dv2 by (simp add: core_set_device)
    note K2 = keepsD [OF k2 I]
    note K' = keepsD [OF keeps_stream(2) [OF s'] inv_core [OF K2(1) c3]]
    note L2 = dev_likeD [OF d2] and L' = dev_likeD [OF dev_like_stream(2) [OF s']]
    have pr: "put_request ?s3 = put_request s2" "put_locked ?s3 = put_locked s2"
      using dv2 by (auto simp: fun_eq_iff put_request_def put_locked_def)
    have "put_request s' d = Some (ent_request (put_entry dv2))" unfolding L'(4) by simp
    moreover have "spares {d'. in_put d' (Put_locked d)} H s s'"
      using K2(2,4) K'(2,4) L2(4) L'(4) pr(1) by (simp add: spares_def)
    moreover have "locks_follow (Put_locked d) p' s s'"
      using L2 L' pr(2) p' by (intro locks_follow_same) simp_all
    ultimately show ?thesis using K'(1) p' by (simp add: step_ok_def)
  qed
qed

lemma post_put_recv_parts:
  assumes p: "post_put_recv E d c s = Inr s'"
  obtains r s3 dv3 e where "req_op r = PUT_SIGNAL" "\<And>view H. keeps E view H (snd (new_request r s)) s3" "dev_like s s3"
    "devices s3 d = Some dv3" "s' = set_device d (dv3\<lparr>put_entry := e\<rparr>) s3"
proof -
  obtain dv where dv: "devices s d = Some dv" using p by (auto simp: post_put_recv_def deref_eq_Inr elim!: bind_resE)
  define r where "r = \<lparr>req_op = PUT_SIGNAL, req_device = d, req_rank = - 1, req_tag = put_tag dv,
            req_buffer = put_rbuf_data dv, req_length = to_int64 (put_rbuf_size dv), req_user_context = nullptr\<rparr>"
  let ?s0 = "snd (new_request r s)"
  obtain s1 q s2 s3 dv3 e where t: "enter_stream_cs E d ?s0 = Inr s1"
    "irecv E (put_rbuf_data dv) (to_size (to_int64 (put_rbuf_size dv))) (MPI_ANY_SOURCE E)
       (to_int (put_tag dv)) (comm dv) s1 = Inr (q, s2)"
    "leave_stream_cs E d s2 = Inr s3" "devices s3 d = Some dv3" "s' = set_device d (dv3\<lparr>put_entry := e\<rparr>) s3"
    using p dv unfolding post_put_recv_def by (auto simp: r_def new_request_def Let_def deref_eq_Inr elim!: bind_resE)
  have k: "keeps E view H ?s0 s3" for view H using keeps_posting [OF t(1) disjI2 [OF t(2)] t(3)] .
  have "dev_like s ?s0" by (rule dev_like_same) simp_all
  moreover have "dev_like s1 s2" using irecv_state [OF t(2)] by (auto intro: dev_like_same)
  ultimately have "dev_like s s3" using dev_like_stream(1) [OF t(1)] dev_like_stream(2) [OF t(3)] by (blast intro: dev_like_trans)
  then show thesis using that [OF _ k _ t(4,5)] by (simp add: r_def)
qed

lemma post_put_recv_locks:
  assumes "post_put_recv E d c s = Inr s'"
  shows "manager_locked s' = manager_locked s" "put_locked s' = put_locked s"
proof -
  obtain s3 dv3 e where p: "dev_like s s3" "devices s3 d = Some dv3" "s' = set_device d (dv3\<lparr>put_entry := e\<rparr>) s3"
    using assms by (rule post_put_recv_parts)
  have "put_locked s' = put_locked s3" using p(2,3) by (simp add: fun_eq_iff locked_at)
  then show "manager_locked s' = manager_locked s" "put_locked s' = put_locked s"
    using dev_likeD(2,3) [OF p(1)] p(3) by simp_all
qed

lemma post_put_recv_spares:
  assumes I: "mpi_inv_by A R E view H s" and p: "post_put_recv E d c s = Inr s'"
  shows "spares {d} H s s'"
  using p
proof (rule post_put_recv_parts)
  fix r s3 dv3 e
  assume r: "req_op r = PUT_SIGNAL" and k: "\<And>view H. keeps E view H (snd (new_request r s)) s3"
    and dl: "dev_like s s3" and s': "s' = set_device d (dv3\<lparr>put_entry := e\<rparr>) s3"
  have I0: "mpi_inv_by A R E view (next_obj s # H) (snd (new_request r s))"
    by (rule inv_new_request [OF I]) (simp add: r throttled_def)
  note K = keepsD [OF k I0]
  have "heap s' p = heap s p" if "p \<in> set H" for p
    using K(2) [of p] that mpi_inv_hand_lt [OF I that] s' by simp
  then show ?thesis using K(4) dev_likeD(4) [OF dl] s' by (auto simp: spares_def)
qed

lemma step_put_received:
  assumes I: "mpi_inv_by A R E view H s" and e: "put_request s d = Some (ent_request e)"
    and t: "thread_step E (Put_received d e st) s = Inr (p', s')"
  shows "step_ok E view A R H (Put_received d e st) s p' s'"
proof -
  have c: "put_completed E e st s = Inr s'" and p': "p' = Put_unlocking d (Some e)" using t by (auto elim!: bind_resE)
  obtain dv where dv: "devices s d = Some dv" "ent_request e = ent_request (put_entry dv)"
    using e by (auto simp: put_request_def)
  obtain s1 s2 r where s1: "set_received E (ent_request e) st s = Inr s1"
    and s2: "copy_out E (ent_request e) s1 = Inr s2" and r: "heap s2 (ent_request e) = Some r"
    and s': "post_put_recv E (req_device r) (completion e) s2 = Inr s'"
    using c by (auto simp: put_completed_def deref_eq_Inr elim!: bind_resE)
  have I2: "mpi_inv_by A R E view H s2" by (rule inv_copy_out [OF inv_set_received [OF I s1] s2])
  have f: "devices s2 = devices s" "managers s2 = managers s" "config s2 = config s"
    "\<And>p. p \<noteq> ent_request e \<Longrightarrow> heap s2 p = heap s p"
    using s1 s2 by (auto simp: set_received_def copy_out_def Let_def split: prod.splits elim!: bind_resE)
  have nz: "ent_request e \<noteq> nullptr" using r mpi_invD(3) [OF I2] by (auto simp: fresh_ok_def)
  then have own: "ent_request e \<in> set (mpi_owns view H s2 (Own_put d))" using dv f(1) by simp
  from acctD(3) [OF mpi_invD(4) [OF I2] own r] have d: "req_device r = d" by simp
  have "ent_request e \<notin> set H"
    using partitioned_owner_unique [OF acctD(1) [OF mpi_invD(4) [OF I2]] own, of Own_hand] by auto
  then have "heap s2 p = heap s p" if "p \<in> set H" for p using f(4) that by metis
  then have "spares {} H s s2" using f(1-3) by (simp add: spares_def put_request_def)
  moreover have l: "manager_locked s2 = manager_locked s" "put_locked s2 = put_locked s"
    by (simp_all add: fun_eq_iff manager_locked_def put_locked_def f)
  moreover note P = post_put_recv_spares [OF I2 s'] post_put_recv_locks [OF s']
  ultimately show ?thesis
    using inv_put_completed [OF I c dv] p' d by (auto simp: step_ok_def spares_def intro!: locks_follow_same)
qed

lemma step_put_unlocking:
  assumes I: "mpi_inv_by A R E view (in_hand (Put_unlocking d x) @ H) s"
    and t: "thread_step E (Put_unlocking d x) s = Inr (p', s')"
  shows "step_ok E view A R H (Put_unlocking d x) s p' s'"
proof -
  obtain dv where dv: "devices s d = Some dv" "put_entry_lock dv" "s' = set_device d (dv\<lparr>put_entry_lock := False\<rparr>) s"
    and p': "p' = (case x of None \<Rightarrow> Managing d | Some e \<Rightarrow> Put_signalling d e)"
    using t by (auto simp: unlock_put_entry_def deref_eq_Inr spin_unlock_def split: if_splits elim!: bind_resE)
  have "locks_follow (Put_unlocking d x) p' s s'" using dv p' by (auto simp: locks_follow_def locked_at split: option.splits)
  then show ?thesis using I dv p' by (intro step_ok_core) (auto simp: core_set_device split: option.splits)
qed

subsection \<open>Any step of a thread\<close>

lemma step_cont_locked:
  assumes I: "mpi_inv_by A R E view H s" and t: "thread_step E (Cont_locked m) s = Inr (p', s')"
  shows "step_ok E view A R H (Cont_locked m) s p' s'"
proof -
  obtain x where x: "managers s m = Some (Man_cont x)" using t by (auto simp: deref_eq_Inr split: manager_t.splits elim!: bind_resE)
  obtain b st q s1 where s1: "mpi_test E (cont_req x) s = Inr (b, st, q, s1)"
    using t x by (auto elim!: bind_resE)
  obtain err l where l: "(if b then MPI_Start E q (lib s1) else (MPI_SUCCESS, lib s1)) = (err, l)" by (rule prod.exhaust)
  have p': "p' = Cont_unlocking m" "s' = set_manager m (Man_cont (x\<lparr>cont_req := q\<rparr>)) (s1\<lparr>lib := l\<rparr>)"
    using t x s1 l by (auto simp: Let_def elim!: bind_resE)
  note K = keepsD [OF keeps_mpi_test [OF s1] I] and L = dev_likeD [OF dev_like_mpi_test [OF s1]]
  have "core s' = core (s1\<lparr>lib := l\<rparr>)" unfolding p' using x L(1) by (intro core_relock(2)) simp
  then have c: "core s' = core s1" by (simp add: core_def)
  have "manager_locked s' = manager_locked s" using L(2) x by (auto simp: p' fun_eq_iff manager_locked_def)
  moreover have "put_locked s' = put_locked s" "put_request s' = put_request s"
    using L(3,4) by (simp_all add: p' fun_eq_iff put_locked_def put_request_def)
  ultimately show ?thesis using inv_core [OF K(1) c] K(2,4) coreD(1) [OF c] p'(1)
    by (auto simp: step_ok_def spares_def p'(2) intro!: locks_follow_same)
qed

lemma step_cont_relock:
  assumes I: "mpi_inv_by A R E view H s" and t: "thread_step E p s = Inr (p', s')" and p: "p = Cont_trying m \<or> p = Cont_unlocking m"
  shows "step_ok E view A R H p s p' s'"
proof -
  obtain x where x: "managers s m = Some (Man_cont x)"
    using t p by (auto simp: deref_eq_Inr split: manager_t.splits elim!: bind_resE)
  have "p' = Idle \<and> s' = s \<and> p = Cont_trying m \<or>
    p' = Cont_locked m \<and> p = Cont_trying m \<and> \<not> cont_lock x \<and> s' = set_manager m (Man_cont (x\<lparr>cont_lock := True\<rparr>)) s \<or>
    p' = Idle \<and> p = Cont_unlocking m \<and> cont_lock x \<and> s' = set_manager m (Man_cont (x\<lparr>cont_lock := False\<rparr>)) s"
    using t p x by (cases "cont_lock x") (auto simp: spin_unlock_def elim!: bind_resE)
  then show ?thesis
  proof (elim disjE conjE, goal_cases)
    case 1
    then show ?thesis using I by (intro step_ok_core) (simp_all add: locks_follow_def)
  next
    case 2
    then show ?thesis using I x by (intro step_ok_relock [where m = m and y = x and l = True]) (auto simp: locked_at)
  next
    case 3
    then show ?thesis using I x by (intro step_ok_relock [where m = m and y = x and l = False]) (auto simp: locked_at)
  qed
qed

lemma step_trying:
  assumes I: "mpi_inv_by A R E view H s" and t: "thread_step E (Trying m) s = Inr (p', s')"
  shows "step_ok E view A R H (Trying m) s p' s'"
proof -
  obtain x where x: "managers s m = Some (Man_req x)" using t by (auto simp: get_manager_req_Inr elim!: bind_resE)
  show ?thesis
  proof (cases "req_lock x")
    case True
    then have "p' = Idle" "s' = s" using t x by (simp_all add: get_manager_req_def)
    then show ?thesis using I by (intro step_ok_core) (simp_all add: locks_follow_def)
  next
    case False
    then have "p' = Locked m" "s' = set_manager m (Man_req (x\<lparr>req_lock := True\<rparr>)) s" using t x by (simp_all add: get_manager_req_def)
    then show ?thesis using I x False by (intro step_ok_relock [where m = m and x = x and l = True]) (auto simp: locked_at)
  qed
qed

lemma step_release:
  assumes I: "mpi_inv_by A R E view (in_hand p @ H) s" and t: "thread_step E p s = Inr (p', s')"
    and p: "p = Pushed m \<or> p = Unlocking m z"
  shows "step_ok E view A R H p s p' s'"
proof -
  obtain x where x: "managers s m = Some (Man_req x)" "req_lock x" "s' = set_manager m (Man_req (x\<lparr>req_lock := False\<rparr>)) s"
    and p': "p' = Idle \<and> in_hand p = [] \<or> (\<exists>e st. p' = Completing e st \<and> in_hand p = [ent_request e])"
    using t p by (auto simp: get_manager_req_Inr spin_unlock_def split: if_splits option.splits elim!: bind_resE)
  show ?thesis using I x p p' by (intro step_ok_relock [where m = m and x = x and l = False]) (auto simp: locked_at)
qed

lemma step_queue:
  assumes I: "mpi_inv_by A R E view (in_hand p @ H) s" and ok: "at_ok s p" and t: "thread_step E p s = Inr (p', s')"
    and p: "p = Pushing m e \<or> p = Requeueing m e \<or> p = Locked m"
  shows "step_ok E view A R H p s p' s'"
proof -
  obtain x where x: "managers s m = Some (Man_req x)" using t p by (auto simp: get_manager_req_Inr elim!: bind_resE)
  then have g: "get_manager_req m s = Inr x" by (simp add: get_manager_req_def)
  from p show ?thesis
  proof (elim disjE)
    assume pl: "p = Locked m"
    then have J: "mpi_inv_by A R E view H s" using I by simp
    show ?thesis
    proof (cases "entries x")
      case Nil
      then have "p' = Unlocking m None" "s' = s" using t g pl by simp_all
      then show ?thesis using J pl by (intro step_ok_core) (simp_all add: locks_follow_def)
    next
      case (Cons e rest)
      then have "p' = Testing m e" "s' = set_manager m (Man_req (x\<lparr>entries := rest\<rparr>)) s" using t g pl by simp_all
      then show ?thesis using step_pop [OF J x Cons] pl by simp
    qed
  next
    assume "p = Pushing m e"
    then show ?thesis using t g I ok by (intro step_push [OF _ _ x]) auto
  next
    assume "p = Requeueing m e"
    then show ?thesis using t g I ok by (intro step_push [OF _ _ x]) auto
  qed
qed

lemma step_look:
  assumes I: "mpi_inv_by A R E view H s" and t: "thread_step E p s = Inr (p', s')" and p: "p = Progress d \<or> p = Managing d"
  shows "step_ok E view A R H p s p' s'"
proof -
  have "s' = s \<and> in_hand p' = [] \<and> \<not> counted_msg p' \<and> \<not> counting p' \<and> at_ok s p' \<and> (\<forall>m. \<not> in_manager m p') \<and> (\<forall>d. \<not> in_put d p')"
    using t p by (auto split: manager_t.splits if_splits elim!: bind_resE)
  then show ?thesis using I p by (intro step_ok_core) (auto simp: locks_follow_def)
qed

lemma thread_step_ok:
  assumes t: "thread_step E p s = Inr (p', s')"
    and I: "mpi_inv_by (A + of_bool (counted_msg p)) (R - of_bool (counting p)) E view (in_hand p @ H) s"
    and ok: "at_ok s p" and A: "0 \<le> A" and R: "1 \<le> R"
    and mx: "g_pending_msg_max (config s) > 0 \<Longrightarrow> g_pending_msg_max (config s) + R \<le> int_max"
  shows "step_ok E view A R H p s p' s'"
proof (cases p)
  case Idle
  then show ?thesis using t I by (intro step_ok_core) (simp_all add: locks_follow_def)
next
  case (Counting c r)
  then have "mpi_inv_by A (R - 1) E view H s" "throttled (req_op r)" "thread_step E (Counting c r) s = Inr (p', s')"
    using t I ok by (simp_all del: thread_step.simps)
  from step_counting [OF this(1,2) mx this(3)] show ?thesis by (simp add: Counting)
next
  case (Pushing m e)
  then show ?thesis using step_queue [OF _ ok t, of A R view H m e] I by (simp del: thread_step.simps)
next
  case (Pushed m)
  then show ?thesis using step_release [OF _ t, of A R view H m] I by (simp del: thread_step.simps)
next
  case (Progress d)
  then show ?thesis using step_look [OF _ t, of A R view H d] I by (simp del: thread_step.simps)
next
  case (Put_unlocking d x)
  then show ?thesis using step_put_unlocking [of A R E view d x H s p' s'] t I by (simp del: thread_step.simps)
next
  case (Managing d)
  then show ?thesis using step_look [OF _ t, of A R view H d] I by (simp del: thread_step.simps)
next
  case (Locked m)
  then show ?thesis using step_queue [OF _ ok t, of A R view H m] I by (simp del: thread_step.simps)
next
  case (Requeueing m e)
  then show ?thesis using step_queue [OF _ ok t, of A R view H m e] I by (simp del: thread_step.simps)
next
  case (Unlocking m z)
  then show ?thesis using step_release [OF _ t, of A R view H m z] I by (simp del: thread_step.simps)
next
  case (Cont_trying m)
  then show ?thesis using step_cont_relock [OF _ t, of A R view H m] I by (simp del: thread_step.simps)
next
  case (Cont_unlocking m)
  then show ?thesis using step_cont_relock [OF _ t, of A R view H m] I by (simp del: thread_step.simps)
qed (use t I ok A R step_throttle step_creating step_posting step_adding step_put_trying step_put_locked step_put_received
    step_put_signalling step_trying step_testing step_completing step_cont_locked in \<open>simp_all del: thread_step.simps\<close>)

end
