(* ===== verification/LCW_Mpi_Alone.thy ===== *)
theory LCW_Mpi_Alone
  imports LCW_Mpi_Threads
begin

text \<open>
  One thread by itself: a call ends after a bounded number of steps, and its steps from the first to
  the last do exactly what the sequential model of the call in \<open>LCW_Mpi_Backend\<close> says, errors included.
\<close>

section \<open>A call ends\<close>

text \<open>The steps at most left to the end of the call, not counting failed attempts to take a lock.\<close>

primrec steps_left :: "thread_pc \<Rightarrow> nat" where
  "steps_left Idle = 0"
| "steps_left (Throttle c r) = 7"
| "steps_left (Counting c r) = 6"
| "steps_left (Creating c r) = 5"
| "steps_left (Posting r e) = 4"
| "steps_left (Adding m e) = 3"
| "steps_left (Pushing m e) = 2"
| "steps_left (Pushed m) = 1"
| "steps_left (Progress d) = 13"
| "steps_left (Put_trying d) = 12"
| "steps_left (Put_locked d) = 11"
| "steps_left (Put_received d e st) = 10"
| "steps_left (Put_unlocking d x) = 9"
| "steps_left (Put_signalling d e) = 8"
| "steps_left (Managing d) = 7"
| "steps_left (Trying m) = 6"
| "steps_left (Locked m) = 5"
| "steps_left (Testing m e) = 4"
| "steps_left (Requeueing m e) = 3"
| "steps_left (Unlocking m x) = 2"
| "steps_left (Completing e st) = 1"
| "steps_left (Cont_trying m) = 3"
| "steps_left (Cont_locked m) = 2"
| "steps_left (Cont_unlocking m) = 1"

lemma steps_left_decrease:
  assumes "thread_step E p s = Inr (p', s')" and "p' \<noteq> p"
  shows "steps_left p' < steps_left p"
  using assms
  by (cases p) (auto simp: Let_def new_request_def split: if_splits option.splits list.splits manager_t.splits prod.splits
      elim!: bind_resE)

text \<open>
  A thread alone, from a program point to the end of its call. A lock it finds taken is never
  released, since no other thread runs: the call blocks.
\<close>

function alone :: "('q, 'm) mpi_env \<Rightarrow> thread_pc \<Rightarrow> ('q, 'm) mpi_st \<Rightarrow> ('q, 'm) mpi_st res" where
  "alone E p s =
     (if p = Idle then Inr s
      else bind_res (thread_step E p s) (\<lambda>(p', s'). if p' = p then Inl Blocked else alone E p' s'))"
  by pat_completeness auto

termination alone
  by (relation "measure (\<lambda>(E, p, s). steps_left p)") (auto dest: steps_left_decrease)

declare alone.simps [simp del]

text \<open>The sequential models of the calls.\<close>

fun sequential :: "('q, 'm) mpi_env \<Rightarrow> mpi_call \<Rightarrow> ('q, 'm) mpi_st \<Rightarrow> (bool \<times> ('q, 'm) mpi_st) res" where
  "sequential E (Call_send d rank tag buf len c ctx) = mpi_send E d rank tag buf len c ctx"
| "sequential E (Call_recv d rank tag buf len c ctx) = mpi_recv E d rank tag buf len c ctx"
| "sequential E (Call_put d rank buf len c ctx) = mpi_put E d rank buf len c ctx"
| "sequential E (Call_do_progress d) = mpi_do_progress E d"

section \<open>From the last step to the first\<close>

lemma alone_Idle [simp]: "alone E Idle s = Inr s"
  by (simp add: alone.simps)

lemma bind_res_assoc: "bind_res (bind_res r f) g = bind_res r (\<lambda>x. bind_res (f x) g)"
  by (cases r) simp_all

lemma bind_res_right [simp]: "bind_res r Inr = r"
  by (cases r) simp_all

lemma alone_step: "p \<noteq> Idle \<Longrightarrow> thread_step E p s = Inr (p', s') \<Longrightarrow> p' \<noteq> p \<Longrightarrow> alone E p s = alone E p' s'"
  by (simp add: alone.simps [of E p s])

lemma alone_fails: "p \<noteq> Idle \<Longrightarrow> thread_step E p s = Inl e \<Longrightarrow> alone E p s = Inl e"
  by (simp add: alone.simps [of E p s])

lemma set_manager_twice [simp]: "set_manager m x (set_manager m y s) = set_manager m x s"
  by (simp add: set_manager_def)

lemma set_device_twice [simp]: "set_device d x (set_device d y s) = set_device d x s"
  by (simp add: set_device_def)

lemma get_manager_at [simp]: "get_manager_req m (set_manager m (Man_req x) s) = Inr x"
  by (simp add: get_manager_req_def)

lemma alone_add_entry: "alone E (Adding m e) s = manager_add_entry E m e s"
proof (cases "managers s m")
  case None
  then show ?thesis by (simp add: alone.simps [of E "Adding m e"] manager_add_entry_def)
next
  case (Some x)
  show ?thesis
  proof (cases x)
    case (Man_req y)
    then show ?thesis using Some
      by (cases "req_lock y") (simp_all add: alone.simps [of E "Adding m e"] alone.simps [of E "Pushing m e"]
          alone.simps [of E "Pushed m"] manager_add_entry_def manager_req_add_entry_def get_manager_req_def)
  next
    case (Man_cont y)
    then show ?thesis using Some by (simp add: alone.simps [of E "Adding m e"] manager_add_entry_def bind_res_assoc)
  qed
qed

lemma alone_post:
  "alone E (Posting r e) s =
     bind_res (deref (devices s) (req_device r)) (\<lambda>dv.
     bind_res (post_entry E (req_device r) (mpi_post E r dv) (comp_manager_p dv) e s) (\<lambda>(b, s). Inr s))"
  by (auto simp: alone.simps [of E "Posting r e"] post_entry_def bind_res_assoc alone_add_entry split_def intro!: bind_res_cong)

lemma alone_create:
  "alone E (Creating c r) s =
     bind_res (deref (devices s) (req_device r)) (\<lambda>dv.
     bind_res (post_entry E (req_device r) (mpi_post E r dv) (comp_manager_p dv) (new_entry (req_device r) c (next_obj s))
       (snd (new_request r s))) (\<lambda>(b, s). Inr s))"
  by (simp add: alone.simps [of E "Creating c r"] alone_post new_request_def Let_def)

lemma alone_throttle:
  "alone E (Throttle c r) s = (case throttle s of None \<Rightarrow> Inr s | Some s \<Rightarrow> alone E (Creating c r) s)"
  by (simp add: alone.simps [of E "Throttle c r"] alone.simps [of E "Counting c r"] throttle_def)

lemma alone_release:
  "alone E (Unlocking m None) s = bind_res (get_manager_req m s) (\<lambda>x. bind_res (spin_unlock (req_lock x)) (\<lambda>l.
     Inr (set_manager m (Man_req (x\<lparr>req_lock := l\<rparr>)) s)))"
  "alone E (Unlocking m (Some (e, st))) s = bind_res (get_manager_req m s) (\<lambda>x. bind_res (spin_unlock (req_lock x)) (\<lambda>l.
     manager_req_complete E e st (set_manager m (Man_req (x\<lparr>req_lock := l\<rparr>)) s)))"
  by (simp_all add: alone.simps [of E "Unlocking m _"] alone.simps [of E "Completing e st"] bind_res_assoc)

lemma alone_manager_req:
  assumes "managers s m = Some (Man_req x)" and "entries x \<noteq> []"
  shows "alone E (Trying m) s = bind_res (manager_req_do_progress E m s) (\<lambda>(b, s). Inr s)"
proof (cases "req_lock x")
  case True
  then show ?thesis using assms by (simp add: alone.simps [of E "Trying m"] manager_req_do_progress_def get_manager_req_def)
next
  case False
  obtain e rest where e: "entries x = e # rest" using assms(2) by (cases "entries x") auto
  have "get_manager_req m s = Inr x" using assms(1) by (simp add: get_manager_req_def)
  then show ?thesis using False e
    by (auto simp: alone.simps [of E "Trying m"] alone.simps [of E "Locked m"] alone.simps [of E "Testing m _"]
        alone.simps [of E "Requeueing m _"] alone_release manager_req_do_progress_def bind_res_assoc split_def Let_def
        intro!: bind_res_cong)
qed

lemma alone_manager_cont:
  assumes x: "managers s m = Some (Man_cont x)" and "cont_req x \<noteq> MPI_REQUEST_NULL"
  shows "alone E (Cont_trying m) s = bind_res (manager_cont_do_progress E m x s) (\<lambda>(b, s). Inr s)"
proof (cases "cont_lock x")
  case True
  then show ?thesis using assms by (simp add: alone.simps [of E "Cont_trying m"] manager_cont_do_progress_def)
next
  case False
  let ?s = "set_manager m (Man_cont (x\<lparr>cont_lock := True\<rparr>)) s"
  have "alone E (Cont_trying m) s = alone E (Cont_locked m) ?s"
    using False x by (simp add: alone.simps [of E "Cont_trying m"])
  also have "\<dots> = bind_res (manager_cont_do_progress E m x s) (\<lambda>(b, s). Inr s)"
    using False assms(2)
    by (auto simp: alone.simps [of E "Cont_locked m"] alone.simps [of E "Cont_unlocking m"] manager_cont_do_progress_def
        bind_res_assoc split_def Let_def set_manager_def intro!: bind_res_cong)
  finally show ?thesis .
qed

lemma alone_manage:
  "alone E (Managing d) s =
     bind_res (deref (devices s) d) (\<lambda>dv. bind_res (manager_do_progress E (comp_manager_p dv) s) (\<lambda>(b, s). Inr s))"
  by (auto simp: alone.simps [of E "Managing d"] manager_do_progress_def bind_res_assoc alone_manager_req alone_manager_cont
      deref_eq_Inr manager_cont_do_progress_def manager_req_do_progress_def get_manager_req_def
      split: manager_t.splits intro!: bind_res_cong)

lemma alone_put:
  assumes "devices s d = Some dv" "mpi_req (put_entry dv) \<noteq> MPI_REQUEST_NULL"
  shows "alone E (Put_trying d) s = bind_res (progress_put E d dv s) (\<lambda>(b, s). alone E (Managing d) s)"
proof (cases "put_entry_lock dv")
  case True
  then show ?thesis using assms by (simp add: alone.simps [of E "Put_trying d"] progress_put_def)
next
  case False
  have u: "alone E (Put_unlocking d None) s = bind_res (unlock_put_entry d s) (alone E (Managing d))"
    "alone E (Put_unlocking d (Some e)) s = bind_res (unlock_put_entry d s) (\<lambda>s. bind_res (signal_comp E e s) (alone E (Managing d)))" for e s
    by (simp_all add: alone.simps [of E "Put_unlocking d _"] alone.simps [of E "Put_signalling d e"] bind_res_assoc)
  show ?thesis using False assms
    by (auto simp: alone.simps [of E "Put_trying d"] alone.simps [of E "Put_locked d"] alone.simps [of E "Put_received d _ _"]
        u progress_put_def bind_res_assoc split_def Let_def intro!: bind_res_cong)
qed

section \<open>Equivalence\<close>

lemma alone_sequential:
  "bind_res (start_call c s) (\<lambda>p. alone E p s) = bind_res (sequential E c s) (\<lambda>(b, s'). Inr s')"
proof (cases c)
  case (Call_send d rank tag buf len c ctx)
  then show ?thesis
    by (auto simp: alone_throttle alone_create mpi_send_eq mpi_post_def bind_res_assoc throttle_fields split: option.splits)
next
  case (Call_recv d rank tag buf len c ctx)
  then show ?thesis by (simp add: alone_create mpi_recv_eq mpi_post_def bind_res_assoc)
next
  case (Call_put d rank buf len c ctx)
  then show ?thesis
    by (auto simp: alone_throttle alone_create mpi_put_eq mpi_post_def bind_res_assoc throttle_fields
        split: option.splits intro!: bind_res_cong)
next
  case (Call_do_progress d)
  then show ?thesis
    by (auto simp: alone.simps [of E "Progress d"] alone_put alone_manage mpi_do_progress_def bind_res_assoc split_def deref_eq_Inr intro!: bind_res_cong)
qed


end
