(* ===== verification/LCW_Mpi_Interleaving.thy ===== *)
theory LCW_Mpi_Interleaving
  imports LCW_Mpi_Thread_Steps LCW_Mpi_Alone
begin

text \<open>
  Every interleaving of threads in the MPI backend: the invariant of the threads, that one thread
  running alone does what the sequential models of the calls say, and the properties.
\<close>

section \<open>The invariant of the threads\<close>

definition ahead :: "thread_pc list \<Rightarrow> int" where
  "ahead ps = int (length (filter counted_msg ps))"

definition room :: "thread_pc list \<Rightarrow> int" where
  "room ps = int (length ps) - int (length (filter counting ps))"

definition locks_ok :: "thread_pc list \<Rightarrow> ('q, 'm) mpi_st \<Rightarrow> bool" where
  "locks_ok ps s \<longleftrightarrow> (\<forall>m. length (filter (in_manager m) ps) = of_bool (manager_locked s m)) \<and>
     (\<forall>d. length (filter (in_put d) ps) = of_bool (put_locked s d))"

definition threads_inv ::
  "('q, 'm) mpi_env \<Rightarrow> ('q \<Rightarrow> ptr list) \<Rightarrow> ptr list \<Rightarrow> thread_pc list \<times> ('q, 'm) mpi_st \<Rightarrow> bool" where
  "threads_inv E view lost c \<longleftrightarrow> (case c of (ps, s) \<Rightarrow>
     mpi_inv_by (ahead ps) (room ps) E view (hands ps @ lost) s \<and> (\<forall>p\<in>set ps. at_ok s p) \<and> locks_ok ps s \<and>
     (g_pending_msg_max (config s) > 0 \<longrightarrow> g_pending_msg_max (config s) + int (length ps) \<le> int_max))"

lemma split_counts:
  "ahead (us @ p # vs) = ahead (us @ vs) + of_bool (counted_msg p)"
  "room (us @ p # vs) = room (us @ vs) + 1 - of_bool (counting p)"
  "hands (us @ p # vs) = hands us @ in_hand p @ hands vs"
  by (simp_all add: ahead_def room_def hands_def)

lemma filter_split: "length (filter P (us @ p # vs)) = length (filter P (us @ vs)) + of_bool (P p)"
  by simp

lemma room_nonneg: "0 \<le> room ps"
  using length_filter_le [of counting ps] by (simp add: room_def)

lemma locks_ok_step:
  assumes l: "locks_ok (us @ p # vs) s" and f: "locks_follow p p' s s'"
  shows "locks_ok (us @ p' # vs) s'"
proof -
  have "a + y = z" if "a + x = w" "z + x = w + y" for a x y z w :: nat using that by linarith
  then show ?thesis using l f unfolding locks_ok_def locks_follow_def filter_split by blast
qed

text \<open>Two threads are never inside the same section.\<close>

lemma locks_exclude:
  assumes "locks_ok (us @ p # vs) s" and "q \<in> set (us @ vs)"
  shows "in_manager m p \<Longrightarrow> \<not> in_manager m q" "in_put d p \<Longrightarrow> \<not> in_put d q"
proof -
  have m: "length (filter (in_manager m) (us @ vs)) + of_bool (in_manager m p) \<le> 1" for m
    using assms(1) unfolding locks_ok_def filter_split by simp
  have d: "length (filter (in_put d) (us @ vs)) + of_bool (in_put d p) \<le> 1" for d
    using assms(1) unfolding locks_ok_def filter_split by simp
  have pos: "P q \<Longrightarrow> 1 \<le> length (filter P (us @ vs))" for P
    using assms(2) length_pos_if_in_set [of q "filter P (us @ vs)"] by (metis One_nat_def Suc_leI set_filter mem_Collect_eq)
  show "in_manager m p \<Longrightarrow> \<not> in_manager m q" using m [of m] pos [of "in_manager m"] by force
  show "in_put d p \<Longrightarrow> \<not> in_put d q" using d [of d] pos [of "in_put d"] by force
qed

lemma threads_inv_go:
  assumes I: "threads_inv E view lost (us @ p # vs, s)" and t: "thread_step E p s = Inr (p', s')"
  shows "threads_inv E view lost (us @ p' # vs, s')"
proof -
  let ?H = "hands us @ hands vs @ lost"
  have D: "mpi_inv_by (ahead (us @ p # vs)) (room (us @ p # vs)) E view (hands (us @ p # vs) @ lost) s"
    "\<And>q. q \<in> set (us @ p # vs) \<Longrightarrow> at_ok s q" "locks_ok (us @ p # vs) s"
    "g_pending_msg_max (config s) > 0 \<Longrightarrow> g_pending_msg_max (config s) + int (length (us @ p # vs)) \<le> int_max"
    using I by (auto simp: threads_inv_def)
  have J: "mpi_inv_by (ahead (us @ vs) + of_bool (counted_msg p)) (room (us @ vs) + 1 - of_bool (counting p)) E view (in_hand p @ ?H) s"
    using D(1) unfolding split_counts by (rule mpi_inv_hand) simp
  have mx: "g_pending_msg_max (config s) + (room (us @ vs) + 1) \<le> int_max" if "g_pending_msg_max (config s) > 0"
    using D(4) [OF that] by (simp add: room_def)
  have ok: "step_ok E view (ahead (us @ vs)) (room (us @ vs) + 1) ?H p s p' s'"
  proof (rule thread_step_ok [OF t J])
    show "at_ok s p" using D(2) by simp
    show "0 \<le> ahead (us @ vs)" by (simp add: ahead_def)
    show "1 \<le> room (us @ vs) + 1" using room_nonneg by simp
  qed (rule mx)
  then have S: "mpi_inv_by (ahead (us @ vs) + of_bool (counted_msg p')) (room (us @ vs) + 1 - of_bool (counting p')) E view (in_hand p' @ ?H) s'"
    "at_ok s' p'" "spares {d. in_put d p} ?H s s'" "locks_follow p p' s s'" by (simp_all add: step_ok_def)
  have "mpi_inv_by (ahead (us @ p' # vs)) (room (us @ p' # vs)) E view (hands (us @ p' # vs) @ lost) s'"
    unfolding split_counts using S(1) by (rule mpi_inv_hand) simp
  moreover have "at_ok s' q" if q: "q \<in> set (us @ vs)" for q
  proof (rule at_ok_spared [OF _ S(3)])
    show "at_ok s q" using D(2) q by auto
    show "set (in_hand q) \<subseteq> set ?H" using q by (auto simp: hands_def)
    show "\<forall>d\<in>{d. in_put d p}. \<not> in_put d q" using locks_exclude(2) [OF D(3) q] by simp
  qed
  moreover have "config s' = config s" using S(3) by (simp add: spares_def)
  ultimately show ?thesis using S(2) locks_ok_step [OF D(3) S(4)] D(4) by (auto simp: threads_inv_def)
qed

lemma util_poll_cqE:
  assumes "util_poll_cq E c out s = Inr (b, r, s')"
  obtains h k where "s' = s\<lparr>comps := k, heap := h\<rparr>" "h = heap s \<or> (\<exists>p. h = (heap s)(p := None))"
proof -
  obtain q where p': "comp_cq_poll E c q out s = Inr (b, r, s')"
    using assms by (auto simp: util_poll_cq_def split: comp_obj.splits elim!: bind_resE)
  obtain a q' where a: "LCT_queue_pop E q = (a, q')" by fastforce
  have "s' = s\<lparr>comps := (comps s)(c \<mapsto> Comp_cq q'), heap := heap s\<rparr> \<or>
      s' = s\<lparr>comps := (comps s)(c \<mapsto> Comp_cq q'), heap := (heap s)(a := None)\<rparr>"
    using p' a by (auto simp: comp_cq_poll_def delete_request_def Let_def split: if_splits option.splits elim!: bind_resE)
  then show thesis using that by blast
qed

lemma threads_inv_poll:
  assumes I: "threads_inv E view lost (ps, s)" and p: "util_poll_cq E c out s = Inr (b, r, s')"
  shows "threads_inv E view lost (ps, s')"
  using p
proof (rule util_poll_cqE)
  fix h k assume s': "s' = s\<lparr>comps := k, heap := h\<rparr>" and h: "h = heap s \<or> (\<exists>p. h = (heap s)(p := None))"
  have J: "mpi_inv_by (ahead ps) (room ps) E view (hands ps @ lost) s'" and ok: "\<forall>q\<in>set ps. at_ok s q" and l: "locks_ok ps s"
    using inv_util_poll_cq [OF _ p] I by (auto simp: threads_inv_def)
  have "heap s' x = heap s x" if "x \<in> set (hands ps @ lost)" for x
    using mpi_inv_live [OF J that] h s' by (auto split: if_splits)
  then have sp: "spares {} (hands ps @ lost) s s'" by (simp add: spares_def s' put_request_def)
  have "at_ok s' q" if "q \<in> set ps" for q
    using that ok by (intro at_ok_spared [OF _ sp]) (auto simp: hands_def)
  moreover have "manager_locked s' = manager_locked s" "put_locked s' = put_locked s"
    by (simp_all add: s' fun_eq_iff manager_locked_def put_locked_def)
  then have "locks_ok ps s'" using l by (simp add: locks_ok_def)
  ultimately show ?thesis using J I by (simp add: threads_inv_def s')
qed

lemma threads_inv_start:
  assumes I: "threads_inv E view lost (us @ Idle # vs, s)" and c: "start_call c s = Inr p"
  shows "threads_inv E view lost (us @ p # vs, s)"
proof -
  have p: "in_hand p = []" "\<not> counted_msg p" "\<not> counting p" "\<And>m. \<not> in_manager m p" "\<And>d. \<not> in_put d p" "at_ok s p"
    using c by (cases c; auto simp: throttled_def elim!: bind_resE)+
  then show ?thesis using I by (simp add: threads_inv_def locks_ok_def split_counts)
qed

lemma threads_step_inv: "threads_step E c c' \<Longrightarrow> threads_inv E view lost c \<Longrightarrow> threads_inv E view lost c'"
proof (induction rule: threads_step.induct)
  case (application ps s l al bs m)
  let ?s' = "s\<lparr>mem := m, blocks := bs, m_allocator := al, lib := l\<rparr>"
  have c: "core ?s' = core s" by (simp add: core_def)
  have "at_ok ?s' p = at_ok s p" for p by (cases p) (simp_all add: queueable_def put_request_def)
  moreover have "manager_locked ?s' = manager_locked s" "put_locked ?s' = put_locked s"
    by (simp_all add: fun_eq_iff manager_locked_def put_locked_def)
  ultimately show ?case using application inv_core [OF _ c] by (auto simp: threads_inv_def locks_ok_def)
qed (blast intro: threads_inv_start threads_inv_go threads_inv_poll)+

lemma threads_run_inv: "threads_run E c c' \<Longrightarrow> threads_inv E view lost c \<Longrightarrow> threads_inv E view lost c'"
  by (induction rule: rtranclp_induct) (auto intro: threads_step_inv)

text \<open>Threads start between calls, with no lock held.\<close>

definition unlocked :: "('q, 'm) mpi_st \<Rightarrow> bool" where
  "unlocked s \<longleftrightarrow> (\<forall>m. \<not> manager_locked s m) \<and> (\<forall>d. \<not> put_locked s d)"

lemma threads_inv_init:
  assumes I: "mpi_inv E view lost s" and l: "unlocked s" and n: "1 \<le> n"
    and mx: "g_pending_msg_max (config s) > 0 \<Longrightarrow> g_pending_msg_max (config s) + int n \<le> int_max"
  shows "threads_inv E view lost (replicate n Idle, s)"
proof -
  have "mpi_inv_by 0 (int n) E view lost s"
    using mx n acctD(6) [OF mpi_invD(4) [OF I]] by (intro inv_counters [OF I]) auto
  moreover have "hands (replicate n Idle) = []" by (induction n) (simp_all add: hands_def)
  ultimately show ?thesis using l mx by (simp add: threads_inv_def ahead_def room_def locks_ok_def unlocked_def)
qed

section \<open>Between the calls of a program no lock is held\<close>

lemma alone_run: "alone E p s = Inr s' \<Longrightarrow> threads_run E ([p], s) ([Idle], s')"
proof (induction E p s rule: alone.induct)
  case (1 E p s)
  show ?case
  proof (cases "p = Idle")
    case True
    then show ?thesis using "1.prems" by simp
  next
    case False
    then obtain p' s1 where t: "thread_step E p s = Inr (p', s1)" "p' \<noteq> p" "alone E p' s1 = Inr s'"
      using "1.prems" by (auto simp: alone.simps [of E p s] split: if_splits elim!: bind_resE)
    then have "threads_step E ([p], s) ([p'], s1)" using threads_step.go [OF False t(1), of "[]" "[]"] by simp
    then show ?thesis using "1.IH" [OF False t(1) refl t(2,3)] by (rule converse_rtranclp_into_rtranclp)
  qed
qed

lemma unlocked_sequential:
  assumes I: "mpi_inv E view lost s" and u: "unlocked s" and c: "sequential E c s = Inr (b, s')"
  shows "unlocked s'"
proof -
  obtain p where p: "start_call c s = Inr p" "alone E p s = Inr s'"
    using alone_sequential [of c s E] c by (auto elim!: bind_resE)
  have "threads_inv E view lost ([Idle], s)"
    using threads_inv_init [OF I u, of 1] acctD(4) [OF mpi_invD(4) [OF I]] by simp
  then have "threads_inv E view lost ([Idle], s')"
    using threads_run_inv [OF alone_run [OF p(2)]] threads_inv_start [of E view lost "[]" "[]", OF _ p(1)] by simp
  then show ?thesis by (simp add: threads_inv_def locks_ok_def unlocked_def)
qed

lemma unlocked_frame:
  assumes "unlocked s" and "\<And>m. managers s' m = managers s m \<or> managers s' m = None"
    and "\<And>d. devices s' d = devices s d \<or> devices s' d = None"
  shows "unlocked s'"
  unfolding unlocked_def manager_locked_def put_locked_def
proof (intro conjI allI)
  fix m show "\<not> (case managers s' m of None \<Rightarrow> False | Some (Man_req x) \<Rightarrow> req_lock x | Some (Man_cont x) \<Rightarrow> cont_lock x)"
    using assms(1) assms(2) [of m] by (auto simp: unlocked_def manager_locked_def)
next
  fix d show "\<not> (case devices s' d of None \<Rightarrow> False | Some dv \<Rightarrow> put_entry_lock dv)"
    using assms(1) assms(3) [of d] by (auto simp: unlocked_def put_locked_def)
qed

text \<open>Barriers and the calls on completion objects leave devices and managers alone.\<close>

definition undisturbed :: "('q, 'm) mpi_st \<Rightarrow> ('q, 'm) mpi_st \<Rightarrow> bool" where
  "undisturbed s s' \<longleftrightarrow> devices s' = devices s \<and> managers s' = managers s \<and> config s' = config s \<and>
     mgr_refs s' = mgr_refs s \<and> g_comp_managers s' = g_comp_managers s"

lemma undisturbed_calls:
  "mpi_barrier E d s = Inr s' \<Longrightarrow> undisturbed s s'"
  "mpi_alloc_cq E s = (c, s') \<Longrightarrow> undisturbed s s'"
  "util_poll_cq E c out s = Inr (b, r, s') \<Longrightarrow> undisturbed s s'"
  "util_free_cq c s = Inr s' \<Longrightarrow> undisturbed s s'"
  "util_alloc_handler f s = (c, s') \<Longrightarrow> undisturbed s s'"
  "util_free_handler c s = Inr s' \<Longrightarrow> undisturbed s s'"
  "undisturbed s (s\<lparr>mem := m, blocks := bs, m_allocator := al\<rparr>)"
  by (auto simp: undisturbed_def mpi_barrier_def mpi_alloc_cq_def util_alloc_cq_def util_alloc_handler_def new_comp_def
      util_free_cq_def util_free_handler_def Let_def split: prod.splits comp_obj.splits if_splits elim!: bind_resE util_poll_cqE)

lemma unlocked_undisturbed: "undisturbed s s' \<Longrightarrow> unlocked s \<Longrightarrow> unlocked s'"
  by (rule unlocked_frame [of s]) (auto simp: undisturbed_def)

lemma unlocked_set_device: "unlocked s \<Longrightarrow> \<not> put_entry_lock dv \<Longrightarrow> unlocked (set_device d dv s)"
  by (simp add: unlocked_def)

lemma unlocked_make_manager: "make_manager E s = Inr (p, s') \<Longrightarrow> unlocked s \<Longrightarrow> unlocked s'"
  by (auto simp: make_manager_def manager_cont_new_def manager_req_new_def unlocked_def manager_locked_def put_locked_def Let_def
      split: comp_type_t.splits if_splits prod.splits elim!: bind_resE)

lemma unlocked_make_managers: "make_managers E n s = Inr (ps, s') \<Longrightarrow> unlocked s \<Longrightarrow> unlocked s'"
proof (induction E n s arbitrary: ps s' rule: make_managers.induct)
  case (2 E n s)
  then show ?case by (auto elim!: bind_resE) (metis unlocked_make_manager)
qed simp

lemma unlocked_mpi_alloc_device:
  assumes "mpi_alloc_device E mx c s = Inr (d, s')" and u: "unlocked s"
  shows "unlocked s'"
  using assms(1)
proof (rule mpi_alloc_deviceE)
  fix l m s1 buf s2 dv
  let ?s = "s\<lparr>next_obj := Suc d, g_ndevices := to_int (g_ndevices s + 1), lib := l\<rparr>"
  assume m: "device_manager E (g_ndevices s) ?s = Inr (m, s1)" and v: "vector_resize E (put_rbuf_size dv) s1 = Inr (buf, s2)"
    and l: "\<not> put_entry_lock dv" and p: "post_put_recv E d c (set_device d dv s2) = Inr s'"
  have "unlocked ?s" by (rule unlocked_frame [OF u]) simp_all
  then have "unlocked s1" using m
    by (auto simp: device_manager_def Let_def split: if_splits intro: unlocked_make_manager unlocked_frame)
  then have "unlocked s2" using vector_resize_state [OF v] by (auto intro: unlocked_frame)
  then have "unlocked (set_device d dv s2)" using l by (rule unlocked_set_device)
  then show ?thesis using post_put_recv_locks [OF p] by (simp add: unlocked_def)
qed

lemma unlocked_mpi_initialize:
  assumes "mpi_initialize E getenv s0 = Inr s" and "mpi_start s0"
  shows "unlocked s"
proof -
  have u: "unlocked (s0\<lparr>lib := l, g_rank := rk, g_nranks := nr, config := c\<rparr>)" for l rk nr c
    using assms(2) by (simp add: mpi_start_def unlocked_def manager_locked_def put_locked_def)
  moreover have "unlocked (s1\<lparr>g_comp_managers := ps\<rparr>)" if "make_managers E n s2 = Inr (qs, s1)" "unlocked s2" for n s1 s2 ps qs
    using unlocked_make_managers [OF that] by (rule unlocked_frame) simp_all
  ultimately show ?thesis using assms(1)
    by (auto simp: mpi_initialize_def Let_def split: if_splits prod.splits elim!: bind_resE)
qed

lemma unlocked_mpi_free_device:
  assumes f: "mpi_free_device E d s = Inr s'" and u: "unlocked s"
  shows "unlocked s'"
proof -
  have "managers s' m = managers s m \<or> managers s' m = None" "devices s' x = devices s x \<or> devices s' x = None" for m x
    using f by (auto simp: mpi_free_device_def release_manager_def manager_cont_delete_def Let_def
        split: if_splits prod.splits manager_t.splits elim!: bind_resE)
  then show ?thesis by (rule unlocked_frame [OF u])
qed

lemma reach_unlocked:
  assumes "lct_queue_fifo E view" and "mpi_start s0"
    and "env_int (getenv ''LCW_MPI_MAX_PENDING_MSG'') (g_pending_msg_max (config s0)) < int_max"
    and "mpi_reach E view getenv s0 lost s"
  shows "unlocked s"
  using assms(4)
proof (induction rule: mpi_reach.induct)
  case (do_progress lost s d b s')
  then show ?case using unlocked_sequential [OF reach_inv [OF assms(1-3) do_progress.hyps(1)], of "Call_do_progress d"] by simp
next
  case (send lost s d rank tag buf len c ctx b s')
  then show ?case using unlocked_sequential [OF reach_inv [OF assms(1-3) send.hyps(1)], of "Call_send d rank tag buf len c ctx"] by simp
next
  case (recv lost s d rank tag buf len c ctx b s')
  then show ?case using unlocked_sequential [OF reach_inv [OF assms(1-3) recv.hyps(1)], of "Call_recv d rank tag buf len c ctx"] by simp
next
  case (put lost s d rank buf len c ctx b s')
  then show ?case using unlocked_sequential [OF reach_inv [OF assms(1-3) put.hyps(1)], of "Call_put d rank buf len c ctx"] by simp
qed (use assms(2) in \<open>blast intro: unlocked_mpi_initialize unlocked_mpi_alloc_device unlocked_mpi_free_device
    unlocked_undisturbed undisturbed_calls\<close>)+

lemma reach_threads_inv:
  assumes "lct_queue_fifo E view" and "mpi_start s0"
    and "env_int (getenv ''LCW_MPI_MAX_PENDING_MSG'') (g_pending_msg_max (config s0)) < int_max"
    and "mpi_reach E view getenv s0 lost s" and "1 \<le> n"
    and "g_pending_msg_max (config s) > 0 \<Longrightarrow> g_pending_msg_max (config s) + int n \<le> int_max"
    and "threads_run E (replicate n Idle, s) (ps, s')"
  shows "threads_inv E view lost (ps, s')" "length ps = n"
proof -
  show "threads_inv E view lost (ps, s')"
    by (rule threads_run_inv [OF assms(7) threads_inv_init [OF reach_inv [OF assms(1-4)] reach_unlocked [OF assms(1-4)] assms(5,6)]])
  have "length (fst c') = length (fst c)" if "threads_run E c c'" for c c' :: "thread_pc list \<times> ('a, 'b) mpi_st"
    using that by (induction rule: rtranclp_induct) (auto elim!: threads_step.cases)
  from this [OF assms(7)] show "length ps = n" by simp
qed

lemma threads_partitioned:
  assumes "lct_queue_fifo E view" and "mpi_start s0"
    and "env_int (getenv ''LCW_MPI_MAX_PENDING_MSG'') (g_pending_msg_max (config s0)) < int_max"
    and "mpi_reach E view getenv s0 lost s" and "1 \<le> n"
    and "g_pending_msg_max (config s) > 0 \<Longrightarrow> g_pending_msg_max (config s) + int n \<le> int_max"
    and "threads_run E (replicate n Idle, s) (ps, s')"
  shows "partitioned (mpi_owns view (hands ps @ lost) s') (dom (heap s'))"
  using reach_threads_inv(1) [OF assms] acctD(1) mpi_invD(4) unfolding threads_inv_def by fast

section \<open>What holds under every interleaving\<close>

text \<open>C4: Any number of threads may send, receive, put, make progress and poll at the same time. Under every
  interleaving of their steps each \<^verbatim>\<open>request_t\<close> on the heap has exactly one owner: the put receive of one
  device, one entry of one completion manager, one MPI continuation, one place in one completion
  queue, or one thread. So no request is signalled or deleted twice, none is used after deletion and
  none is lost between threads.\<close>

theorem threads_own_requests:
  assumes "lct_queue_fifo E view" and "mpi_start s0"
    and "env_int (getenv ''LCW_MPI_MAX_PENDING_MSG'') (g_pending_msg_max (config s0)) < int_max"
    and "mpi_reach E view getenv s0 lost s" and "1 \<le> n"
    and "g_pending_msg_max (config s) > 0 \<Longrightarrow> g_pending_msg_max (config s) + int n \<le> int_max"
    and "threads_run E (replicate n Idle, s) (ps, s')"
  shows "partitioned (mpi_owns view (hands ps @ lost) s') (dom (heap s'))"
  by (rule threads_partitioned [OF assms])

text \<open>C6: With several threads the throttle is not exact: the test and the increment are two accesses. Under
  every interleaving of \<open>n\<close> threads the counter is the number of sends and puts that are posted and
  not yet signalled, plus those counted and not yet posted, and exceeds the maximum by at most the
  number of threads (so it does not wrap).\<close>

theorem threads_pending_counter:
  assumes "lct_queue_fifo E view" and "mpi_start s0"
    and "env_int (getenv ''LCW_MPI_MAX_PENDING_MSG'') (g_pending_msg_max (config s0)) < int_max"
    and "mpi_reach E view getenv s0 lost s" and "1 \<le> n"
    and "g_pending_msg_max (config s) > 0 \<Longrightarrow> g_pending_msg_max (config s) + int n \<le> int_max"
    and "threads_run E (replicate n Idle, s) (ps, s')" and "g_pending_msg_max (config s') > 0"
  shows "g_pending_msg s' = int (card (pend (mpi_owns view (hands ps @ lost) s') (heap s'))) + int (length (filter counted_msg ps)) \<and>
    g_pending_msg s' \<le> g_pending_msg_max (config s') + int n"
proof -
  note T = reach_threads_inv [OF assms(1-7)]
  then have A: "acct (ahead ps) (room ps) (mpi_owns view (hands ps @ lost) s') (heap s') (g_pending_msg s') (g_pending_msg_max (config s'))"
    using mpi_invD(4) unfolding threads_inv_def by fast
  have "room ps \<le> int n" using T(2) by (simp add: room_def)
  then show ?thesis using acctD(5,6) [OF A assms(8)] by (simp add: ahead_def)
qed

text \<open>C11: The locks exclude: under every interleaving at most one thread is between the lock and the unlock of a
  completion manager, and at most one works on the put receive of a device; the lock is held exactly
  while a thread is inside.\<close>

theorem threads_exclude:
  assumes "lct_queue_fifo E view" and "mpi_start s0"
    and "env_int (getenv ''LCW_MPI_MAX_PENDING_MSG'') (g_pending_msg_max (config s0)) < int_max"
    and "mpi_reach E view getenv s0 lost s" and "1 \<le> n"
    and "g_pending_msg_max (config s) > 0 \<Longrightarrow> g_pending_msg_max (config s) + int n \<le> int_max"
    and "threads_run E (replicate n Idle, s) (ps, s')"
  shows "length (filter (in_manager m) ps) = (if manager_locked s' m then 1 else 0) \<and>
    length (filter (in_put d) ps) = (if put_locked s' d then 1 else 0)"
  using reach_threads_inv(1) [OF assms] by (simp add: threads_inv_def locks_ok_def of_bool_def)

lemma spins_where:
  assumes "thread_step E p s = Inr (p, s)" and "p \<noteq> Idle"
  shows "\<exists>m e. p = Adding m e \<and> manager_locked s m"
  using assms
  by (cases p) (auto simp: locked_at deref_eq_Inr new_request_def spin_try_lock_def Let_def
      split: if_splits option.splits list.splits manager_t.splits prod.splits elim!: bind_resE)


section \<open>An interleaving of four threads\<close>

text \<open>A schedule names the thread that takes the next step, and the call it makes when it is idle.\<close>

fun run_schedule ::
  "('q, 'm) mpi_env \<Rightarrow> (nat \<times> mpi_call) list \<Rightarrow> thread_pc list \<times> ('q, 'm) mpi_st \<Rightarrow> (thread_pc list \<times> ('q, 'm) mpi_st) res" where
  "run_schedule E [] c = Inr c"
| "run_schedule E ((i, call) # is) (ps, s) =
     (if i < length ps then
        bind_res (if ps ! i = Idle then bind_res (start_call call s) (\<lambda>p. Inr (p, s)) else thread_step E (ps ! i) s)
          (\<lambda>(p, s). run_schedule E is (ps[i := p], s))
      else Inl Undefined)"

lemma run_schedule_run: "run_schedule E is c = Inr c' \<Longrightarrow> threads_run E c c'"
proof (induction E "is" c rule: run_schedule.induct)
  case (2 E i call "is" ps s)
  then have i: "i < length ps" by (auto split: if_splits)
  obtain p s1 where p: "(if ps ! i = Idle then bind_res (start_call call s) (\<lambda>p. Inr (p, s)) else thread_step E (ps ! i) s) = Inr (p, s1)"
    and r: "run_schedule E is (ps[i := p], s1) = Inr c'" using "2.prems" i by (auto elim!: bind_resE)
  have ps: "take i ps @ ps ! i # drop (Suc i) ps = ps" using i by (rule id_take_nth_drop [symmetric])
  have "threads_step E (take i ps @ ps ! i # drop (Suc i) ps, s) (take i ps @ p # drop (Suc i) ps, s1)"
  proof (cases "ps ! i = Idle")
    case True
    then have "start_call call s = Inr p" "s1 = s" using p by (auto elim!: bind_resE)
    then show ?thesis using True threads_step.call [of call s p E "take i ps"] by simp
  next
    case False
    then show ?thesis using p threads_step.go [of "ps ! i" E s p s1 "take i ps"] by simp
  qed
  then have "threads_step E (ps, s) (ps[i := p], s1)" unfolding ps using i by (simp add: upd_conv_take_nth_drop)
  then show ?case using "2.IH" [OF i p refl r] by (rule converse_rtranclp_into_rtranclp)
qed simp

text \<open>Three threads test the counter before any has counted its message, while a fourth locks the put receive.\<close>

definition ref_sends :: mpi_call where
  "ref_sends = Call_send 2 1 5 4096 8 1 0"

definition ref_schedule :: "(nat \<times> mpi_call) list" where
  "ref_schedule = map (\<lambda>i. (i, if i = 3 then Call_do_progress 2 else ref_sends)) [0, 1, 2, 3, 0, 1, 2, 3, 0, 1, 2, 3, 0]"

definition ref_threads :: "(thread_pc list \<times> (ptr list, ref_lib) mpi_st) res" where
  "ref_threads = bind_res ref_program (\<lambda>s. run_schedule (ref_mpi ref_build) ref_schedule (replicate 4 Idle, s))"

lemma ref_threads_runs:
  "case ref_threads of Inl _ \<Rightarrow> False | Inr (ps, s) \<Rightarrow> g_pending_msg s = 4 \<and> g_pending_msg_max (config s) = 2 \<and>
     list_ex (\<lambda>p. p \<noteq> Idle) ps \<and> put_locked s 2"
  by code_simp

lemma ref_threads_run:
  obtains s ps s' where "ref_program = Inr s" "ref_threads = Inr (ps, s')"
    "g_pending_msg_max (config s) = 2" "g_pending_msg_max (config s') = 2"
    "threads_run (ref_mpi ref_build) (replicate 4 Idle, s) (ps, s')" "g_pending_msg s' = 4" "\<exists>p\<in>set ps. p \<noteq> Idle"
    "put_locked s' 2"
proof -
  obtain s where s: "ref_program = Inr s" "g_pending_msg_max (config s) = 2" using ref_program_runs by (auto split: sum.splits)
  obtain ps s' where r: "ref_threads = Inr (ps, s')" "g_pending_msg s' = 4" "g_pending_msg_max (config s') = 2" "list_ex (\<lambda>p. p \<noteq> Idle) ps" "put_locked s' 2"
    using ref_threads_runs by (auto split: sum.splits)
  have "ref_threads = run_schedule (ref_mpi ref_build) ref_schedule (replicate 4 Idle, s)"
    unfolding ref_threads_def s(1) bind_res_Inr ..
  then have "threads_run (ref_mpi ref_build) (replicate 4 Idle, s) (ps, s')"
    using r(1) by (intro run_schedule_run [of _ ref_schedule]) simp
  then show thesis using that s r by (auto simp: list_ex_iff)
qed

lemma ref_threads_fit: "g_pending_msg_max c = 2 \<Longrightarrow> g_pending_msg_max c > 0 \<Longrightarrow> g_pending_msg_max c + int 4 \<le> int_max"
  by (simp add: int_max_def)

lemmas ref_threads_start = ref_mpi_fifo ref_start_start ref_start_max

theorem threads_own_requests_witness:
  "\<exists>ps s'. ref_threads = Inr (ps, s') \<and> partitioned (mpi_owns (\<lambda>q. q) (hands ps @ []) s') (dom (heap s'))"
proof -
  obtain s ps s' where s: "ref_program = Inr s" "ref_threads = Inr (ps, s')" "g_pending_msg_max (config s) = 2"
    and r: "threads_run (ref_mpi ref_build) (replicate 4 Idle, s) (ps, s')"
    by (rule ref_threads_run)
  from threads_own_requests [OF ref_threads_start ref_program_reach [OF s(1)] _ ref_threads_fit [OF s(3)] r] show ?thesis using s(2) by force
qed

theorem threads_pending_counter_witness:
  "\<exists>ps s'. ref_threads = Inr (ps, s') \<and> g_pending_msg_max (config s') = 2 \<and>
     4 = int (card (pend (mpi_owns (\<lambda>q. q) (hands ps @ []) s') (heap s'))) + int (length (filter counted_msg ps))"
proof -
  obtain s ps s' where s: "ref_program = Inr s" "ref_threads = Inr (ps, s')" "g_pending_msg_max (config s) = 2"
    and m: "g_pending_msg_max (config s') = 2"
    and r: "threads_run (ref_mpi ref_build) (replicate 4 Idle, s) (ps, s')" and g: "g_pending_msg s' = 4"
    by (rule ref_threads_run)
  from threads_pending_counter [OF ref_threads_start ref_program_reach [OF s(1)] _ ref_threads_fit [OF s(3)] r] show ?thesis using s(2) m g by force
qed

theorem threads_exclude_witness:
  "\<exists>ps s'. ref_threads = Inr (ps, s') \<and> put_locked s' 2 \<and> length (filter (in_put 2) ps) = 1"
proof -
  obtain s ps s' where s: "ref_program = Inr s" "ref_threads = Inr (ps, s')" "g_pending_msg_max (config s) = 2"
    and r: "threads_run (ref_mpi ref_build) (replicate 4 Idle, s) (ps, s')" and l: "put_locked s' 2"
    by (rule ref_threads_run)
  have "length (filter (in_put 2) ps) = 1"
    using threads_exclude [OF ref_threads_start ref_program_reach [OF s(1)] _ ref_threads_fit [OF s(3)] r, of 3 2] l by simp
  then show ?thesis using s(2) l by blast
qed


end
