(* ===== verification/LCW_Mpi_Threads_Delivery.thy ===== *)
theory LCW_Mpi_Threads_Delivery
  imports LCW_Mpi_Delivery LCW_Mpi_Interleaving
begin

text \<open>
  Delivery with several threads in the MPI backend: whatever the interleaving, the sends and puts that
  the threads have created are reported exactly once, or still held.
\<close>

section \<open>What a step posts\<close>

text \<open>Requests with the completion object they are posted with; first the one a step creates.\<close>

fun posted_at :: "thread_pc \<Rightarrow> (ptr \<times> request_t) list" where
  "posted_at (Creating c r) = [(c, r)]"
| "posted_at _ = []"

text \<open>The request of a call that has not been created yet.\<close>

fun request_at :: "thread_pc \<Rightarrow> (ptr \<times> request_t) list" where
  "request_at (Throttle c r) = [(c, r)]"
| "request_at (Counting c r) = [(c, r)]"
| "request_at (Creating c r) = [(c, r)]"
| "request_at _ = []"

text \<open>The sends and puts among them.\<close>

definition outs :: "(ptr \<times> request_t) list \<Rightarrow> request_t multiset" where
  "outs xs = filter_mset outgoing (mset (map snd xs))"

lemma outs_simps [simp]: "outs [] = {#}" "outs [(c, r)] = as_out r" "outs (xs @ ys) = outs xs + outs ys"
  by (simp_all add: outs_def as_out_def)

lemma quiet_mpi_post: "mpi_post E r dv s = Inr (q, s') \<Longrightarrow> quiet s s'"
  by (auto simp: mpi_post_def split: if_splits dest: quiet_isend quiet_irecv)

lemma quiet_unlock_put_entry: "unlock_put_entry d s = Inr s' \<Longrightarrow> quiet s s'"
  by (auto simp: unlock_put_entry_def elim!: bind_resE)

lemmas quiet_steps = quiet_mpi_post quiet_unlock_put_entry quiet_put_completed quiet_signal_comp quiet_manager_req_test
  quiet_manager_req_complete quiet_manager_cont_add_entry

lemma thread_step_moves:
  assumes t: "thread_step E p s = Inr (p', s')"
  shows "moves (outs (posted_at p)) {#} s s'"
proof (cases p)
  case (Creating c r)
  then show ?thesis using t moves_new_request [of r s] by (auto split: prod.splits)
next
  case (Posting r e)
  then obtain dv s1 q s2 where s1: "enter_stream_cs E (req_device r) s = Inr s1" "mpi_post E r dv s1 = Inr (q, s2)"
    "leave_stream_cs E (req_device r) s2 = Inr s'" using t by (auto elim!: bind_resE)
  show ?thesis unfolding Posting
    by (simp add: quiet_trans [OF quiet_stream(1) [OF s1(1)] quiet_trans [OF quiet_mpi_post [OF s1(2)] quiet_stream(2) [OF s1(3)]]])
next
  case (Put_locked d)
  then obtain dv where dv: "devices s d = Some dv" using t by (auto simp: deref_eq_Inr elim!: bind_resE)
  show ?thesis
  proof (cases "mpi_req (put_entry dv) = MPI_REQUEST_NULL")
    case False
    then obtain s1 q b st s2 dv2 e where s1: "enter_stream_cs E d s = Inr s1" "mpi_test E (mpi_req (put_entry dv)) s1 = Inr (b, st, q, s2)"
      and s': "leave_stream_cs E d (set_device d (dv2\<lparr>put_entry := e\<rparr>) s2) = Inr s'"
      using t Put_locked dv by (auto simp: deref_eq_Inr Let_def elim!: bind_resE)
    have "quiet s (set_device d (dv2\<lparr>put_entry := e\<rparr>) s2)" using quiet_trans [OF quiet_stream(1) [OF s1(1)] quiet_mpi_test [OF s1(2)]] by simp
    then show ?thesis unfolding Put_locked using quiet_trans [OF _ quiet_stream(2) [OF s']] by simp
  qed (use t Put_locked dv in simp)
next
  case (Cont_locked m)
  then obtain x b st q s1 l where s1: "mpi_test E (cont_req x) s = Inr (b, st, q, s1)"
    and s': "s' = set_manager m (Man_cont (x\<lparr>cont_req := q\<rparr>)) (s1\<lparr>lib := l\<rparr>)"
    using t by (auto simp: Let_def split: manager_t.splits prod.splits elim!: bind_resE)
  show ?thesis using quiet_mpi_test [OF s1] unfolding Cont_locked s' by simp
qed (use t in \<open>auto simp: Let_def split: if_splits manager_t.splits list.splits option.splits prod.splits elim!: bind_resE dest!: quiet_steps\<close>)

section \<open>Histories\<close>

text \<open>
  \<open>begun\<close> are the requests of the calls the threads have made, \<open>created\<close> those they have created, each with its
  completion object, and \<open>seen\<close> what \<^verbatim>\<open>poll_cq\<close> has returned, with the queue it was polled from.
\<close>

inductive threads_history ::
  "('q, 'm) mpi_env \<Rightarrow> thread_pc list \<times> ('q, 'm) mpi_st \<Rightarrow> (ptr \<times> request_t) list \<Rightarrow> (ptr \<times> request_t) list \<Rightarrow>
   (ptr \<times> request_t) list \<Rightarrow> thread_pc list \<times> ('q, 'm) mpi_st \<Rightarrow> bool" for E c0 where
  start: "threads_history E c0 [] [] [] c0"
| call: "threads_history E c0 begun created seen (us @ Idle # vs, s) \<Longrightarrow> start_call c s = Inr p \<Longrightarrow>
    threads_history E c0 (begun @ request_at p) created seen (us @ p # vs, s)"
| go: "threads_history E c0 begun created seen (us @ p # vs, s) \<Longrightarrow> p \<noteq> Idle \<Longrightarrow> thread_step E p s = Inr (p', s') \<Longrightarrow>
    threads_history E c0 begun (created @ posted_at p) seen (us @ p' # vs, s')"
| poll: "threads_history E c0 begun created seen (us @ Idle # vs, s) \<Longrightarrow> util_poll_cq E c out s = Inr (b, r, s') \<Longrightarrow>
    threads_history E c0 begun created (seen @ (if b then [(c, r)] else [])) (us @ Idle # vs, s')"
| application: "threads_history E c0 begun created seen (ps, s) \<Longrightarrow>
    threads_history E c0 begun created seen (ps, s\<lparr>mem := m, blocks := bs, m_allocator := al, lib := l\<rparr>)"

definition uncreated :: "thread_pc list \<Rightarrow> (ptr \<times> request_t) multiset" where
  "uncreated ps = mset (concat (map request_at ps))"

lemma step_uncreated:
  assumes "thread_step E p s = Inr (p', s')"
  shows "mset (posted_at p) + mset (request_at p') \<subseteq># mset (request_at p)"
  using assms
  by (cases p) (auto simp: Let_def new_request_def split: if_splits option.splits list.splits manager_t.splits prod.splits elim!: bind_resE)

lemma threads_history_created: "threads_history E c0 begun created seen c \<Longrightarrow> uncreated (fst c0) = {#} \<Longrightarrow> mset created + uncreated (fst c) \<subseteq># mset begun"
proof (induction rule: threads_history.induct)
  case (go begun created seen us p vs s p' s')
  let ?rest = "uncreated us + uncreated vs"
  have "mset created + (mset (posted_at p) + mset (request_at p')) + ?rest \<subseteq># mset created + mset (request_at p) + ?rest"
    using step_uncreated [OF go.hyps(3)] by simp
  moreover have "mset created + mset (request_at p) + ?rest \<subseteq># mset begun" using go.IH go.prems by (simp add: uncreated_def ac_simps)
  ultimately have "mset created + (mset (posted_at p) + mset (request_at p')) + ?rest \<subseteq># mset begun" by (rule subset_mset.order_trans)
  then show ?case by (simp add: uncreated_def ac_simps)
qed (auto simp: uncreated_def ac_simps)

lemma fresh_ok_application: "fresh_ok (s\<lparr>mem := m, blocks := bs, m_allocator := al, lib := l\<rparr>) = fresh_ok s"
  by (simp add: fresh_ok_def)

lemma threads_history_moves:
  assumes "threads_history E c0 begun created seen c"
  shows "moves (outs created) (outs seen) (snd c0) (snd c)"
  using assms
proof (induction rule: threads_history.induct)
  case (go begun created seen us p vs s p' s')
  show ?case using moves_trans [OF go.IH [simplified] thread_step_moves [OF go.hyps(3)]] by simp
next
  case (poll begun created seen us vs s c out b r s')
  show ?case using moves_trans [OF poll.IH [simplified] moves_poll [OF poll.hyps(2)]] by (cases b) simp_all
next
  case (application begun created seen ps s m bs al l)
  then show ?case by (simp add: moves_def fresh_ok_application)
qed simp_all

text \<open>C3: Exactly once with threads: let any number of threads make any calls of the MPI backend, interleaved in any
  way. Every call creates at most one request, with the arguments of the call, and the sends and puts
  created are, as a multiset, those that \<^verbatim>\<open>poll_cq\<close> has returned plus those handed to handlers plus those the
  library still holds: none is lost, reported twice or changed by a race between threads.\<close>

theorem threads_deliver_exactly_once:
  assumes "threads_history E (replicate n Idle, s) begun created seen (ps, s')"
    and "fresh_ok s" and "out_heap (heap s) = {#}" and "handled_in (trace s) = {#}"
  shows "mset created \<subseteq># mset begun \<and> outs created = outs seen + handled_in (trace s') + out_heap (heap s')"
proof -
  have "uncreated (replicate n Idle) = {#}" by (induction n) (simp_all add: uncreated_def)
  then have "mset created + uncreated ps \<subseteq># mset begun" using threads_history_created [OF assms(1)] by simp
  then have "mset created \<subseteq># mset begun" by (meson mset_subset_eq_add_left subset_mset.order_trans)
  moreover have "outs seen + out_heap (heap s') + handled_in (trace s') = outs created"
    using threads_history_moves [OF assms(1)] assms(2-4) by (simp add: moves_def)
  ultimately show ?thesis by (simp add: ac_simps)
qed

definition ref_send :: "int \<Rightarrow> request_t" where
  "ref_send tag = \<lparr>req_op = SEND, req_device = 2, req_rank = 1, req_tag = tag, req_buffer = 4096, req_length = 8,
                 req_user_context = 0\<rparr>"

lemma ref_send_history:
  fixes E :: "('q, 'm) mpi_env"
  assumes "g_pending_msg_max (config s) = 0"
  shows "\<exists>ps s'. threads_history E (replicate 2 Idle, s) [(1, ref_send 3), (1, ref_send 4)] [(1, ref_send 4), (1, ref_send 3)] [] (ps, s')"
proof -
  let ?H = "threads_history E ([Idle, Idle], s)"
  note call = threads_history.call [where E = E and ?c0.0 = "([Idle, Idle], s)"]
  note go = threads_history.go [where E = E and ?c0.0 = "([Idle, Idle], s)"]
  have "?H [] [] [] ([Idle, Idle], s)" by (rule threads_history.start)
  then have "?H [(1, ref_send 3)] [] [] ([Throttle 1 (ref_send 3), Idle], s)"
    using call [of _ _ _ "[]" "[Idle]" s "Call_send 2 1 3 4096 8 1 0"] by (force simp: ref_send_def)
  then have "?H [(1, ref_send 3), (1, ref_send 4)] [] [] ([Throttle 1 (ref_send 3), Throttle 1 (ref_send 4)], s)"
    using call [of _ _ _ "[Throttle 1 (ref_send 3)]" "[]" s "Call_send 2 1 4 4096 8 1 0"] by (force simp: ref_send_def)
  then have "?H [(1, ref_send 3), (1, ref_send 4)] [] [] ([Creating 1 (ref_send 3), Throttle 1 (ref_send 4)], s)"
    using go [of _ _ _ "[]" "Throttle 1 (ref_send 3)" _ s] assms by simp
  then have "?H [(1, ref_send 3), (1, ref_send 4)] [] [] ([Creating 1 (ref_send 3), Creating 1 (ref_send 4)], s)"
    using go [of _ _ _ "[Creating 1 (ref_send 3)]" "Throttle 1 (ref_send 4)" "[]" s] assms by simp
  then obtain p s1 where "?H [(1, ref_send 3), (1, ref_send 4)] [(1, ref_send 4)] [] ([Creating 1 (ref_send 3), p], s1)"
    using go [of _ _ _ "[Creating 1 (ref_send 3)]" "Creating 1 (ref_send 4)" "[]" s] by (fastforce simp: new_request_def)
  then have "\<exists>q s2. ?H [(1, ref_send 3), (1, ref_send 4)] [(1, ref_send 4), (1, ref_send 3)] [] ([q, p], s2)"
    using go [of _ _ _ "[]" "Creating 1 (ref_send 3)" "[p]" s1] by (fastforce simp: new_request_def)
  then show ?thesis by (auto simp: numeral_2_eq_2)
qed

lemma ref_start_empty: "fresh_ok ref_start" "out_heap (heap ref_start) = {#}" "handled_in (trace ref_start) = {#}"
  by (simp_all add: ref_start_def ref_mpi_st_def ref_rt_def rt.defs fresh_ok_def handled_in_def map_filter_def out_heap_def)

lemma ref_start_nolimit: "g_pending_msg_max (config ref_start) = 0"
  by code_simp

text \<open>Two threads whose sends overlap: the requests are created in the other order than the calls.\<close>

theorem threads_deliver_exactly_once_witness:
  "\<exists>ps s'. threads_history (ref_mpi ref_build) (replicate 2 Idle, ref_start) [(1, ref_send 3), (1, ref_send 4)] [(1, ref_send 4), (1, ref_send 3)] [] (ps, s') \<and>
     handled_in (trace s') + out_heap (heap s') = {# ref_send 3, ref_send 4 #}"
proof -
  obtain ps s' where h: "threads_history (ref_mpi ref_build) (replicate 2 Idle, ref_start) [(1, ref_send 3), (1, ref_send 4)] [(1, ref_send 4), (1, ref_send 3)] [] (ps, s')"
    using ref_send_history [of ref_start] ref_start_nolimit by blast
  have "outs [(1, ref_send 4), (1, ref_send 3)] = outs [] + handled_in (trace s') + out_heap (heap s')"
    using threads_deliver_exactly_once [OF h ref_start_empty] by blast
  then show ?thesis using h by (auto simp: outs_def ref_send_def outgoing_def add_mset_commute)
qed

end
