(* ===== verification/LCW_Mpi_Route_Steps.thy ===== *)
theory LCW_Mpi_Route_Steps
  imports LCW_Routing LCW_Mpi_Threads_Delivery
begin

text \<open>
  Where the MPI backend keeps the destination of a completion (the entries of completion managers,
  of continuations, of put receives and of running threads, and the queues), and that every step of a
  thread carries it along.
\<close>

section \<open>Destinations in the state of the backend\<close>

definition dest :: "entry_t \<Rightarrow> ptr \<times> ptr" where
  "dest e = (ent_request e, completion e)"

lemma dest_mpi_req [simp]: "dest (e\<lparr>mpi_req := q\<rparr>) = dest e"
  by (simp add: dest_def)

definition state_entries :: "('q, 'm) mpi_st \<Rightarrow> entry_t set" where
  "state_entries s = {e. (\<exists>m x. managers s m = Some (Man_req x) \<and> e \<in> set (entries x)) \<or> (\<exists>p. centries s p = Some e) \<or>
     (\<exists>d dv. devices s d = Some dv \<and> e = put_entry dv)}"

definition mpi_pairs :: "('q \<Rightarrow> ptr list) \<Rightarrow> entry_t list \<Rightarrow> ('q, 'm) mpi_st \<Rightarrow> (ptr \<times> ptr) set" where
  "mpi_pairs view H s = cq_pairs view s \<union> dest ` (state_entries s \<union> set H)"

abbreviation calm :: "('q \<Rightarrow> ptr list) \<Rightarrow> entry_t list \<Rightarrow> ('q, 'm) mpi_st \<Rightarrow> ('q, 'm) mpi_st \<Rightarrow> bool" where
  "calm view H s s' \<equiv> still (mpi_pairs view H s) s (mpi_pairs view H s') s'"

text \<open>Steps that leave requests and completion objects alone and bring in no new entry.\<close>

definition steady :: "entry_t list \<Rightarrow> ('q, 'm) mpi_st \<Rightarrow> ('q, 'm) mpi_st \<Rightarrow> bool" where
  "steady H s s' \<longleftrightarrow> heap s' = heap s \<and> next_obj s \<le> next_obj s' \<and> comps s' = comps s \<and>
     dest ` state_entries s' \<subseteq> dest ` (state_entries s \<union> set H)"

lemma steady_still: "steady H s s' \<Longrightarrow> set H' \<subseteq> state_entries s \<union> set H \<Longrightarrow> still (mpi_pairs view H s) s (mpi_pairs view H' s') s'"
  by (rule still_same) (auto simp: steady_def mpi_pairs_def cq_pairs_def cq_ids_def is_cq_def)

lemma steady_calm: "steady H s s' \<Longrightarrow> calm view H s s'"
  by (erule steady_still) simp

lemma calm_refl [simp, intro]: "calm view H s s"
  by (rule still_quietly) simp_all

lemma state_entries_cong: "managers s' = managers s \<Longrightarrow> centries s' = centries s \<Longrightarrow> devices s' = devices s \<Longrightarrow> state_entries s' = state_entries s"
  by (simp add: state_entries_def)

lemma steady_refl [simp]: "steady H s s"
  by (auto simp: steady_def)

lemma steady_frame:
  assumes "heap s' = heap s" "comps s' = comps s" "next_obj s \<le> next_obj s'" "centries s' = centries s"
    "\<And>m. managers s' m = managers s m \<or> managers s' m = None" "\<And>d. devices s' d = devices s d \<or> devices s' d = None"
  shows "steady H s s'"
proof -
  have m: "managers s m = Some x" if "managers s' m = Some x" for m x using assms(5) [of m] that by auto
  have d: "devices s d = Some x" if "devices s' d = Some x" for d x using assms(6) [of d] that by auto
  have "state_entries s' \<subseteq> state_entries s" unfolding state_entries_def using m d assms(4) by fastforce
  then have "dest ` state_entries s' \<subseteq> dest ` (state_entries s \<union> set H)" by (intro image_mono) auto
  then show ?thesis using assms(1-3) by (simp add: steady_def)
qed

lemma steady_fields [simp]:
  "steady H s (t\<lparr>lib := l\<rparr>) \<longleftrightarrow> steady H s t" "steady H s (t\<lparr>mem := m\<rparr>) \<longleftrightarrow> steady H s t"
  "steady H s (add_pending k t) \<longleftrightarrow> steady H s t" "steady H s (log_event e t) \<longleftrightarrow> steady H s t"
  "steady H s (t\<lparr>blocks := bs\<rparr>) \<longleftrightarrow> steady H s t"
  by (simp_all add: steady_def state_entries_def add_pending_def log_event_def)

lemma steady_manager:
  assumes "steady H s t" "\<And>e. e \<in> set (case x of Man_req y \<Rightarrow> entries y | Man_cont _ \<Rightarrow> []) \<Longrightarrow> dest e \<in> dest ` (state_entries s \<union> set H)"
  shows "steady H s (set_manager m x t)"
proof -
  have "state_entries (set_manager m x t) \<subseteq> state_entries t \<union> set (case x of Man_req y \<Rightarrow> entries y | Man_cont _ \<Rightarrow> [])"
    by (auto simp: state_entries_def set_manager_def split: if_splits)
  from image_mono [OF this, of dest] have "dest ` state_entries (set_manager m x t) \<subseteq> dest ` (state_entries s \<union> set H)"
  proof (rule subset_trans)
    have "dest ` set (case x of Man_req y \<Rightarrow> entries y | Man_cont _ \<Rightarrow> []) \<subseteq> dest ` (state_entries s \<union> set H)"
      using assms(2) by (rule image_subsetI)
    then show "dest ` (state_entries t \<union> set (case x of Man_req y \<Rightarrow> entries y | Man_cont _ \<Rightarrow> [])) \<subseteq> dest ` (state_entries s \<union> set H)"
      using assms(1) by (simp add: steady_def image_Un)
  qed
  then show ?thesis using assms(1) by (simp add: steady_def)
qed

lemma steady_device:
  assumes "steady H s t" "dest (put_entry dv) \<in> dest ` (state_entries s \<union> set H)"
  shows "steady H s (set_device d dv t)"
proof -
  have "state_entries (set_device d dv t) \<subseteq> insert (put_entry dv) (state_entries t)"
    by (auto simp: state_entries_def set_device_def split: if_splits)
  from image_mono [OF this, of dest] have "dest ` state_entries (set_device d dv t) \<subseteq> dest ` (state_entries s \<union> set H)"
  proof (rule subset_trans)
    show "dest ` insert (put_entry dv) (state_entries t) \<subseteq> dest ` (state_entries s \<union> set H)"
      using assms by (simp add: steady_def)
  qed
  then show ?thesis using assms(1) by (simp add: steady_def)
qed

lemma in_state_entries:
  "managers s m = Some (Man_req x) \<Longrightarrow> e \<in> set (entries x) \<Longrightarrow> e \<in> state_entries s"
  "centries s p = Some e \<Longrightarrow> e \<in> state_entries s"
  "devices s d = Some dv \<Longrightarrow> put_entry dv \<in> state_entries s"
  by (auto simp: state_entries_def)

lemma steady_relock:
  "managers s m = Some (Man_req x) \<Longrightarrow> steady H s (set_manager m (Man_req (x\<lparr>req_lock := l\<rparr>)) s)"
  "steady H s (set_manager m (Man_cont y) s)"
  "devices s d = Some dv \<Longrightarrow> steady H s (set_device d (dv\<lparr>put_entry_lock := l\<rparr>) s)"
  using in_state_entries(3) [of s d dv] by (auto intro!: steady_manager steady_device imageI UnI1 intro: in_state_entries(1))

lemma calm_trans: "calm view H s s1 \<Longrightarrow> still (mpi_pairs view H s1) s1 A s2 \<Longrightarrow> still (mpi_pairs view H s) s A s2"
  by (rule still_flows)

section \<open>The parts of the steps\<close>

lemma calm_stream:
  "enter_stream_cs E d s = Inr s' \<Longrightarrow> calm view H s s'" "leave_stream_cs E d s = Inr s' \<Longrightarrow> calm view H s s'"
  by (auto simp: enter_stream_cs_def leave_stream_cs_def deref_eq_Inr split: if_splits elim!: bind_resE
      intro!: steady_calm steady_device imageI UnI1 dest: in_state_entries(3))

lemma steady_choose_type: "choose_type sz s = Inr (dt, n, s') \<Longrightarrow> steady H s s'"
  by (auto simp: choose_type_def type_contiguous_def Let_def split: if_splits elim!: bind_resE)

lemma calm_isend: "isend E a sz r g c s = Inr (q, s') \<Longrightarrow> calm view H s s'"
  by (auto simp: isend_def Let_def release_type_def split: prod.splits if_splits elim!: bind_resE
      intro!: steady_calm dest!: steady_choose_type [where H = H])

lemma calm_irecv: "irecv E a sz r g c s = Inr (q, s') \<Longrightarrow> calm view H s s'"
  by (auto simp: irecv_def Let_def release_type_def split: prod.splits if_splits elim!: bind_resE
      intro!: steady_calm dest!: steady_choose_type [where H = H])

lemma calm_mpi_post: "mpi_post E r dv s = Inr (q, s') \<Longrightarrow> calm view H s s'"
  by (auto simp: mpi_post_def split: if_splits intro: calm_isend calm_irecv)

lemma calm_signal_comp:
  assumes q: "lct_queue_fifo E view" and u: "signal_comp E e s = Inr s'" and e: "dest e \<in> mpi_pairs view H s"
  shows "calm view H s s'"
proof -
  obtain r s2 where r: "heap s (ent_request e) = Some r"
    and s2: "util_signal_comp E (completion e) r (signal_account E (req_op r) s) = Inr s2"
    and d: "delete_request (ent_request e) s2 = Inr s'"
    using u by (auto simp: signal_comp_def deref_eq_Inr elim!: bind_resE)
  let ?s1 = "signal_account E (req_op r) s" and ?B = "dest ` (state_entries s \<union> set H)"
  have st: "state_entries s' = state_entries s" using signal_comp_frame [OF u] by (simp add: state_entries_def)
  have p: "mpi_pairs view H s = cq_pairs view ?s1 \<union> ?B" by (simp add: mpi_pairs_def cq_pairs_def cq_ids_def)
  have "still (mpi_pairs view H s) s (mpi_pairs view H s) ?s1" by (rule still_quietly) simp_all
  then have 1: "flows (toward (completion e) r) none (mpi_pairs view H s) s (cq_pairs view s2 \<union> ?B) s2"
    using still_flows [OF _ flows_signal [OF q s2, of ?B]] by (simp add: p)
  have h: "heap s2 (ent_request e) = Some r" by (rule signal_heap [OF s2]) (simp add: r)
  then have s': "s' = s2\<lparr>heap := (heap s2)(ent_request e := None)\<rparr>" using d by simp
  have "(ent_request e, completion e) \<in> insert (dest e) (cq_pairs view s2 \<union> ?B)" by (simp add: dest_def)
  from flows_delete [OF s' h this]
  have 2: "flows none (toward (completion e) r) (insert (dest e) (cq_pairs view s2 \<union> ?B)) s2 (insert (dest e) (cq_pairs view s2 \<union> ?B)) s'" .
  have 3: "flows (toward (completion e) r) none (mpi_pairs view H s) s (insert (dest e) (cq_pairs view s2 \<union> ?B)) s2"
    using flows_frame [OF 1, of "{dest e}"] e by (simp add: insert_absorb Un_insert_right)
  have "cq_pairs view s' = cq_pairs view s2" by (rule cq_pairs_cong) (simp add: s')
  then have "mpi_pairs view H s' \<subseteq> insert (dest e) (cq_pairs view s2 \<union> ?B)" by (auto simp: mpi_pairs_def st)
  moreover have "flows (toward (completion e) r) (toward (completion e) r) (mpi_pairs view H s) s (insert (dest e) (cq_pairs view s2 \<union> ?B)) s'"
    using flows_trans [OF 3 2] by simp
  ultimately show ?thesis using flows_weaken [OF flows_cancel] by blast
qed

lemma calm_run_callbacks: "lct_queue_fifo E view \<Longrightarrow> run_callbacks E cbs s = Inr s' \<Longrightarrow> calm view H s s'"
proof (induction cbs arbitrary: s)
  case (Cons cb cbs)
  obtain status p where cb: "cb = (status, p)" by (cases cb)
  obtain e s1 where e: "centries s p = Some e" and s1: "signal_comp E e s = Inr s1"
    and r: "run_callbacks E cbs (s1\<lparr>centries := (centries s1)(p := None)\<rparr>) = Inr s'"
    using Cons.prems(2) by (auto simp: cb complete_cb_def deref_eq_Inr elim!: bind_resE)
  have 1: "calm view H s s1" using e by (intro calm_signal_comp [OF Cons.prems(1) s1]) (auto simp: mpi_pairs_def in_state_entries)
  have "steady H s1 (s1\<lparr>centries := (centries s1)(p := None)\<rparr>)" by (auto simp: steady_def state_entries_def split: if_splits)
  then show ?case using calm_trans [OF 1 calm_trans [OF steady_calm Cons.IH [OF Cons.prems(1) r]]] by blast
qed (auto intro: steady_calm)

lemma calm_mpi_test: "lct_queue_fifo E view \<Longrightarrow> mpi_test E q s = Inr (ok, st, r, s') \<Longrightarrow> calm view H s s'"
proof -
  assume q: "lct_queue_fifo E view" and "mpi_test E q s = Inr (ok, st, r, s')"
  then obtain cbs m l where "run_callbacks E cbs (s\<lparr>mem := m, lib := l\<rparr>) = Inr s'" by (auto simp: mpi_test_def Let_def elim!: bind_resE)
  moreover have "calm view H s (s\<lparr>mem := m, lib := l\<rparr>)" for m l by (rule steady_calm) simp
  ultimately show "calm view H s s'" using calm_trans calm_run_callbacks [OF q] by blast
qed

lemma mpi_pairs_Cons: "mpi_pairs view (e # H) s = insert (dest e) (mpi_pairs view H s)"
  by (simp add: mpi_pairs_def)

lemma still_drop: "still A s (mpi_pairs view (e # H) s') s' \<Longrightarrow> still A s (mpi_pairs view H s') s'"
  by (erule flows_weaken) (auto simp: mpi_pairs_Cons)

lemma flows_create:
  assumes "ent_request e = next_obj s"
  shows "flows (toward (completion e) r) none (mpi_pairs view H s) s (mpi_pairs view (e # H) (snd (new_request r s))) (snd (new_request r s))"
proof -
  have "mpi_pairs view H (snd (new_request r s)) = mpi_pairs view H s"
    by (simp add: mpi_pairs_def cq_pairs_def cq_ids_def state_entries_def)
  then show ?thesis
    using flows_new_request [OF refl, of "completion e" r "mpi_pairs view H s" s] assms
    by (simp add: mpi_pairs_Cons dest_def new_request_def)
qed

lemma calm_replace:
  assumes "heap s p = Some r" "as_op r' = as_op r" "s' = s\<lparr>blocks := bs, mem := m, heap := (heap s)(p \<mapsto> r')\<rparr>"
  shows "calm view H s s'"
  unfolding assms(3)
  by (rule still_replace [OF _ assms(1,2)]) (simp_all add: mpi_pairs_def cq_pairs_def cq_ids_def state_entries_def)

lemma calm_set_received:
  assumes "set_received E p st s = Inr s'" "heap s p = Some r" "req_op r = RECV \<or> req_op r = PUT_SIGNAL"
  shows "calm view H s s'" "\<exists>r'. heap s' p = Some r' \<and> req_op r' = req_op r"
proof -
  obtain n where s': "s' = s\<lparr>heap := (heap s)(p \<mapsto> r\<lparr>req_length := n, req_tag := MPI_TAG st, req_rank := MPI_SOURCE st\<rparr>)\<rparr>"
    using assms(1,2) by (auto simp: set_received_def split: prod.splits elim!: bind_resE)
  then have "s' = s\<lparr>blocks := blocks s, mem := mem s, heap := (heap s)(p \<mapsto> r\<lparr>req_length := n, req_tag := MPI_TAG st, req_rank := MPI_SOURCE st\<rparr>)\<rparr>"
    by simp
  moreover have "as_op (r\<lparr>req_length := n, req_tag := MPI_TAG st, req_rank := MPI_SOURCE st\<rparr>) = as_op r"
    using assms(3) by (auto simp: as_op_def essence_def)
  ultimately show "calm view H s s'" using assms(2) by (intro calm_replace)
  show "\<exists>r'. heap s' p = Some r' \<and> req_op r' = req_op r" by (simp add: s')
qed

lemma calm_post_put_recv:
  assumes "post_put_recv E d c s = Inr s'"
  shows "calm view H s s'"
proof -
  obtain dv where dv: "devices s d = Some dv" using assms by (auto simp: post_put_recv_def deref_eq_Inr elim!: bind_resE)
  define r where "r = \<lparr>req_op = PUT_SIGNAL, req_device = d, req_rank = - 1, req_tag = put_tag dv, req_buffer = put_rbuf_data dv,
    req_length = to_int64 (put_rbuf_size dv), req_user_context = nullptr\<rparr>"
  have op: "req_op r = PUT_SIGNAL" by (simp add: r_def)
  obtain s1 q s2 s3 dv2 where s1: "enter_stream_cs E d (snd (new_request r s)) = Inr s1"
    and s2: "irecv E (put_rbuf_data dv) (to_size (to_int64 (put_rbuf_size dv))) (MPI_ANY_SOURCE E) (to_int (put_tag dv)) (comm dv) s1 = Inr (q, s2)"
    and s3: "leave_stream_cs E d s2 = Inr s3"
    and s': "s' = set_device d (dv2\<lparr>put_entry := \<lparr>mpi_req = q, ent_device = d, completion = c, ent_request = next_obj s\<rparr>\<rparr>) s3"
    using assms dv unfolding post_put_recv_def by (auto simp: deref_eq_Inr Let_def new_request_def r_def elim!: bind_resE)
  let ?e = "\<lparr>mpi_req = q, ent_device = d, completion = c, ent_request = next_obj s\<rparr>"
  have "still (mpi_pairs view H s) s (mpi_pairs view (?e # H) (snd (new_request r s))) (snd (new_request r s))"
    using flows_create [of ?e s r view H] op by simp
  moreover have "calm view (?e # H) s3 s'" unfolding s' by (intro steady_calm steady_device) simp_all
  then have "calm view (?e # H) (snd (new_request r s)) s'"
    by (rule calm_trans [OF calm_stream(1) [OF s1] calm_trans [OF calm_irecv [OF s2] calm_trans [OF calm_stream(2) [OF s3]]]])
  ultimately have "still (mpi_pairs view H s) s (mpi_pairs view (?e # H) s') s'" by (rule still_flows)
  then show ?thesis by (rule still_drop)
qed

lemma calm_put_completed:
  assumes "put_completed E e st s = Inr s'"
  shows "calm view H s s'"
proof -
  obtain s1 s2 d where s1: "set_received E (ent_request e) st s = Inr s1" and s2: "copy_out E (ent_request e) s1 = Inr s2"
    and s': "post_put_recv E d (completion e) s2 = Inr s'"
    using assms by (auto simp: put_completed_def elim!: bind_resE)
  obtain r where r: "heap s (ent_request e) = Some r" using s1 by (auto simp: set_received_def deref_eq_Inr elim!: bind_resE)
  obtain r1 b m n where r1: "heap s1 (ent_request e) = Some r1" "req_op r1 = PUT_SIGNAL"
    and s2': "s2 = s1\<lparr>blocks := n, mem := m, heap := (heap s1)(ent_request e \<mapsto> r1\<lparr>req_buffer := b\<rparr>)\<rparr>"
    using s2 by (auto simp: copy_out_def deref_eq_Inr Let_def elim!: bind_resE)
  have "req_op r = PUT_SIGNAL" using s1 r r1 by (auto simp: set_received_def split: prod.splits elim!: bind_resE)
  then have "calm view H s s1" by (intro calm_set_received(1) [OF s1 r]) simp
  moreover have "calm view H s1 s2" by (rule calm_replace [OF r1(1) _ s2']) (simp add: r1(2))
  ultimately show ?thesis by (rule calm_trans [OF _ calm_trans [OF _ calm_post_put_recv [OF s']]])
qed

lemma calm_manager_req_test:
  assumes q: "lct_queue_fifo E view" and "manager_req_test E e s = Inr (ok, st, e', s')"
  shows "calm view H s s' \<and> dest e' = dest e"
proof (cases "mpi_req e = MPI_REQUEST_NULL")
  case True
  then show ?thesis using assms(2) by (auto simp: manager_req_test_def intro: steady_calm)
next
  case False
  then obtain s1 st' k s2 where s1: "enter_stream_cs E (ent_device e) s = Inr s1" "mpi_test E (mpi_req e) s1 = Inr (ok, st', k, s2)"
    "leave_stream_cs E (ent_device e) s2 = Inr s'" "e' = e\<lparr>mpi_req := k\<rparr>"
    using assms(2) by (auto simp: manager_req_test_def elim!: bind_resE)
  show ?thesis using calm_trans [OF calm_stream(1) [OF s1(1)] calm_trans [OF calm_mpi_test [OF q s1(2)] calm_stream(2) [OF s1(3)]]] s1(4) by simp
qed

lemma calm_manager_req_complete:
  assumes q: "lct_queue_fifo E view" and "manager_req_complete E e st s = Inr s'" and e: "dest e \<in> dest ` set H"
  shows "calm view H s s'"
proof -
  obtain r s1 where r: "heap s (ent_request e) = Some r"
    and s1: "(if req_op r = RECV then (case st of None \<Rightarrow> Inl Uninit_read | Some st \<Rightarrow> set_received E (ent_request e) st s) else Inr s) = Inr s1"
    and s': "signal_comp E e s1 = Inr s'"
    using assms(2) by (auto simp: manager_req_complete_def deref_eq_Inr elim!: bind_resE)
  have "calm view H s s1" using s1 calm_set_received(1) [OF _ r] by (auto split: if_splits option.splits intro: steady_calm)
  moreover have "calm view H s1 s'" using e by (intro calm_signal_comp [OF q s']) (auto simp: mpi_pairs_def)
  ultimately show ?thesis by (rule calm_trans)
qed

lemma still_manager_cont_add_entry:
  assumes q: "lct_queue_fifo E view" and "manager_cont_add_entry E m e s = Inr s'"
  shows "calm view (e # H) s s'"
proof -
  let ?s1 = "snd (new_centry e s)"
  obtain s2 l cbs s3 where s2: "enter_stream_cs E (ent_device e) ?s1 = Inr s2" and s3: "run_callbacks E cbs (s2\<lparr>lib := l\<rparr>) = Inr s3"
    and s': "leave_stream_cs E (ent_device e) s3 = Inr s'"
    using assms(2) by (auto simp: manager_cont_add_entry_def Let_def split: prod.splits elim!: bind_resE)
  have "steady (e # H) s ?s1" by (auto simp: steady_def new_centry_def state_entries_def split: if_splits)
  moreover have "steady (e # H) s2 (s2\<lparr>lib := l\<rparr>)" by simp
  ultimately show ?thesis
    by (rule calm_trans [OF steady_calm calm_trans [OF calm_stream(1) [OF s2] calm_trans [OF steady_calm
          calm_trans [OF calm_run_callbacks [OF q s3] calm_stream(2) [OF s']]]]])
qed

section \<open>The steps of a thread\<close>

fun carried :: "thread_pc \<Rightarrow> entry_t list" where
  "carried (Posting r e) = [e]"
| "carried (Adding m e) = [e]"
| "carried (Pushing m e) = [e]"
| "carried (Put_received d e st) = [e]"
| "carried (Put_unlocking d (Some e)) = [e]"
| "carried (Put_signalling d e) = [e]"
| "carried (Testing m e) = [e]"
| "carried (Requeueing m e) = [e]"
| "carried (Unlocking m (Some (e, st))) = [e]"
| "carried (Completing e st) = [e]"
| "carried _ = []"

fun posted_to :: "thread_pc \<Rightarrow> ptr \<Rightarrow> request_t multiset" where
  "posted_to (Creating c r) = toward c r"
| "posted_to _ = none"

text \<open>A thread carries on an entry it had, or one it takes from the state.\<close>

lemma still_move:
  assumes "calm view H s s'" "dest ` set H' \<subseteq> mpi_pairs view H s"
  shows "still (mpi_pairs view H s) s (mpi_pairs view H' s') s'"
  by (rule flows_within [OF assms(1) subset_refl]) (use assms(2) in \<open>auto simp: mpi_pairs_def\<close>)

lemma dest_in_pairs: "e \<in> state_entries s \<union> set H \<Longrightarrow> dest e \<in> mpi_pairs view H s"
  by (auto simp: mpi_pairs_def)

lemma thread_step_flows:
  assumes q: "lct_queue_fifo E view" and t: "thread_step E p s = Inr (p', s')"
  shows "flows (posted_to p) none (mpi_pairs view (carried p) s) s (mpi_pairs view (carried p') s') s'"
proof (cases p)
  case (Creating c r)
  then have "p' = Posting r (new_entry (req_device r) c (next_obj s))" "s' = snd (new_request r s)"
    using t by (auto simp: new_request_def)
  then show ?thesis using flows_create [of "new_entry (req_device r) c (next_obj s)" s r view "[]"] Creating by simp
next
  case (Posting r e)
  then obtain dv s1 k s2 where s1: "enter_stream_cs E (req_device r) s = Inr s1" "mpi_post E r dv s1 = Inr (k, s2)"
    "leave_stream_cs E (req_device r) s2 = Inr s'" and p': "p' = Adding (comp_manager_p dv) (e\<lparr>mpi_req := k\<rparr>)"
    using t by (auto elim!: bind_resE)
  have "calm view [e] s s'" by (rule calm_trans [OF calm_stream(1) [OF s1(1)] calm_trans [OF calm_mpi_post [OF s1(2)] calm_stream(2) [OF s1(3)]]])
  then show ?thesis unfolding Posting p' by (simp add: still_move dest_in_pairs)
next
  case (Adding m e)
  then obtain x where x: "managers s m = Some x" using t by (auto simp: deref_eq_Inr elim!: bind_resE)
  show ?thesis
  proof (cases x)
    case (Man_req y)
    then have "steady [e] s s'" "p' = Adding m e \<or> p' = Pushing m e" using t Adding x
      by (auto simp: Let_def split: if_splits prod.splits intro!: steady_manager imageI UnI1 in_state_entries(1))
    then show ?thesis using still_move [OF steady_calm, of "[e]" s s' "carried p'" view] Adding by (auto simp: dest_in_pairs)
  next
    case (Man_cont y)
    then have s': "manager_cont_add_entry E y e s = Inr s'" "p' = Idle" using t Adding x by (auto elim!: bind_resE)
    from still_manager_cont_add_entry [OF q s'(1), of "[]"] show ?thesis unfolding Adding s'(2) by (simp add: still_drop)
  qed
next
  case (Put_locked d)
  then obtain dv where dv: "devices s d = Some dv" using t by (auto simp: deref_eq_Inr elim!: bind_resE)
  show ?thesis
  proof (cases "mpi_req (put_entry dv) = MPI_REQUEST_NULL")
    case False
    then obtain s1 k b st s2 dv2 where s1: "enter_stream_cs E d s = Inr s1" "mpi_test E (mpi_req (put_entry dv)) s1 = Inr (b, st, k, s2)"
      and dv2: "devices s2 d = Some dv2"
      and s': "leave_stream_cs E d (set_device d (dv2\<lparr>put_entry := (put_entry dv2)\<lparr>mpi_req := k\<rparr>\<rparr>) s2) = Inr s'"
      and p': "p' = (if b then Put_received d ((put_entry dv2)\<lparr>mpi_req := k\<rparr>) st else Put_unlocking d None)"
      using t Put_locked dv by (auto simp: deref_eq_Inr Let_def elim!: bind_resE)
    let ?e = "(put_entry dv2)\<lparr>mpi_req := k\<rparr>"
    let ?s3 = "set_device d (dv2\<lparr>put_entry := ?e\<rparr>) s2"
    have "calm view [] s2 ?s3" using dv2 by (intro steady_calm steady_device) (auto dest: in_state_entries(3))
    then have 1: "calm view [] s ?s3" by (rule calm_trans [OF calm_stream(1) [OF s1(1)] calm_trans [OF calm_mpi_test [OF q s1(2)]]])
    have "?e \<in> state_entries ?s3" using in_state_entries(3) [of ?s3 d "dv2\<lparr>put_entry := ?e\<rparr>"] by simp
    then have "dest (put_entry dv2) \<in> mpi_pairs view [] ?s3" using dest_in_pairs [of ?e ?s3 "[]" view] by simp
    then have "still (mpi_pairs view [] ?s3) ?s3 (mpi_pairs view (carried p') s') s'"
      using still_move [OF calm_stream(2) [OF s'], of "carried p'" view "[]"] by (auto simp: p')
    then show ?thesis using still_flows [OF 1] by (simp add: Put_locked)
  qed (use t Put_locked dv in auto)
next
  case (Put_received d e st)
  then have s': "put_completed E e st s = Inr s'" "p' = Put_unlocking d (Some e)" using t by (auto elim!: bind_resE)
  from calm_put_completed [OF s'(1), of view "[e]"] show ?thesis by (simp add: Put_received s'(2))
next
  case (Put_unlocking d x)
  then obtain dv l where dv: "devices s d = Some dv" "s' = set_device d (dv\<lparr>put_entry_lock := l\<rparr>) s"
    "p' = (case x of None \<Rightarrow> Managing d | Some e \<Rightarrow> Put_signalling d e)"
    using t by (auto simp: unlock_put_entry_def deref_eq_Inr elim!: bind_resE)
  have "steady (carried p) s s'" unfolding dv(2) using dv(1) by (intro steady_device) (auto dest: in_state_entries(3))
  moreover have "set (carried p') \<subseteq> set (carried p)" by (auto simp: dv(3) Put_unlocking split: option.splits)
  ultimately show ?thesis using steady_still [of "carried p" s s' "carried p'" view] Put_unlocking by auto
next
  case (Put_signalling d e)
  then have s': "signal_comp E e s = Inr s'" "p' = Managing d" using t by (auto elim!: bind_resE)
  have "calm view [e] s s'" by (rule calm_signal_comp [OF q s'(1)]) (simp add: dest_in_pairs)
  then show ?thesis by (simp add: Put_signalling s'(2) still_drop)
next
  case (Testing m e)
  then obtain b st e' where s': "manager_req_test E e s = Inr (b, st, e', s')" "p' = (if b then Unlocking m (Some (e', st)) else Requeueing m e')"
    using t by (auto elim!: bind_resE)
  have "calm view [e] s s'" "dest e' = dest e" using calm_manager_req_test [OF q s'(1), of "[e]"] by simp_all
  then show ?thesis using still_move [of view "[e]" s s' "carried p'"] by (simp add: Testing s'(2) dest_in_pairs)
next
  case (Completing e st)
  then have s': "manager_req_complete E e st s = Inr s'" "p' = Idle" using t by (auto elim!: bind_resE)
  have "calm view [e] s s'" by (rule calm_manager_req_complete [OF q s'(1)]) simp
  then show ?thesis by (simp add: Completing s'(2) still_drop)
next
  case (Cont_locked m)
  then obtain x b st k s1 l where x: "managers s m = Some (Man_cont x)" "mpi_test E (cont_req x) s = Inr (b, st, k, s1)"
    and s': "s' = set_manager m (Man_cont (x\<lparr>cont_req := k\<rparr>)) (s1\<lparr>lib := l\<rparr>)" and p': "p' = Cont_unlocking m"
    using t by (auto simp: Let_def deref_eq_Inr split: manager_t.splits prod.splits elim!: bind_resE)
  have "calm view [] s1 s'" unfolding s' by (intro steady_calm steady_manager) simp_all
  then show ?thesis using calm_trans [OF calm_mpi_test [OF q x(2)]] by (simp add: Cont_locked p')
next
  case (Pushing m e)
  then obtain x where x: "managers s m = Some (Man_req x)" "s' = set_manager m (Man_req (x\<lparr>entries := entries x @ [e]\<rparr>)) s" "p' = Pushed m"
    using t by (auto simp: get_manager_req_Inr elim!: bind_resE)
  then have "steady [e] s s'" by (auto intro!: steady_manager dest: in_state_entries(1))
  then show ?thesis using still_move [OF steady_calm, of "[e]" s s' "[]" view] by (simp add: Pushing x(3))
next
  case (Locked m)
  then obtain x where x: "managers s m = Some (Man_req x)" using t by (auto simp: get_manager_req_Inr elim!: bind_resE)
  then have "steady [] s s'" "set (carried p') \<subseteq> state_entries s"
    using t Locked x by (auto simp: get_manager_req_Inr split: list.splits elim!: bind_resE intro!: steady_manager imageI in_state_entries(1))
  then show ?thesis using steady_still [of "[]" s s' "carried p'" view] by (simp add: Locked)
next
  case (Requeueing m e)
  then obtain x where x: "managers s m = Some (Man_req x)" "s' = set_manager m (Man_req (x\<lparr>entries := entries x @ [e]\<rparr>)) s" "p' = Unlocking m None"
    using t by (auto simp: get_manager_req_Inr elim!: bind_resE)
  then have "steady [e] s s'" by (auto intro!: steady_manager dest: in_state_entries(1))
  then show ?thesis using still_move [OF steady_calm, of "[e]" s s' "[]" view] by (simp add: Requeueing x(3))
next
  case (Unlocking m y)
  then obtain x l where x: "managers s m = Some (Man_req x)" "s' = set_manager m (Man_req (x\<lparr>req_lock := l\<rparr>)) s"
    "p' = (case y of None \<Rightarrow> Idle | Some (e, st) \<Rightarrow> Completing e st)"
    using t by (auto simp: get_manager_req_Inr elim!: bind_resE)
  have "steady (carried p) s s'" unfolding x(2) using x(1) by (intro steady_manager) (auto dest: in_state_entries(1))
  moreover have "set (carried p') \<subseteq> set (carried p)" by (auto simp: x(3) Unlocking split: option.splits)
  ultimately show ?thesis using steady_still [of "carried p" s s' "carried p'" view] Unlocking by auto
qed (use t in \<open>auto simp: Let_def get_manager_req_Inr deref_eq_Inr split: if_splits manager_t.splits list.splits option.splits prod.splits
    elim!: bind_resE intro!: steady_calm steady_relock\<close>)

end
