(* ===== verification/LCW_Mpi_Managers.thy ===== *)
theory LCW_Mpi_Managers
  imports LCW_Mpi_Interleaving
begin

text \<open>
  The completion managers as shared objects: every device keeps a \<^verbatim>\<open>std::shared_ptr\<close> to one, and so may the
  global list of \<^verbatim>\<open>src/src/backend/mpi/backend_mpi.cpp\<close>. The reference counts are exact, so a device's manager
  is alive as long as the device, and it has the type that the configuration asks for.
\<close>

section \<open>Types and reference counts\<close>

fun manager_kind :: "manager_t \<Rightarrow> comp_type_t" where
  "manager_kind (Man_req _) = REQUEST"
| "manager_kind (Man_cont _) = CONTINUE"

definition manager_users :: "('q, 'm) mpi_st \<Rightarrow> ptr \<Rightarrow> ptr set" where
  "manager_users s m = {d. map_option comp_manager_p (devices s d) = Some m}"

text \<open>\<open>held\<close> lists the pointers that are not in a device.\<close>

definition managers_typed :: "ptr list \<Rightarrow> ('q, 'm) mpi_st \<Rightarrow> bool" where
  "managers_typed held s \<longleftrightarrow> finite (dom (devices s)) \<and>
     (\<forall>m. map_option manager_kind (managers s m) \<in> {None, Some (comp_type (config s))}) \<and>
     (\<forall>m. managers s m = None \<longrightarrow> manager_users s m = {} \<and> m \<notin> set held) \<and>
     (\<forall>m. managers s m \<noteq> None \<longrightarrow> mgr_refs s m = card (manager_users s m) + count_list held m)"

text \<open>What the invariant reads; an operation may change everything else.\<close>

definition shape where
  "shape s = (config s, g_comp_managers s, mgr_refs s, (\<lambda>d. map_option comp_manager_p (devices s d)),
     (\<lambda>m. map_option manager_kind (managers s m)))"

lemma shapeD:
  assumes "shape s' = shape s"
  shows "config s' = config s" "g_comp_managers s' = g_comp_managers s" "mgr_refs s' = mgr_refs s"
    "map_option comp_manager_p (devices s' d) = map_option comp_manager_p (devices s d)"
    "map_option manager_kind (managers s' m) = map_option manager_kind (managers s m)"
    "dom (devices s') = dom (devices s)" "managers s' m = None \<longleftrightarrow> managers s m = None" "manager_users s' = manager_users s"
proof -
  show "config s' = config s" "g_comp_managers s' = g_comp_managers s" "mgr_refs s' = mgr_refs s"
    using assms by (simp_all add: shape_def)
  show d: "map_option comp_manager_p (devices s' d) = map_option comp_manager_p (devices s d)" for d
    using assms unfolding shape_def prod.inject by metis
  show m: "map_option manager_kind (managers s' m) = map_option manager_kind (managers s m)" for m
    using assms unfolding shape_def prod.inject by metis
  have "devices s' x = None \<longleftrightarrow> devices s x = None" for x using d [of x] by (metis option.map_disc_iff)
  then show "dom (devices s') = dom (devices s)" by (simp add: dom_def)
  show "managers s' m = None \<longleftrightarrow> managers s m = None" using m [of m] by (metis option.map_disc_iff)
  show "manager_users s' = manager_users s" by (simp add: fun_eq_iff manager_users_def d)
qed

lemma managers_typed_shape: "shape s' = shape s \<Longrightarrow> managers_typed held s \<Longrightarrow> managers_typed held s'"
  by (simp add: managers_typed_def shapeD(1,3,5-8) [of s' s])

section \<open>Calls do not touch them\<close>

lemma shape_same:
  "config s' = config s \<Longrightarrow> g_comp_managers s' = g_comp_managers s \<Longrightarrow> mgr_refs s' = mgr_refs s \<Longrightarrow>
   devices s' = devices s \<Longrightarrow> managers s' = managers s \<Longrightarrow> shape s' = shape s"
  by (simp add: shape_def)

lemma shape_set_manager: "managers s m = Some x \<Longrightarrow> manager_kind y = manager_kind x \<Longrightarrow> shape (set_manager m y s) = shape s"
  by (auto simp: shape_def fun_eq_iff)

lemma shape_set_device: "devices s d = Some x \<Longrightarrow> comp_manager_p y = comp_manager_p x \<Longrightarrow> shape (set_device d y s) = shape s"
  by (auto simp: shape_def fun_eq_iff)

lemma shape_stream:
  "enter_stream_cs E d s = Inr s' \<Longrightarrow> shape s' = shape s" "leave_stream_cs E d s = Inr s' \<Longrightarrow> shape s' = shape s"
  by (auto simp: enter_stream_cs_def leave_stream_cs_def deref_eq_Inr intro!: shape_set_device split: if_splits elim!: bind_resE)

lemma shape_mpi_test: "mpi_test E q s = Inr (b, st, q', s') \<Longrightarrow> shape s' = shape s"
  by (auto simp: mpi_test_def Let_def elim!: bind_resE intro!: shape_same dest!: run_callbacks_frame)

lemma shape_mpi_post: "mpi_post E r dv s = Inr (q, s') \<Longrightarrow> shape s' = shape s"
  by (auto simp: mpi_post_def split: if_splits intro!: shape_same dest!: isend_state irecv_state)

lemma shape_signal_comp: "signal_comp E e s = Inr s' \<Longrightarrow> shape s' = shape s"
  by (intro shape_same) (auto dest: signal_comp_frame)

lemma shape_set_received: "set_received E p st s = Inr s' \<Longrightarrow> shape s' = shape s"
  by (auto elim!: set_receivedE intro: shape_same)

lemma shape_copy_out: "copy_out E p s = Inr s' \<Longrightarrow> shape s' = shape s"
  by (auto simp: copy_out_def Let_def elim!: bind_resE intro!: shape_same)

lemma shape_new_request: "shape (snd (new_request r s)) = shape s"
  by (rule shape_same) simp_all

lemma shape_irecv: "irecv E a sz r g c s = Inr (q, s') \<Longrightarrow> shape s' = shape s"
  by (auto intro!: shape_same dest!: irecv_state)

lemma shape_post_put_recv:
  assumes "post_put_recv E d c s = Inr s'"
  shows "shape s' = shape s"
proof -
  obtain r a sz rk g cm s1 q s2 s3 dv e where t: "enter_stream_cs E d (snd (new_request r s)) = Inr s1" "irecv E a sz rk g cm s1 = Inr (q, s2)"
    "leave_stream_cs E d s2 = Inr s3" "devices s3 d = Some dv" "s' = set_device d (dv\<lparr>put_entry := e\<rparr>) s3"
    using assms unfolding post_put_recv_def new_request_def Let_def deref_eq_Inr by (elim bind_resE) (auto simp: deref_eq_Inr elim!: bind_resE)
  show ?thesis
    using shape_stream(1) [OF t(1)] shape_irecv [OF t(2)] shape_stream(2) [OF t(3)] shape_set_device [OF t(4)] t(5) shape_new_request [of r s] by simp
qed

lemmas shape_calls = shape_stream shape_mpi_test shape_mpi_post shape_signal_comp shape_set_received shape_copy_out
  shape_post_put_recv

lemma shape_put_completed: "put_completed E e st s = Inr s' \<Longrightarrow> shape s' = shape s"
  unfolding put_completed_def by (elim bind_resE) (simp add: shape_calls)

lemma shape_manager_req_complete: "manager_req_complete E e st s = Inr s' \<Longrightarrow> shape s' = shape s"
  by (auto elim!: manager_req_completeE dest!: shape_calls)

lemma shape_manager_req_test: "manager_req_test E e s = Inr (b, st, e', s') \<Longrightarrow> shape s' = shape s"
  by (auto simp: manager_req_test_def split: if_splits elim!: bind_resE dest!: shape_calls)

lemma shape_manager_cont_add_entry:
  assumes "manager_cont_add_entry E x e s = Inr s'"
  shows "shape s' = shape s"
proof -
  obtain s1 cbs l s2 where c: "enter_stream_cs E (ent_device e) (snd (new_centry e s)) = Inr s1"
    "run_callbacks E cbs (s1\<lparr>lib := l\<rparr>) = Inr s2" "leave_stream_cs E (ent_device e) s2 = Inr s'"
    using assms by (auto simp: manager_cont_add_entry_def Let_def split: prod.splits elim!: bind_resE)
  have "shape s2 = shape s1" using run_callbacks_frame [OF c(2)] by (auto intro: shape_same)
  moreover have "shape (snd (new_centry e s)) = shape s" by (rule shape_same) (simp_all add: new_centry_def)
  ultimately show ?thesis using shape_stream(1) [OF c(1)] shape_stream(2) [OF c(3)] by simp
qed

lemma shape_unlock_put_entry: "unlock_put_entry d s = Inr s' \<Longrightarrow> shape s' = shape s"
  by (auto simp: unlock_put_entry_def deref_eq_Inr intro!: shape_set_device elim!: bind_resE)

lemmas shape_steps = shape_put_completed shape_manager_req_complete shape_manager_req_test shape_manager_cont_add_entry
  shape_unlock_put_entry

lemma thread_step_shape:
  assumes t: "thread_step E p s = Inr (p', s')"
  shows "shape s' = shape s"
proof (cases p)
  case (Posting r e)
  then show ?thesis using t by (auto elim!: bind_resE dest!: shape_calls)
next
  case (Put_locked d)
  then obtain dv where dv: "devices s d = Some dv" using t by (auto simp: deref_eq_Inr elim!: bind_resE)
  show ?thesis
  proof (cases "mpi_req (put_entry dv) = MPI_REQUEST_NULL")
    case True
    then show ?thesis using t Put_locked dv by simp
  next
    case False
    then obtain s1 q b st s2 dv2 e where "enter_stream_cs E d s = Inr s1" "mpi_test E (mpi_req (put_entry dv)) s1 = Inr (b, st, q, s2)"
      and dv2: "devices s2 d = Some dv2" and "leave_stream_cs E d (set_device d (dv2\<lparr>put_entry := e\<rparr>) s2) = Inr s'"
      using t Put_locked dv by (auto simp: deref_eq_Inr Let_def elim!: bind_resE)
    then show ?thesis using shape_set_device [OF dv2] by (auto dest!: shape_calls)
  qed
next
  case (Cont_locked m)
  then obtain x b st q s1 l where x: "managers s m = Some (Man_cont x)" and s1: "mpi_test E (cont_req x) s = Inr (b, st, q, s1)"
    and s': "s' = set_manager m (Man_cont (x\<lparr>cont_req := q\<rparr>)) (s1\<lparr>lib := l\<rparr>)"
    using t by (auto simp: deref_eq_Inr Let_def split: manager_t.splits prod.splits elim!: bind_resE)
  have "managers (s1\<lparr>lib := l\<rparr>) m = Some (Man_cont x)" using dev_likeD(1) [OF dev_like_mpi_test [OF s1]] x by simp
  from shape_set_manager [OF this, of "Man_cont (x\<lparr>cont_req := q\<rparr>)"] have "shape s' = shape (s1\<lparr>lib := l\<rparr>)" using s' by simp
  also have "\<dots> = shape s1" by (rule shape_same) simp_all
  also have "\<dots> = shape s" by (rule shape_mpi_test [OF s1])
  finally show ?thesis .
qed (use t in \<open>auto simp: get_manager_req_Inr deref_eq_Inr new_request_def add_pending_def Let_def
    split: if_splits manager_t.splits list.splits option.splits prod.splits
    elim!: bind_resE intro!: shape_set_manager shape_set_device intro: shape_same dest!: shape_calls shape_steps\<close>)

section \<open>Making, sharing and releasing a manager\<close>

lemma manager_users_refs [simp]: "manager_users (s\<lparr>mgr_refs := r\<rparr>) = manager_users s"
  by (simp add: fun_eq_iff manager_users_def)

lemma typed_finite: "managers_typed held s \<Longrightarrow> finite (manager_users s m)"
  by (rule finite_subset [of _ "dom (devices s)"]) (auto simp: manager_users_def managers_typed_def)

lemma typed_live:
  assumes "managers_typed held s"
  shows "devices s d = Some dv \<Longrightarrow> managers s (comp_manager_p dv) \<noteq> None" "m \<in> set held \<Longrightarrow> managers s m \<noteq> None"
proof -
  have n: "managers s m = None \<Longrightarrow> manager_users s m = {} \<and> m \<notin> set held" for m
    using assms unfolding managers_typed_def by blast
  have "d \<in> manager_users s (comp_manager_p dv)" if "devices s d = Some dv" using that by (simp add: manager_users_def)
  then show "devices s d = Some dv \<Longrightarrow> managers s (comp_manager_p dv) \<noteq> None" using n by blast
  show "m \<in> set held \<Longrightarrow> managers s m \<noteq> None" using n by blast
qed

lemma typed_kind: "managers_typed held s \<Longrightarrow> managers s m = Some x \<Longrightarrow> manager_kind x = comp_type (config s)"
  unfolding managers_typed_def by (metis insertE option.distinct(1) option.inject option.map(2) singletonD)

lemma typed_new:
  assumes T: "managers_typed held s" and p: "managers s p = None" and k: "manager_kind x = comp_type (config s)"
    and s': "managers s' = (managers s)(p \<mapsto> x)" "mgr_refs s' = (mgr_refs s)(p := 1)" "devices s' = devices s" "config s' = config s"
  shows "managers_typed (p # held) s'"
proof -
  have u: "manager_users s' = manager_users s" by (simp add: fun_eq_iff manager_users_def s')
  have "manager_users s p = {}" "p \<notin> set held" using T p by (simp_all add: managers_typed_def)
  then show ?thesis using T k by (auto simp: managers_typed_def s' u)
qed

lemma typed_share:
  assumes "managers_typed held s" and "managers s p \<noteq> None"
  shows "managers_typed (p # held) (s\<lparr>mgr_refs := (mgr_refs s)(p := Suc (mgr_refs s p))\<rparr>)"
  using assms by (auto simp: managers_typed_def manager_users_def)

lemma typed_alloc:
  assumes T: "managers_typed (comp_manager_p dv # held) s" and d: "devices s d = None"
  shows "managers_typed held (set_device d dv s)"
proof -
  have u: "manager_users (set_device d dv s) m = (if m = comp_manager_p dv then insert d (manager_users s m) else manager_users s m)" for m
    using d by (auto simp: manager_users_def)
  have "finite (manager_users s m)" for m by (rule typed_finite [OF T])
  moreover have "d \<notin> manager_users s m" for m using d by (simp add: manager_users_def)
  ultimately show ?thesis using T by (auto simp: managers_typed_def u)
qed

lemma typed_free:
  assumes T: "managers_typed held s" and d: "devices s d = Some dv"
    and s': "managers s' = managers s" "mgr_refs s' = mgr_refs s" "devices s' = (devices s)(d := None)" "config s' = config s"
  shows "managers_typed (comp_manager_p dv # held) s'"
proof -
  have u: "manager_users s' m = manager_users s m - {d}" for m by (auto simp: manager_users_def s')
  have "finite (manager_users s m)" for m by (rule typed_finite [OF T])
  moreover have d': "d \<in> manager_users s m \<longleftrightarrow> m = comp_manager_p dv" for m using d by (auto simp: manager_users_def)
  ultimately have c: "card (manager_users s' m) + (if comp_manager_p dv = m then 1 else 0) = card (manager_users s m)" for m
    using card_Suc_Diff1 [of "manager_users s m" d] by (cases "comp_manager_p dv = m") (simp_all add: u)
  have "managers s (comp_manager_p dv) \<noteq> None" by (rule typed_live(1) [OF T d])
  moreover have "dom (devices s') \<subseteq> dom (devices s)" by (auto simp: s')
  ultimately show ?thesis using T c [symmetric] unfolding managers_typed_def s'(1,2,4)
    by (auto simp: u intro: finite_subset)
qed

lemma typed_release:
  assumes T: "managers_typed (m # held) s" and r: "release_manager E m s = Inr s'"
  shows "managers_typed held s' \<and> g_comp_managers s' = g_comp_managers s"
proof -
  obtain x where x: "managers s m = Some x" using r by (auto simp: release_manager_def deref_eq_Inr elim!: bind_resE)
  let ?s1 = "s\<lparr>mgr_refs := (mgr_refs s)(m := mgr_refs s m - 1)\<rparr>"
  have n: "mgr_refs s m = Suc (card (manager_users s m) + count_list held m)" using T x by (simp add: managers_typed_def)
  have T1: "managers_typed held ?s1" using T n by (auto simp: managers_typed_def)
  show ?thesis
  proof (cases "mgr_refs s m - 1 > 0")
    case True
    then show ?thesis using r x T1 by (auto simp: release_manager_def)
  next
    case False
    then have "card (manager_users s m) = 0" "m \<notin> set held" using n by (simp_all add: count_list_0_iff)
    moreover have "finite (manager_users s m)" by (rule typed_finite [OF T])
    ultimately have e: "manager_users s m = {}" by simp
    have s': "managers s' = (managers s)(m := None) \<and> mgr_refs s' = mgr_refs ?s1 \<and> devices s' = devices s \<and> config s' = config s \<and>
        g_comp_managers s' = g_comp_managers s"
      using r x False
      by (auto simp: release_manager_def manager_cont_delete_def Let_def split: manager_t.splits if_splits prod.splits
          elim!: bind_resE)
    have u': "manager_users s' = manager_users s" using s' by (simp add: fun_eq_iff manager_users_def)
    show ?thesis using T1 e s' \<open>m \<notin> set held\<close> by (auto simp: managers_typed_def u')
  qed
qed

section \<open>Reachable states\<close>

lemma make_manager_parts:
  assumes "make_manager E s = Inr (p, s')"
  obtains x l where "manager_kind x = comp_type (config s)" "p = next_obj s"
    "s' = s\<lparr>lib := l, managers := (managers s)(p \<mapsto> x), mgr_refs := (mgr_refs s)(p := 1), next_obj := Suc p\<rparr>"
proof (cases "comp_type (config s)")
  case REQUEST
  then show thesis using assms that [of "Man_req manager_req_new" "lib s"] by (auto simp: make_manager_def Let_def)
next
  case CONTINUE
  then obtain m s1 where m: "manager_cont_new E s = Inr (m, s1)" using assms by (auto simp: make_manager_def split: if_splits elim!: bind_resE)
  obtain l where s1: "s1 = s\<lparr>lib := l\<rparr>" using manager_cont_new_state [OF m] by blast
  show thesis using assms CONTINUE m s1 that [of "Man_cont m" l] by (auto simp: make_manager_def Let_def split: if_splits)
qed

lemma typed_make_manager:
  assumes T: "managers_typed held s" and n: "managers s (next_obj s) = None" and m: "make_manager E s = Inr (p, s')"
  shows "managers_typed (p # held) s'" "devices s' = devices s" "g_comp_managers s' = g_comp_managers s"
proof -
  obtain x l where x: "manager_kind x = comp_type (config s)" "p = next_obj s"
    "s' = s\<lparr>lib := l, managers := (managers s)(p \<mapsto> x), mgr_refs := (mgr_refs s)(p := 1), next_obj := Suc p\<rparr>"
    using m by (rule make_manager_parts)
  show "managers_typed (p # held) s'" using n x by (intro typed_new [OF T, of p x]) simp_all
qed (use m in \<open>auto elim!: make_manager_parts\<close>)

lemma typed_make_managers:
  assumes "managers_typed held s" and "mpi_fresh s" and "make_managers E n s = Inr (ps, s')"
  shows "managers_typed (ps @ held) s'"
  using assms
proof (induction E n s arbitrary: held ps s' rule: make_managers.induct)
  case (2 E n s)
  then obtain p s1 qs where s1: "make_manager E s = Inr (p, s1)" "make_managers E n s1 = Inr (qs, s')" and ps: "ps = p # qs"
    by (auto elim!: bind_resE)
  have n: "managers s (next_obj s) = None" using "2.prems"(2) by (simp add: mpi_fresh_def)
  have f: "mpi_fresh s1" using s1(1) "2.prems"(2) by (auto elim!: make_manager_parts simp: mpi_fresh_def fresh_ok_def less_Suc_eq Suc_le_eq)
  have "managers_typed (qs @ p # held) s'"
    by (rule "2.IH" [OF s1(1) refl typed_make_manager(1) [OF "2.prems"(1) n s1(1)] f s1(2)])
  then show ?case by (simp add: ps managers_typed_def add.commute add.left_commute)
qed simp

lemma mpi_initializeE:
  assumes i: "mpi_initialize E getenv s0 = Inr s"
  obtains (own) l rk nr c where "s = s0\<lparr>lib := l, g_rank := rk, g_nranks := nr, config := c\<rparr>"
  | (shared) l rk nr c n ps s2 where "make_managers E n (s0\<lparr>lib := l, g_rank := rk, g_nranks := nr, config := c\<rparr>) = Inr (ps, s2)"
      "s = s2\<lparr>g_comp_managers := ps\<rparr>"
proof -
  obtain l rk nr c where e: "MPI_Init_thread E (lib s0) = (MPI_SUCCESS, MPI_THREAD_MULTIPLE, l)"
    "MPI_Comm_rank E (MPI_COMM_WORLD E) l = (MPI_SUCCESS, rk)" "MPI_Comm_size E (MPI_COMM_WORLD E) l = (MPI_SUCCESS, nr)"
    "mpi_read_config E getenv (config s0) = Inr c"
    using i by (auto simp: mpi_initialize_def Let_def split: prod.splits elim!: bind_resE)
  show thesis
  proof (cases "g_num_comp_managers c = 0")
    case True
    then show thesis using i e own [of c nr rk l] by (simp add: mpi_initialize_def)
  next
    case False
    then show thesis using i e shared by (auto simp: mpi_initialize_def split: if_splits elim!: bind_resE)
  qed
qed

lemma typed_mpi_initialize:
  assumes i: "mpi_initialize E getenv s0 = Inr s" and s0: "mpi_start s0"
  shows "managers_typed (g_comp_managers s) s"
proof -
  have T: "managers_typed [] (s0\<lparr>lib := l, g_rank := rk, g_nranks := nr, config := c\<rparr>)"
    and f: "mpi_fresh (s0\<lparr>lib := l, g_rank := rk, g_nranks := nr, config := c\<rparr>)" for l rk nr c
    using s0 by (simp_all add: mpi_start_def managers_typed_def manager_users_def mpi_fresh_def fresh_ok_def)
  from i show ?thesis
  proof (cases rule: mpi_initializeE)
    case (own l rk nr c)
    then show ?thesis using T s0 by (simp add: mpi_start_def)
  next
    case (shared l rk nr c n ps s2)
    have "managers_typed ps s2" using typed_make_managers [OF T f shared(1)] by simp
    then show ?thesis by (simp add: shared(2) managers_typed_def manager_users_def)
  qed
qed

lemma typed_mpi_alloc_device:
  assumes T: "managers_typed (g_comp_managers s) s" and f: "mpi_fresh s" and a: "mpi_alloc_device E mx c s = Inr (d, s')"
  shows "managers_typed (g_comp_managers s') s'"
  using a
proof (rule mpi_alloc_deviceE)
  fix l m s1 buf s2 dv
  let ?s0 = "s\<lparr>next_obj := Suc d, g_ndevices := to_int (g_ndevices s + 1), lib := l\<rparr>" and ?g = "g_comp_managers s"
  assume d: "d = next_obj s" and m: "device_manager E (g_ndevices s) ?s0 = Inr (m, s1)"
    and v: "vector_resize E (put_rbuf_size dv) s1 = Inr (buf, s2)" and dv: "comp_manager_p dv = m"
    and p: "post_put_recv E d c (set_device d dv s2) = Inr s'"
  have T0: "managers_typed ?g ?s0" by (rule managers_typed_shape [OF shape_same T]) simp_all
  have n: "managers ?s0 (next_obj ?s0) = None" "devices s d = None" using f by (simp_all add: mpi_fresh_def d)
  have "managers_typed (m # ?g) s1 \<and> devices s1 = devices s \<and> g_comp_managers s1 = ?g"
  proof (cases "?g = []")
    case True
    then have "make_manager E ?s0 = Inr (m, s1)" using m by (simp add: device_manager_def)
    then show ?thesis using typed_make_manager [OF T0 n(1)] by simp
  next
    case False
    define k where "k = nat (to_size (g_ndevices s) mod int (length ?g))"
    have "k < length ?g" using False by (simp add: k_def nat_less_iff)
    then have "managers ?s0 (?g ! k) \<noteq> None" by (intro typed_live(2) [OF T0] nth_mem)
    moreover have "m = ?g ! k" "s1 = ?s0\<lparr>mgr_refs := (mgr_refs ?s0)(m := Suc (mgr_refs ?s0 m))\<rparr>"
      using m False by (auto simp: device_manager_def Let_def k_def)
    ultimately show ?thesis using typed_share [OF T0, of m] by simp
  qed
  moreover have "shape s2 = shape s1" "devices s2 = devices s1" using vector_resize_state [OF v] by (auto intro: shape_same)
  ultimately have "managers_typed (comp_manager_p dv # ?g) s2" "devices s2 d = None" "g_comp_managers s2 = ?g"
    using dv n(2) managers_typed_shape [of s2 s1] shapeD(2) [of s2 s1] by simp_all
  then have "managers_typed ?g (set_device d dv s2)" "g_comp_managers (set_device d dv s2) = ?g" by (auto intro: typed_alloc)
  then show ?thesis using shape_post_put_recv [OF p] managers_typed_shape [of s' "set_device d dv s2" ?g] shapeD(2) [of s' "set_device d dv s2"] by simp
qed

lemma typed_mpi_free_device:
  assumes T: "managers_typed (g_comp_managers s) s" and f: "mpi_free_device E d s = Inr s'"
  shows "managers_typed (g_comp_managers s') s'"
proof -
  obtain dv where dv: "devices s d = Some dv" using f by (auto simp: mpi_free_device_def deref_eq_Inr elim!: bind_resE)
  obtain l b where r: "release_manager E (comp_manager_p dv) (s\<lparr>lib := l, devices := (devices s)(d := None), blocks := b\<rparr>) = Inr s'"
    using f dv by (rule mpi_free_device_parts)
  let ?s1 = "s\<lparr>lib := l, devices := (devices s)(d := None), blocks := b\<rparr>"
  have "managers_typed (comp_manager_p dv # g_comp_managers s) ?s1" by (rule typed_free [OF T dv]) simp_all
  from typed_release [OF this r] show ?thesis by simp
qed

lemma alone_shape: "alone E p s = Inr s' \<Longrightarrow> shape s' = shape s"
proof (induction E p s rule: alone.induct)
  case (1 E p s)
  then show ?case
  proof (cases "p = Idle")
    case False
    then obtain p' s1 where t: "thread_step E p s = Inr (p', s1)" "p' \<noteq> p" "alone E p' s1 = Inr s'"
      using "1.prems" by (auto simp: alone.simps [of E p s] split: if_splits elim!: bind_resE)
    show ?thesis using "1.IH" [OF False t(1) refl t(2,3)] thread_step_shape [OF t(1)] by simp
  qed simp
qed

lemma sequential_shape: "sequential E c s = Inr (b, s') \<Longrightarrow> shape s' = shape s"
  using alone_sequential [of c s E] by (auto elim!: bind_resE dest: alone_shape)

lemma typed_keep: "managers_typed (g_comp_managers s) s \<Longrightarrow> shape s' = shape s \<Longrightarrow> managers_typed (g_comp_managers s') s'"
  using managers_typed_shape [of s' s] shapeD(2) [of s' s] by simp

lemma typed_sequential:
  assumes "managers_typed (g_comp_managers s) s" and "sequential E c s = Inr (b, s')"
  shows "managers_typed (g_comp_managers s') s'"
  using typed_keep [OF assms(1) sequential_shape [OF assms(2)]] .

lemma typed_undisturbed: "undisturbed s s' \<Longrightarrow> managers_typed (g_comp_managers s) s \<Longrightarrow> managers_typed (g_comp_managers s') s'"
  by (rule typed_keep [of s]) (auto simp: undisturbed_def shape_def)

lemma reach_typed:
  assumes A: "lct_queue_fifo E view" "mpi_start s0"
    "env_int (getenv ''LCW_MPI_MAX_PENDING_MSG'') (g_pending_msg_max (config s0)) < int_max"
    and r: "mpi_reach E view getenv s0 lost s"
  shows "managers_typed (g_comp_managers s) s"
  using r
proof (induction rule: mpi_reach.induct)
  case (initialize s)
  then show ?case by (rule typed_mpi_initialize [OF _ A(2)])
next
  case (alloc_device lost s n c d s')
  then show ?case using typed_mpi_alloc_device mpi_invD(2) [OF reach_inv [OF A alloc_device.hyps(1)]] by blast
next
  case (free_device lost s d dv s')
  then show ?case using typed_mpi_free_device by blast
next
  case (do_progress lost s d b s')
  then show ?case using typed_sequential [of s E "Call_do_progress d"] by simp
next
  case (send lost s d rank tag buf len c ctx b s')
  then show ?case using typed_sequential [of s E "Call_send d rank tag buf len c ctx"] by simp
next
  case (recv lost s d rank tag buf len c ctx b s')
  then show ?case using typed_sequential [of s E "Call_recv d rank tag buf len c ctx"] by simp
next
  case (put lost s d rank buf len c ctx b s')
  then show ?case using typed_sequential [of s E "Call_put d rank buf len c ctx"] by simp
qed (blast intro: typed_undisturbed undisturbed_calls)+

lemma threads_run_shape: "threads_run E c c' \<Longrightarrow> shape (snd c') = shape (snd c)"
proof (induction rule: rtranclp_induct)
  case (step c c')
  from step.hyps(2) have "shape (snd c') = shape (snd c)"
  proof cases
    case (application ps s m bs al l)
    then show ?thesis by (auto intro: shape_same)
  qed (auto dest: thread_step_shape elim!: util_poll_cqE intro: shape_same)
  then show ?case using step.IH by simp
qed simp

text \<open>C13: In every state that a program and any number of threads over it can reach, the completion manager of a
  device is alive and has the type that \<^verbatim>\<open>LCW_MPI_COMP_TYPE\<close> chose, so the virtual calls of a device never
  meet a deleted manager or one of the other class; its reference count is the number of devices that
  use it plus its places in the list of global managers.\<close>

theorem device_managers_typed:
  assumes "lct_queue_fifo E view" and "mpi_start s0"
    and "env_int (getenv ''LCW_MPI_MAX_PENDING_MSG'') (g_pending_msg_max (config s0)) < int_max"
    and "mpi_reach E view getenv s0 lost s" and "threads_run E (replicate n Idle, s) (ps, s')" and "devices s' d = Some dv"
  shows "\<exists>x. managers s' (comp_manager_p dv) = Some x \<and> manager_kind x = comp_type (config s') \<and>
    mgr_refs s' (comp_manager_p dv) =
      card (manager_users s' (comp_manager_p dv)) + count_list (g_comp_managers s') (comp_manager_p dv)"
proof -
  have T: "managers_typed (g_comp_managers s') s'"
    using typed_keep [OF reach_typed [OF assms(1-4)]] threads_run_shape [OF assms(5)] by simp
  obtain x where x: "managers s' (comp_manager_p dv) = Some x" using typed_live(1) [OF T assms(6)] by blast
  then show ?thesis using typed_kind [OF T x] T by (simp add: managers_typed_def)
qed

theorem device_managers_typed_witness:
  "\<exists>ps s' dv x. ref_threads = Inr (ps, s') \<and> devices s' 2 = Some dv \<and> managers s' (comp_manager_p dv) = Some x \<and>
     manager_kind x = comp_type (config s')"
proof -
  obtain s ps s' where s: "ref_program = Inr s" "ref_threads = Inr (ps, s')"
    and r: "threads_run (ref_mpi ref_build) (replicate 4 Idle, s) (ps, s')" and l: "put_locked s' 2"
    by (rule ref_threads_run)
  obtain dv where dv: "devices s' 2 = Some dv" using l by (auto simp: put_locked_def split: option.splits)
  from device_managers_typed [OF ref_threads_start ref_program_reach [OF s(1)] r dv] show ?thesis using s(2) dv by blast
qed

end
