(* ===== verification/LCW_Mpi_Routing.thy ===== *)
theory LCW_Mpi_Routing
  imports LCW_Mpi_Route_Steps LCW_Mpi_Managers
begin

text \<open>
  The MPI backend brings every completion to the completion queue given when the operation was posted,
  under every interleaving of threads.
\<close>

section \<open>Histories\<close>

definition carries :: "thread_pc list \<Rightarrow> entry_t list" where
  "carries ps = concat (map carried ps)"

definition ops_to :: "ptr \<Rightarrow> (ptr \<times> request_t) list \<Rightarrow> request_t multiset" where
  "ops_to c xs = (\<Sum>(c', r)\<leftarrow>xs. toward c' r c)"

lemma ops_to_simps [simp]:
  "ops_to c [] = {#}" "ops_to c ((c', r) # xs) = toward c' r c + ops_to c xs" "ops_to c (xs @ ys) = ops_to c xs + ops_to c ys"
  by (simp_all add: ops_to_def)

lemma ops_to_mono: "mset xs \<subseteq># mset ys \<Longrightarrow> ops_to c xs \<subseteq># ops_to c ys"
proof -
  have ops: "ops_to c zs = (\<Sum>(c', r)\<in>#mset zs. toward c' r c)" for zs
    unfolding ops_to_def by (simp add: sum_mset_sum_list flip: mset_map)
  assume "mset xs \<subseteq># mset ys"
  then obtain zs where "mset ys = mset xs + zs" by (auto simp: mset_subset_eq_exists_conv)
  then show ?thesis by (simp add: ops)
qed

lemma posted_to_ops: "posted_to p c = ops_to c (posted_at p)"
  by (cases p) simp_all

lemma carries_split: "mpi_pairs view (carries (us @ p # vs)) s = mpi_pairs view (carried p) s \<union> dest ` set (carries us @ carries vs)"
  by (auto simp: mpi_pairs_def carries_def)

lemma flows_frame_set: "flows P D A s A' s' \<Longrightarrow> B = A \<union> C \<Longrightarrow> B' = A' \<union> C \<Longrightarrow> flows P D B s B' s'"
  by (simp add: flows_frame)

lemma threads_history_flows:
  assumes q: "lct_queue_fifo E view" and "threads_history E c0 begun created seen c"
  shows "flows (\<lambda>c. ops_to c created) (\<lambda>c. ops_to c seen) (mpi_pairs view (carries (fst c0)) (snd c0)) (snd c0)
    (mpi_pairs view (carries (fst c)) (snd c)) (snd c)"
  using assms(2)
proof (induction rule: threads_history.induct)
  case start
  show ?case by (simp add: steady_calm)
next
  case (call begun created seen us vs s c p)
  have "carried p = []" using call.hyps(2) by (cases c) (auto elim!: bind_resE)
  then show ?case using call.IH by (simp add: carries_def)
next
  case (go begun created seen us p vs s p' s')
  have "flows (posted_to p) none (mpi_pairs view (carries (us @ p # vs)) s) s (mpi_pairs view (carries (us @ p' # vs)) s') s'"
    by (rule flows_frame_set [OF thread_step_flows [OF q go.hyps(3)] carries_split carries_split])
  from flows_trans [OF go.IH [simplified] this] show ?case by (simp add: posted_to_ops)
next
  case (poll begun created seen us vs s c out b r s')
  have "state_entries s' = state_entries s" using poll.hyps(2) by (rule util_poll_cqE) (rule state_entries_cong; simp)
  then have "flows none (if b then toward c r else none) (mpi_pairs view H s) s (mpi_pairs view H s') s'" for H
    using flows_poll [OF q poll.hyps(2), of "dest ` (state_entries s \<union> set H)"] by (simp add: mpi_pairs_def)
  from flows_trans [OF poll.IH [simplified] this] show ?case by (cases b) simp_all
next
  case (application begun created seen ps s m bs al l)
  have "steady H s (s\<lparr>mem := m, blocks := bs, m_allocator := al, lib := l\<rparr>)" for H m bs al l by (rule steady_frame) simp_all
  then show ?case using flows_still [OF application.IH [simplified] steady_calm] by simp
qed

lemma threads_history_run: "threads_history E c0 begun created seen c \<Longrightarrow> threads_run E c0 c"
proof (induction rule: threads_history.induct)
  case (call begun created seen us vs s c p)
  from rtranclp.rtrancl_into_rtrancl [OF call.IH threads_step.call [OF call.hyps(2)]] show ?case .
next
  case (go begun created seen us p vs s p' s')
  from rtranclp.rtrancl_into_rtrancl [OF go.IH threads_step.go [OF go.hyps(2,3)]] show ?case .
next
  case (poll begun created seen us vs s c out b r s')
  from rtranclp.rtrancl_into_rtrancl [OF poll.IH threads_step.poll [OF poll.hyps(2)]] show ?case .
next
  case (application begun created seen ps s m bs al l)
  from rtranclp.rtrancl_into_rtrancl [OF application.IH threads_step.application] show ?case .
qed simp

section \<open>Sequential calls\<close>

lemma alone_flows:
  assumes q: "lct_queue_fifo E view" and "alone E p s = Inr s'"
  shows "\<exists>P. flows P none (mpi_pairs view (carried p) s) s (mpi_pairs view [] s') s' \<and> (\<forall>c. P c \<subseteq># ops_to c (request_at p))"
  using assms
proof (induction E p s arbitrary: s' rule: alone.induct)
  case (1 E p s)
  show ?case
  proof (cases "p = Idle")
    case True
    then show ?thesis using "1.prems"(2) by (intro exI [of _ none]) auto
  next
    case False
    then obtain p' s1 where t: "thread_step E p s = Inr (p', s1)" "p' \<noteq> p" "alone E p' s1 = Inr s'"
      using "1.prems"(2) by (auto simp: alone.simps [of E p s] split: if_splits elim!: bind_resE)
    obtain P where P: "flows P none (mpi_pairs view (carried p') s1) s1 (mpi_pairs view [] s') s'" "\<forall>c. P c \<subseteq># ops_to c (request_at p')"
      using "1.IH" [OF False t(1) refl t(2) "1.prems"(1) t(3)] by blast
    have "posted_to p c + P c \<subseteq># ops_to c (request_at p)" for c
    proof -
      have "ops_to c (posted_at p) + ops_to c (request_at p') \<subseteq># ops_to c (request_at p)" 
        using ops_to_mono [of "posted_at p @ request_at p'" "request_at p" c] step_uncreated [OF t(1)] by simp
      then show ?thesis using P(2) unfolding posted_to_ops by (meson subset_mset.add_left_mono subset_mset.order_trans)
    qed
    then show ?thesis using flows_trans [OF thread_step_flows [OF "1.prems"(1) t(1)] P(1)] by (intro exI [of _ "\<lambda>c. posted_to p c + P c"]) simp
  qed
qed

lemma sequential_flows:
  assumes q: "lct_queue_fifo E view" and "sequential E call s = Inr (b, s')"
  shows "\<exists>p P. start_call call s = Inr p \<and> flows P none (mpi_pairs view [] s) s (mpi_pairs view [] s') s' \<and>
    (\<forall>c. P c \<subseteq># ops_to c (request_at p))"
proof -
  obtain p where p: "start_call call s = Inr p" "alone E p s = Inr s'"
    using alone_sequential [of call s E] assms(2) by (auto elim!: bind_resE)
  have "carried p = []" using p(1) by (cases call) (auto elim!: bind_resE)
  then show ?thesis using alone_flows [OF q p(2)] p(1) by auto
qed

lemma steady_make_manager:
  assumes "make_manager E s = Inr (p, s')"
  shows "steady [] s s'"
  using assms
proof (rule make_managerE)
  fix m l assume "man_ids m = []"
    and s': "s' = s\<lparr>lib := l, managers := (managers s)(p \<mapsto> m), mgr_refs := (mgr_refs s)(p := 1), next_obj := Suc p\<rparr>" and "p = next_obj s"
  then have "state_entries s' \<subseteq> state_entries s" by (auto simp: state_entries_def man_ids_def split: if_splits)
  then show ?thesis using s' \<open>p = next_obj s\<close> by (auto simp: steady_def)
qed

lemma steady_trans: "steady [] s s1 \<Longrightarrow> steady [] s1 s2 \<Longrightarrow> steady [] s s2"
  by (simp add: steady_def) (blast intro: subset_trans)

lemma steady_make_managers: "make_managers E n s = Inr (ps, s') \<Longrightarrow> steady [] s s'"
proof (induction E n s arbitrary: ps s' rule: make_managers.induct)
  case (2 E n s)
  then show ?case by (auto elim!: bind_resE) (metis steady_make_manager steady_trans)
qed simp

lemma calm_mpi_alloc_device:
  assumes "mpi_alloc_device E mx c s = Inr (d, s')"
  shows "calm view [] s s'"
  using assms
proof (rule mpi_alloc_deviceE)
  fix l m s1 buf s2 dv
  let ?s = "s\<lparr>next_obj := Suc d, g_ndevices := to_int (g_ndevices s + 1), lib := l\<rparr>"
  assume d: "d = next_obj s" and m: "device_manager E (g_ndevices s) ?s = Inr (m, s1)" and v: "vector_resize E (put_rbuf_size dv) s1 = Inr (buf, s2)"
    and e: "put_entry dv = null_entry" and p: "post_put_recv E d c (set_device d dv s2) = Inr s'"
  have "steady [] s ?s" using d by (intro steady_frame) simp_all
  moreover have "steady [] ?s s1"
  proof (cases "g_comp_managers s = []")
    case True
    then show ?thesis using m by (intro steady_make_manager [of E _ m]) (simp add: device_manager_def)
  next
    case False
    then show ?thesis using m by (intro steady_frame) (auto simp: device_manager_def Let_def)
  qed
  moreover have "steady [] s1 s2" using vector_resize_state [OF v] by auto
  ultimately have 1: "calm view [] s s2" by (rule steady_calm [OF steady_trans [OF _ steady_trans]])
  have "state_entries (set_device d dv s2) \<subseteq> insert null_entry (state_entries s2)"
    using e by (auto simp: state_entries_def set_device_def split: if_splits)
  moreover have "cq_pairs view (set_device d dv s2) = cq_pairs view s2" by (rule cq_pairs_cong) simp
  ultimately have "mpi_pairs view [] (set_device d dv s2) \<subseteq> insert (nullptr, nullptr) (mpi_pairs view [] s2)"
    by (auto simp: mpi_pairs_def dest_def null_entry_def)
  then have 2: "routed (mpi_pairs view [] (set_device d dv s2)) G n" if "routed (mpi_pairs view [] s2) G n" for G n
    by (rule routed_mono [rotated]) (use that in simp)
  have "calm view [] s2 (set_device d dv s2)"
    unfolding flows_def using 2 by (auto simp: fresh_ok_def open_cq_def is_cq_def)
  then show ?thesis using calm_trans [OF 1 calm_trans [OF _ calm_post_put_recv [OF p]]] by simp
qed

lemma steady_mpi_free_device:
  assumes "mpi_free_device E d s = Inr s'"
  shows "steady [] s s'"
proof -
  obtain dv where dv: "devices s d = Some dv" using assms by (auto simp: mpi_free_device_def deref_eq_Inr elim!: bind_resE)
  obtain l b where r: "release_manager E (comp_manager_p dv) (s\<lparr>lib := l, devices := (devices s)(d := None), blocks := b\<rparr>) = Inr s'"
    by (rule mpi_free_device_parts [OF assms dv])
  note parts = release_manager_def manager_cont_delete_def Let_def
  have "heap s' = heap s" "comps s' = comps s" "next_obj s' = next_obj s" "centries s' = centries s" "devices s' = (devices s)(d := None)"
    using r by (auto simp: parts split: if_splits prod.splits manager_t.splits elim!: bind_resE)
  moreover have "managers s' m = managers s m \<or> managers s' m = None" for m
    using r by (auto simp: parts split: if_splits prod.splits manager_t.splits elim!: bind_resE)
  ultimately show ?thesis by (intro steady_frame) simp_all
qed

text \<open>The calls on completion objects.\<close>

lemma calm_poll:
  assumes "lct_queue_fifo E view" "util_poll_cq E c out s = Inr (b, r, s')"
  shows "flows none (if b then toward c r else none) (mpi_pairs view H s) s (mpi_pairs view H s') s'"
proof -
  have "state_entries s' = state_entries s" using assms(2) by (rule util_poll_cqE) (rule state_entries_cong; simp)
  then show ?thesis using flows_poll [OF assms, of "dest ` (state_entries s \<union> set H)"] by (simp add: mpi_pairs_def)
qed

lemma calm_new_comp:
  assumes "case x of Comp_cq k \<Rightarrow> view k = [] | Comp_handler _ \<Rightarrow> True"
  shows "calm view H s (snd (new_comp x s))"
  unfolding flows_def
proof (intro impI conjI allI)
  let ?s = "snd (new_comp x s)"
  assume f: "fresh_ok s"
  show "fresh_ok ?s" by (rule fresh_ok_grow [OF f]) (auto simp: new_comp_def)
  show "next_obj s \<le> next_obj ?s" by (simp add: new_comp_def)
  show "open_cq c s" if "open_cq c ?s" for c using that by (auto simp: open_cq_def is_cq_def new_comp_def split: if_splits)
  fix G assume "routed (mpi_pairs view H s) G (next_obj s)"
  moreover have "mpi_pairs view H ?s \<subseteq> mpi_pairs view H s"
    using assms by (auto simp: mpi_pairs_def cq_pairs_def cq_ids_def new_comp_def state_entries_def split: comp_obj.splits if_splits)
  ultimately have "routed (mpi_pairs view H ?s) G (next_obj ?s)"
    using routed_mono routed_grow [of _ G "next_obj s" G "next_obj ?s"] by (fastforce simp: new_comp_def)
  then show "\<exists>G'. (\<forall>p<next_obj s. G' p = G p) \<and> routed (mpi_pairs view H ?s) G' (next_obj ?s) \<and>
      (\<forall>c. open_cq c ?s \<longrightarrow> {#} + held_to G' c (heap ?s) = {#} + held_to G c (heap s))"
    by (auto simp: new_comp_def)
qed

lemma calm_free_comp:
  assumes "util_free_cq c s = Inr s' \<or> util_free_handler c s = Inr s'"
  shows "calm view H s s'"
proof (cases "s' = s")
  case False
  then have s': "s' = s\<lparr>comps := (comps s)(c := None)\<rparr>"
    using assms by (auto simp: util_free_cq_def util_free_handler_def split: if_splits comp_obj.splits elim!: bind_resE)
  have "state_entries s' = state_entries s" by (rule state_entries_cong) (simp_all add: s')
  then have "mpi_pairs view H s' \<subseteq> mpi_pairs view H s" by (auto simp: mpi_pairs_def cq_pairs_def cq_ids_def s' split: if_splits)
  then show ?thesis by (intro still_same) (auto simp: s' is_cq_def split: if_splits)
qed simp

lemma flows_routed:
  assumes "flows P D A s A' s'" "fresh_ok s \<and> (\<exists>G. routed A G (next_obj s))"
  shows "fresh_ok s' \<and> (\<exists>G. routed A' G (next_obj s'))"
  using assms flowsD(1) flowsE by (metis (no_types, lifting))

lemma reach_routed:
  assumes q: "lct_queue_fifo E view" and st: "mpi_start s0" and "mpi_reach E view getenv s0 lost s"
  shows "fresh_ok s \<and> (\<exists>G. routed (mpi_pairs view [] s) G (next_obj s))"
  using assms(3)
proof (induction rule: mpi_reach.induct)
  case (initialize s)
  have f: "fresh_ok t \<and> mpi_pairs view [] t = {}" if "t = s0\<lparr>lib := l, g_rank := rk, g_nranks := nr, config := c\<rparr>" for t l rk nr c
    using st that by (simp add: mpi_start_def fresh_ok_def mpi_pairs_def cq_pairs_def cq_ids_def state_entries_def)
  have step: "fresh_ok u \<and> mpi_pairs view [] u = {}" if "steady [] t u" "fresh_ok t" "mpi_pairs view [] t = {}" for t u :: "('a, 'b) mpi_st"
  proof -
    have "cq_pairs view u = cq_pairs view t" using that(1) by (intro cq_pairs_cong) (simp add: steady_def)
    then show ?thesis using flowsD(1) [OF steady_calm [OF that(1), of view] that(2)] that(1,3) by (auto simp: mpi_pairs_def steady_def)
  qed
  have "fresh_ok s \<and> mpi_pairs view [] s = {}"
    using initialize
  proof (cases rule: mpi_initializeE)
    case (own l rk nr c)
    then show ?thesis using f by blast
  next
    case (shared l rk nr c n ps s2)
    then have "fresh_ok s2 \<and> mpi_pairs view [] s2 = {}" using step [OF steady_make_managers] f by blast
    moreover have "steady [] s2 s" unfolding shared(2) by (rule steady_frame) simp_all
    ultimately show ?thesis using step by blast
  qed
  then show ?case by (simp add: routed_def)
next
  case (alloc_device lost s n c d s')
  show ?case by (rule flows_routed [OF calm_mpi_alloc_device [OF alloc_device.hyps(2)] alloc_device.IH])
next
  case (free_device lost s d dv s')
  show ?case by (rule flows_routed [OF steady_calm [OF steady_mpi_free_device [OF free_device.hyps(4)]] free_device.IH])
next
  case (do_progress lost s d b s')
  then show ?case using sequential_flows [OF q, of "Call_do_progress d" s b s'] by (auto dest: flows_routed)
next
  case (send lost s d rank tag buf len c ctx b s')
  then show ?case using sequential_flows [OF q, of "Call_send d rank tag buf len c ctx" s b s'] by (auto dest: flows_routed)
next
  case (recv lost s d rank tag buf len c ctx b s')
  then show ?case using sequential_flows [OF q, of "Call_recv d rank tag buf len c ctx" s b s'] by (auto dest: flows_routed)
next
  case (put lost s d rank buf len c ctx b s')
  then show ?case using sequential_flows [OF q, of "Call_put d rank buf len c ctx" s b s'] by (auto dest: flows_routed)
next
  case (barrier lost s d s')
  then obtain l where "s' = s\<lparr>lib := l\<rparr>" by (auto simp: mpi_barrier_def split: prod.splits elim!: bind_resE)
  then show ?case using flows_routed [OF steady_calm [of "[]" s s' view] barrier.IH] by simp
next
  case (alloc_cq lost s c s')
  have "calm view [] s (snd (mpi_alloc_cq E s))"
    unfolding mpi_alloc_cq_def util_alloc_cq_def using q by (intro calm_new_comp) (simp add: comp_cq_new_def lct_queue_fifo_def)
  then show ?case using flows_routed [OF _ alloc_cq.IH] alloc_cq.hyps(2) by simp
next
  case (poll_cq lost s c out b r s')
  show ?case by (rule flows_routed [OF calm_poll [OF q poll_cq.hyps(2)] poll_cq.IH])
next
  case (free_cq lost s c s')
  show ?case by (rule flows_routed [OF calm_free_comp [OF disjI1 [OF free_cq.hyps(3)]] free_cq.IH])
next
  case (alloc_handler lost s f c s')
  have "calm view [] s (snd (util_alloc_handler f s))" unfolding util_alloc_handler_def by (rule calm_new_comp) simp
  then show ?case using flows_routed [OF _ alloc_handler.IH] alloc_handler.hyps(2) by simp
next
  case (free_handler lost s c s')
  show ?case by (rule flows_routed [OF calm_free_comp [OF disjI2 [OF free_handler.hyps(2)]] free_handler.IH])
next
  case (application lost s m bs al)
  have "steady [] s (s\<lparr>mem := m, blocks := bs, m_allocator := al\<rparr>)" for m bs al by (rule steady_frame) simp_all
  then show ?case by (rule flows_routed [OF steady_calm application.IH])
qed

section \<open>Every completion reaches its queue\<close>

text \<open>The operations for queue \<open>c\<close> that the library holds: its own requests whose destination the state says is \<open>c\<close>.\<close>

definition held_for :: "('q \<Rightarrow> ptr list) \<Rightarrow> thread_pc list \<Rightarrow> ptr \<Rightarrow> ('q, 'm) mpi_st \<Rightarrow> request_t multiset" where
  "held_for view ps c s = (\<Sum>p\<in>{p\<in>dom (heap s). (p, c) \<in> mpi_pairs view (carries ps) s}. as_op (the (heap s p)))"

text \<open>A request with an owner has a destination.\<close>

lemma owner_has_pair:
  assumes "p \<in> set (mpi_owns view (hands ps) s w)"
  shows "\<exists>c. (p, c) \<in> mpi_pairs view (carries ps) s"
proof (cases w)
  case (Own_put d)
  then obtain dv where "devices s d = Some dv" "p = ent_request (put_entry dv)" using assms by (cases "devices s d") (auto split: if_splits)
  then show ?thesis using dest_in_pairs [of "put_entry dv" s "carries ps" view] in_state_entries(3) [of s d dv] by (auto simp: dest_def)
next
  case (Own_man m)
  then obtain x e where "managers s m = Some (Man_req x)" "e \<in> set (entries x)" "p = ent_request e"
    using assms by (cases "managers s m") (auto simp: man_ids_def split: manager_t.splits)
  then show ?thesis using dest_in_pairs [of e s "carries ps" view] in_state_entries(1) [of s m x e] by (auto simp: dest_def)
next
  case (Own_cont a)
  then obtain e where "centries s a = Some e" "p = ent_request e" using assms by (cases "centries s a") auto
  then show ?thesis using dest_in_pairs [of e s "carries ps" view] in_state_entries(2) [of s a e] by (auto simp: dest_def)
next
  case (Own_cq c)
  then show ?thesis using assms by (auto simp: mpi_pairs_def cq_pairs_def)
next
  case Own_hand
  then obtain t where t: "t \<in> set ps" "p \<in> set (in_hand t)" using assms by (auto simp: hands_def)
  have "\<exists>e\<in>set (carried t). ent_request e = p" using t(2) by (cases t rule: in_hand.cases) auto
  then obtain e where "e \<in> set (carries ps)" "ent_request e = p" using t(1) by (auto simp: carries_def)
  then show ?thesis using dest_in_pairs [of e s "carries ps" view] by (auto simp: dest_def)
qed

lemma held_to_for:
  assumes G: "routed (mpi_pairs view (carries ps) s) G (next_obj s)" and f: "fresh_ok s"
    and own: "partitioned (mpi_owns view (hands ps) s) (dom (heap s))"
  shows "held_to G c (heap s) = held_for view ps c s"
proof -
  have eq: "G p = c \<longleftrightarrow> (p, c) \<in> mpi_pairs view (carries ps) s" if p: "p \<in> dom (heap s)" for p
  proof -
    have nn: "p \<noteq> nullptr" using f p unfolding fresh_ok_def by (metis less_irrefl)
    obtain w where "p \<in> set (mpi_owns view (hands ps) s w)" using own p by (auto simp: partitioned_def)
    then obtain d where d: "(p, d) \<in> mpi_pairs view (carries ps) s" using owner_has_pair by blast
    have "G p = e" if "(p, e) \<in> mpi_pairs view (carries ps) s" for e using G that nn by (auto simp: routed_def)
    then show ?thesis using d by blast
  qed
  have "held_to G c (heap s) = (\<Sum>p\<in>dom (heap s). if (p, c) \<in> mpi_pairs view (carries ps) s then as_op (the (heap s p)) else {#})"
    unfolding held_to_def using eq by (intro sum.cong) auto
  also have "\<dots> = held_for view ps c s" unfolding held_for_def by (rule sum.inter_filter [OF fresh_ok_finite [OF f], symmetric])
  finally show ?thesis .
qed

lemma history_routed:
  assumes "lct_queue_fifo E view" and "mpi_start s0"
    and "env_int (getenv ''LCW_MPI_MAX_PENDING_MSG'') (g_pending_msg_max (config s0)) < int_max"
    and "mpi_reach E view getenv s0 [] s" and "1 \<le> n"
    and "g_pending_msg_max (config s) > 0 \<Longrightarrow> g_pending_msg_max (config s) + int n \<le> int_max"
    and "threads_history E (replicate n Idle, s) begun created seen (ps, s')" and "is_cq c s'"
  shows "ops_to c seen + held_for view ps c s' = ops_to c created + held_for view (replicate n Idle) c s"
proof -
  let ?A = "mpi_pairs view (carries (replicate n Idle)) s"
  have "carries (replicate n Idle) = []" by (simp add: carries_def)
  then obtain G where f: "fresh_ok s" and G: "routed ?A G (next_obj s)" using reach_routed [OF assms(1,2,4)] by metis
  have own: "partitioned (mpi_owns view (hands qs) t) (dom (heap t))" if "threads_run E (replicate n Idle, s) (qs, t)" for qs t
    using threads_partitioned [OF assms(1-6) that] by simp
  have fl: "flows (\<lambda>c. ops_to c created) (\<lambda>c. ops_to c seen) ?A s (mpi_pairs view (carries ps) s') s'"
    using threads_history_flows [OF assms(1,7)] by (simp only: fst_conv snd_conv)
  obtain G' where G': "\<forall>p<next_obj s. G' p = G p" "routed (mpi_pairs view (carries ps) s') G' (next_obj s')"
    "\<And>c. open_cq c s' \<Longrightarrow> ops_to c seen + held_to G' c (heap s') = ops_to c created + held_to G c (heap s)"
    by (rule flowsE [OF fl f G]) (rule that)
  have "open_cq c s'" using assms(8) by (simp add: open_cq_def)
  from G'(3) [OF this] show ?thesis
    unfolding held_to_for [OF G'(2) flowsD(1) [OF fl f] own [OF threads_history_run [OF assms(7)]]]
      held_to_for [OF G f own [OF rtranclp.rtrancl_refl]] .
qed

text \<open>C2: Completions are routed: let any number of threads make any calls of the MPI backend, interleaved in any
  way. For every completion queue, the operations polled from it and those still held for it are, as a
  multiset, those posted with that queue (and those held for it at the start). So a completion never
  turns up in another queue, twice or not at all, even when several queues share a device, a
  completion manager and a progress thread. For sends and puts it carries all arguments of the call,
  for receives the device, the buffer and the user context.\<close>

theorem threads_route_completions:
  assumes "lct_queue_fifo E view" and "mpi_start s0"
    and "env_int (getenv ''LCW_MPI_MAX_PENDING_MSG'') (g_pending_msg_max (config s0)) < int_max"
    and "mpi_reach E view getenv s0 [] s" and "1 \<le> n"
    and "g_pending_msg_max (config s) > 0 \<Longrightarrow> g_pending_msg_max (config s) + int n \<le> int_max"
    and "threads_history E (replicate n Idle, s) begun created seen (ps, s')" and "is_cq c s'"
  shows "ops_to c seen + held_for view ps c s' = ops_to c created + held_for view (replicate n Idle) c s"
  by (rule history_routed [OF assms])

text \<open>Two threads that post a receive each, with the same queue, and are interrupted before MPI is called.\<close>

definition ref_recv :: "int \<Rightarrow> request_t" where
  "ref_recv tag = \<lparr>req_op = RECV, req_device = 2, req_rank = 1, req_tag = tag, req_buffer = 4096, req_length = 8,
                 req_user_context = 0\<rparr>"

lemma ref_recv_history:
  fixes E :: "('q, 'm) mpi_env"
  shows "\<exists>ps s'. threads_history E (replicate 2 Idle, s) [(c, ref_recv 3), (c, ref_recv 4)] [(c, ref_recv 4), (c, ref_recv 3)] [] (ps, s') \<and>
    comps s' = comps s"
proof -
  let ?H = "threads_history E ([Idle, Idle], s)"
  note call = threads_history.call [where E = E and ?c0.0 = "([Idle, Idle], s)"]
  note go = threads_history.go [where E = E and ?c0.0 = "([Idle, Idle], s)"]
  let ?p = "\<lambda>t k. Posting (ref_recv t) (new_entry 2 c k)" and ?s1 = "snd (new_request (ref_recv 4) s)"
  let ?s2 = "snd (new_request (ref_recv 3) ?s1)"
  have "?H [] [] [] ([Idle, Idle], s)" by (rule threads_history.start)
  then have "?H [(c, ref_recv 3)] [] [] ([Creating c (ref_recv 3), Idle], s)"
    using call [of _ _ _ "[]" "[Idle]" s "Call_recv 2 1 3 4096 8 c 0"] by (force simp: ref_recv_def)
  then have "?H [(c, ref_recv 3), (c, ref_recv 4)] [] [] ([Creating c (ref_recv 3), Creating c (ref_recv 4)], s)"
    using call [of _ _ _ "[Creating c (ref_recv 3)]" "[]" s "Call_recv 2 1 4 4096 8 c 0"] by (force simp: ref_recv_def)
  then have "?H [(c, ref_recv 3), (c, ref_recv 4)] [(c, ref_recv 4)] [] ([Creating c (ref_recv 3), ?p 4 (next_obj s)], ?s1)"
    using go [of _ _ _ "[Creating c (ref_recv 3)]" "Creating c (ref_recv 4)" "[]" s] by (force simp: new_request_def ref_recv_def)
  then have "?H [(c, ref_recv 3), (c, ref_recv 4)] [(c, ref_recv 4), (c, ref_recv 3)] []
      ([?p 3 (next_obj ?s1), ?p 4 (next_obj s)], ?s2)"
    using go [of _ _ _ "[]" "Creating c (ref_recv 3)" "[?p 4 (next_obj s)]" ?s1] by (force simp: new_request_def ref_recv_def)
  moreover have "replicate 2 Idle = [Idle, Idle]" "comps ?s2 = comps s" by (simp_all add: numeral_2_eq_2)
  ultimately show ?thesis by metis
qed

theorem threads_route_completions_witness:
  "\<exists>c d s ps s'. ref_setup = Inr (c, d, s) \<and>
     threads_history (ref_mpi ref_build) (replicate 2 Idle, s) [(c, ref_recv 3), (c, ref_recv 4)] [(c, ref_recv 4), (c, ref_recv 3)] [] (ps, s') \<and>
     held_for (\<lambda>q. q) ps c s' = {#essence (ref_recv 3), essence (ref_recv 4)#} + held_for (\<lambda>q. q) (replicate 2 Idle) c s"
proof -
  obtain c d s where s: "ref_setup = Inr (c, d, s)" "g_pending_msg_max (config s) = 2" "comps s c = Some (Comp_cq [])"
    using ref_setup_runs by (auto split: sum.splits)
  obtain ps s' where h: "threads_history (ref_mpi ref_build) (replicate 2 Idle, s) [(c, ref_recv 3), (c, ref_recv 4)]
      [(c, ref_recv 4), (c, ref_recv 3)] [] (ps, s')" and "comps s' = comps s" using ref_recv_history by blast
  then have q: "is_cq c s'" using s(3) by (simp add: is_cq_def)
  from threads_route_completions [OF ref_threads_start ref_setup_reach [OF s(1)] _ _ h q]
  have "ops_to c [] + held_for (\<lambda>q. q) ps c s' = ops_to c [(c, ref_recv 4), (c, ref_recv 3)] + held_for (\<lambda>q. q) (replicate 2 Idle) c s"
    using s(2) by (simp add: int_max_def)
  moreover have "req_op (ref_recv t) = RECV" for t by (simp add: ref_recv_def)
  ultimately have "held_for (\<lambda>q. q) ps c s' = {#essence (ref_recv 3), essence (ref_recv 4)#} + held_for (\<lambda>q. q) (replicate 2 Idle) c s"
    by (simp add: toward_def as_op_def)
  then show ?thesis using s(1) h by blast
qed

end
