(* ===== verification/LCW_Bench.thy ===== *)
theory LCW_Bench
  imports LCW_Api
begin

text \<open>
  The setup of the ping-pong benchmark \<^verbatim>\<open>src/examples/pingpong_mt.cpp\<close> and its helpers in
  \<^verbatim>\<open>src/examples/comm_exp.hpp\<close>: the configuration, tags and peers, the contents of the buffers, and
  how \<^verbatim>\<open>main\<close> spreads threads over processors and worker and progress threads over devices.
  \<^verbatim>\<open>assert\<close> is compiled in. \<^verbatim>\<open>int\<close> arithmetic that overflows is \<open>Undefined\<close>.
\<close>

unbundle bit_operations_syntax

section \<open>The configuration\<close>

record Config =
  cf_op :: op_t
  cf_ndevices :: int
  cf_nthreads :: int
  cf_min_size :: int
  cf_max_size :: int
  cf_niters :: int
  cf_test_mode :: bool
  cf_pin_thread :: bool
  cf_nprgthreads :: int
  cf_send_window :: int
  cf_recv_window :: int
  cf_compute_us :: int
  cf_compute_us_std :: int
  cf_max_progress_steps :: int

definition Config_default :: Config where
  "Config_default =
     \<lparr>cf_op = SEND, cf_ndevices = 2, cf_nthreads = 4, cf_min_size = 8, cf_max_size = 8192, cf_niters = 10,
      cf_test_mode = True, cf_pin_thread = True, cf_nprgthreads = 1, cf_send_window = 1, cf_recv_window = 1,
      cf_compute_us = 0, cf_compute_us_std = 0, cf_max_progress_steps = 1000\<rparr>"

text \<open>The value of an \<^verbatim>\<open>int\<close> expression; signed overflow has no defined result.\<close>

definition c_int :: "int \<Rightarrow> int res" where
  "c_int x = (if is_int x then Inr x else Inl Undefined)"

lemma c_int_simps [simp, res_simps]:
  "is_int x \<Longrightarrow> c_int x = Inr x" "\<not> is_int x \<Longrightarrow> c_int x = Inl Undefined"
  "c_int x = Inr y \<longleftrightarrow> is_int x \<and> y = x"
  by (auto simp: c_int_def)

definition nworkers :: "Config \<Rightarrow> int" where
  "nworkers c = cf_nthreads c - cf_nprgthreads c"

definition get_tag :: "Config \<Rightarrow> int \<Rightarrow> int \<Rightarrow> int \<Rightarrow> int res" where
  "get_tag c worker_id iter idx =
     bind_res (c_int (nworkers c)) (\<lambda>nw.
     bind_res (c_int (idx * nw)) (\<lambda>x. c_int (worker_id + x)))"

text \<open>\<open>sample\<close> is the draw from the normal distribution, already truncated to \<^verbatim>\<open>int\<close>.\<close>

definition normal_rand_get :: "int \<Rightarrow> int \<Rightarrow> int \<Rightarrow> int res" where
  "normal_rand_get mean std sample =
     bind_res (c_int (3 * std)) (\<lambda>w.
     bind_res (c_int (mean - w)) (\<lambda>lo.
     bind_res (c_int (mean + w)) (\<lambda>hi.
       let ret = (if sample < lo then lo else sample);
           ret = (if ret > hi then hi else ret)
       in Inr ret)))"

definition peer_rank :: "int \<Rightarrow> int \<Rightarrow> int" where
  "peer_rank rank nranks = (rank + nranks div 2) mod nranks"

definition is_sender :: "int \<Rightarrow> int \<Rightarrow> bool" where
  "is_sender rank nranks \<longleftrightarrow> nranks = 1 \<or> rank < nranks div 2"

section \<open>The contents of the buffers\<close>

text \<open>
  \<open>rand\<close> is \<^verbatim>\<open>rand_r\<close> of the C library: the number it returns and the next seed. The bytes of an
  \<^verbatim>\<open>unsigned int\<close> are stored in little-endian order.
\<close>

type_synonym rand_r = "32 word \<Rightarrow> int \<times> 32 word"

definition seed_byte :: "32 word \<Rightarrow> nat \<Rightarrow> 8 word" where
  "seed_byte seed i = ucast (drop_bit (8 * i) seed)"

definition write_seed :: "ptr \<Rightarrow> 32 word \<Rightarrow> mem \<Rightarrow> mem" where
  "write_seed buf seed m = (\<lambda>a. if buf \<le> a \<and> a < buf + 4 then seed_byte seed (a - buf) else m a)"

definition read_seed :: "ptr \<Rightarrow> mem \<Rightarrow> 32 word" where
  "read_seed buf m =
     ucast (m buf) OR push_bit 8 (ucast (m (buf + 1))) OR push_bit 16 (ucast (m (buf + 2))) OR
     push_bit 24 (ucast (m (buf + 3)))"

fun write_rand :: "rand_r \<Rightarrow> ptr \<Rightarrow> nat \<Rightarrow> 32 word \<Rightarrow> mem \<Rightarrow> mem" where
  "write_rand rand a 0 seed m = m"
| "write_rand rand a (Suc n) seed m =
     (let (x, seed) = rand seed in write_rand rand (Suc a) n seed (m(a := word_of_int x)))"

definition write_buffer :: "rand_r \<Rightarrow> ptr \<Rightarrow> nat \<Rightarrow> 32 word \<Rightarrow> mem \<Rightarrow> mem" where
  "write_buffer rand buf sz seed m =
     (if sz \<le> 4 then m else write_rand rand (buf + 4) (sz - 4) seed (write_seed buf seed m))"

fun check_rand :: "rand_r \<Rightarrow> ptr \<Rightarrow> nat \<Rightarrow> 32 word \<Rightarrow> mem \<Rightarrow> unit res" where
  "check_rand rand a 0 seed m = Inr ()"
| "check_rand rand a (Suc n) seed m =
     (let (expected, seed) = rand seed
      in if m a \<noteq> word_of_int expected then Inl (Abort ''check buffer failed!'')
         else check_rand rand (Suc a) n seed m)"

definition check_buffer :: "rand_r \<Rightarrow> ptr \<Rightarrow> nat \<Rightarrow> mem \<Rightarrow> unit res" where
  "check_buffer rand buf sz m =
     (if sz \<le> 4 then Inr () else check_rand rand (buf + 4) (sz - 4) (read_seed buf m) m)"

text \<open>The bytes the random part must hold, as a list.\<close>

fun rand_bytes :: "rand_r \<Rightarrow> nat \<Rightarrow> 32 word \<Rightarrow> 8 word list" where
  "rand_bytes rand 0 seed = []"
| "rand_bytes rand (Suc n) seed = (let (x, seed) = rand seed in word_of_int x # rand_bytes rand n seed)"

lemma bytes_at_Suc: "bytes_at m a (Suc n) = m a # bytes_at m (Suc a) n"
  by (simp add: bytes_at_def upt_rec [of 0 "Suc n"] map_Suc_upt [symmetric] del: upt_Suc)

lemma bytes_at_0: "bytes_at m a 0 = []"
  by (simp add: bytes_at_def)

lemma bytes_at_add: "bytes_at m a (k + n) = bytes_at m a k @ bytes_at m (a + k) n"
  by (induction k arbitrary: a) (simp_all add: bytes_at_Suc bytes_at_0)

lemma check_rand_iff: "check_rand rand a n seed m = Inr () \<longleftrightarrow> bytes_at m a n = rand_bytes rand n seed"
  by (induction n arbitrary: a seed) (auto simp: bytes_at_Suc bytes_at_0 split: prod.splits)

lemma write_rand_below: "x < a \<Longrightarrow> write_rand rand a n seed m x = m x"
  by (induction n arbitrary: a seed m) (auto split: prod.splits)

lemma write_rand_bytes: "bytes_at (write_rand rand a n seed m) a n = rand_bytes rand n seed"
  by (induction n arbitrary: a seed m) (auto simp: bytes_at_Suc bytes_at_0 write_rand_below split: prod.splits)

lemma write_buffer_bytes:
  assumes "4 < n"
  shows "bytes_at (write_buffer rand buf n seed m) buf n = map (seed_byte seed) [0..<4] @ rand_bytes rand (n - 4) seed"
proof -
  have "bytes_at (write_buffer rand buf n seed m) buf (4 + (n - 4)) =
      bytes_at (write_buffer rand buf n seed m) buf 4 @ rand_bytes rand (n - 4) seed"
    unfolding bytes_at_add using assms by (simp add: write_buffer_def write_rand_bytes)
  moreover have "bytes_at (write_buffer rand buf n seed m) buf 4 = map (seed_byte seed) [0..<4]"
    using assms by (simp add: write_buffer_def bytes_at_def write_rand_below write_seed_def)
  ultimately show ?thesis using assms by simp
qed

lemma seed_bytes_roundtrip:
  "ucast (seed_byte seed 0) OR push_bit 8 (ucast (seed_byte seed 1)) OR push_bit 16 (ucast (seed_byte seed 2)) OR
   push_bit 24 (ucast (seed_byte seed 3)) = seed" (is "?w = _")
proof (rule bit_word_eqI)
  fix n assume "n < LENGTH(32)"
  then consider "n < 8" | "8 \<le> n" "n < 16" | "16 \<le> n" "n < 24" | "24 \<le> n" "n < 32" by fastforce
  then show "bit ?w n \<longleftrightarrow> bit seed n" by cases (auto simp: seed_byte_def bit_simps)
qed

lemma read_seed_bytes:
  "bytes_at m buf 4 = map (seed_byte seed) [0..<4] \<Longrightarrow> read_seed buf m = seed"
  using seed_bytes_roundtrip [of seed] by (simp add: bytes_at_def read_seed_def numeral_eq_Suc)

lemma seed_byte_read_seed: "i < 4 \<Longrightarrow> seed_byte (read_seed buf m) i = m (buf + i)"
proof -
  assume "i < 4"
  have far: "\<not> bit b k" if "8 \<le> k" for b :: "8 word" and k using that bit_imp_le_length [of b k] by auto
  from \<open>i < 4\<close> consider "i = 0" | "i = 1" | "i = 2" | "i = 3" by linarith
  then show ?thesis
    by cases (auto intro!: bit_word_eqI simp: seed_byte_def read_seed_def bit_simps far)
qed

lemma check_buffer_iff:
  assumes "4 < n"
  shows "check_buffer rand buf n m = Inr () \<longleftrightarrow>
    bytes_at m buf n = map (seed_byte (read_seed buf m)) [0..<4] @ rand_bytes rand (n - 4) (read_seed buf m)"
proof -
  have "bytes_at m buf 4 = map (seed_byte (read_seed buf m)) [0..<4]"
    by (simp add: bytes_at_def seed_byte_read_seed)
  then show ?thesis using assms bytes_at_add [of m buf 4 "n - 4"] by (simp add: check_buffer_def check_rand_iff)
qed

lemma check_buffer_received:
  assumes "bytes_at m' buf' n = bytes_at (write_buffer rand buf n seed m) buf n"
  shows "check_buffer rand buf' n m' = Inr ()"
proof (cases "4 < n")
  case True
  have b: "bytes_at m' buf' n = map (seed_byte seed) [0..<4] @ rand_bytes rand (n - 4) seed"
    using assms write_buffer_bytes [OF True] by simp
  then have "bytes_at m' buf' 4 = map (seed_byte seed) [0..<4]"
    using True bytes_at_add [of m' buf' 4 "n - 4"] by (simp add: append_eq_append_conv)
  then have "read_seed buf' m' = seed" by (rule read_seed_bytes)
  then show ?thesis using b check_buffer_iff [OF True] by simp
qed (simp add: check_buffer_def)

section \<open>Threads and devices\<close>

text \<open>
  Worker threads are spread over the devices in blocks of \<open>nworkers_per_device\<close>. The quotient is
  computed in \<^verbatim>\<open>size_t\<close> and converted to \<^verbatim>\<open>int\<close>; \<open>n\<close> is \<^verbatim>\<open>devices.size()\<close>. No division has a
  negative operand.
\<close>

definition nworkers_per_device :: "Config \<Rightarrow> int \<Rightarrow> int res" where
  "nworkers_per_device c n =
     bind_res (c_int (nworkers c)) (\<lambda>nw.
     if n = 0 then Inl Undefined else Inr (to_int (to_size (to_size nw + n - 1) div n)))"

definition worker_device_idx :: "Config \<Rightarrow> int \<Rightarrow> int \<Rightarrow> int res" where
  "worker_device_idx c n worker_id =
     bind_res (lcw_assert (n = to_size (cf_ndevices c)) ''devices.size() == config.ndevices'') (\<lambda>_.
     bind_res (nworkers_per_device c n) (\<lambda>k.
     if k = 0 then Inl Undefined
     else bind_res (lcw_assert (n > to_size (worker_id div k)) ''devices.size() > device_idx'') (\<lambda>_.
          Inr (worker_id div k))))"

definition allocates_device :: "Config \<Rightarrow> int \<Rightarrow> int \<Rightarrow> bool res" where
  "allocates_device c n worker_id = bind_res (nworkers_per_device c n) (\<lambda>k.
     if k = 0 then Inl Undefined else Inr (worker_id mod k = 0))"

text \<open>The devices one round of a progress thread visits.\<close>

definition ndevices_per_prgthread :: "Config \<Rightarrow> int \<Rightarrow> int res" where
  "ndevices_per_prgthread c n =
     (if cf_nprgthreads c = 0 then Inl Undefined
      else Inr (to_int (to_size (n + to_size (cf_nprgthreads c) - 1) div to_size (cf_nprgthreads c))))"

definition progress_devices :: "Config \<Rightarrow> int \<Rightarrow> int \<Rightarrow> int list res" where
  "progress_devices c n progress_id =
     bind_res (lcw_assert (to_size (cf_nprgthreads c) \<le> n) ''config.nprgthreads <= devices.size()'') (\<lambda>_.
     bind_res (ndevices_per_prgthread c n) (\<lambda>k.
     Inr (takeWhile (\<lambda>d. d < n) (map (\<lambda>i. progress_id * k + i) [0..k - 1]))))"

text \<open>
  \<^verbatim>\<open>main\<close> creates the threads: each thread gets the next identifier of its kind and, when pinned, the
  processor \<open>i mod NPROCESSORS\<close>. A single thread is the main thread itself.
\<close>

record pools =
  worker_pool :: "(nat \<times> nat option) list"
  progress_pool :: "(nat \<times> nat option) list"

definition nthreads_per_prg :: "Config \<Rightarrow> int" where
  "nthreads_per_prg c = (if cf_nprgthreads c \<noteq> 0 then cf_nthreads c div cf_nprgthreads c else 0)"

definition spawn_thread :: "Config \<Rightarrow> nat \<Rightarrow> nat \<Rightarrow> pools \<Rightarrow> pools" where
  "spawn_thread c nprocessors i p =
     (let core = (if cf_pin_thread c then Some (i mod nprocessors) else None)
      in if cf_nprgthreads c > 0 \<and> int i mod nthreads_per_prg c = 0
         then p\<lparr>progress_pool := progress_pool p @ [(length (progress_pool p), core)]\<rparr>
         else p\<lparr>worker_pool := worker_pool p @ [(length (worker_pool p), core)]\<rparr>)"

definition main_asserts :: "Config \<Rightarrow> unit res" where
  "main_asserts c =
     bind_res (lcw_assert (cf_nthreads c > cf_nprgthreads c) ''config.nthreads > config.nprgthreads'') (\<lambda>_.
     bind_res (lcw_assert (cf_nthreads c > 0) ''config.nthreads > 0'') (\<lambda>_.
     lcw_assert (cf_nprgthreads c \<ge> 0) ''config.nprgthreads >= 0''))"

definition spawn_threads :: "Config \<Rightarrow> nat \<Rightarrow> pools res" where
  "spawn_threads c nprocessors =
     bind_res (main_asserts c) (\<lambda>_.
     if cf_nthreads c = 1 then Inr \<lparr>worker_pool = [(0, None)], progress_pool = []\<rparr>
     else Inr (fold (spawn_thread c nprocessors) [0..<nat (cf_nthreads c)] \<lparr>worker_pool = [], progress_pool = []\<rparr>))"

text \<open>The size of the two barriers.\<close>

definition tbarrier_all_size :: "Config \<Rightarrow> int" where
  "tbarrier_all_size c = cf_nthreads c"

definition tbarrier_worker_size :: "Config \<Rightarrow> int" where
  "tbarrier_worker_size c = cf_nthreads c - cf_nprgthreads c"

section \<open>Properties\<close>

lemma get_tag_eq: "get_tag c w i idx = Inr t \<Longrightarrow> t = w + idx * nworkers c"
  by (auto simp: get_tag_def elim!: bind_resE)

text \<open>Tags identify the worker and the position in the window: when two calls of \<^verbatim>\<open>get_tag\<close> for worker
  threads of the process return the same tag, they were made for the same worker and the same index.
  Every tag of a window that fits \<^verbatim>\<open>int\<close> is defined.\<close>

theorem tags_identify_messages:
  assumes "is_int (nworkers c)" and w: "0 \<le> w" "w < nworkers c" and w': "0 \<le> w'" "w' < nworkers c"
    and idx: "0 \<le> idx" "(idx + 1) * nworkers c \<le> int_max"
  shows "\<exists>t. get_tag c w i idx = Inr t \<and> (get_tag c w' i' idx' = Inr t \<longrightarrow> w' = w \<and> idx' = idx)"
proof -
  have "0 \<le> idx * nworkers c" using w idx by simp
  moreover have "idx * nworkers c + w \<le> int_max" using w idx(2) by (simp add: algebra_simps)
  ultimately have "get_tag c w i idx = Inr (w + idx * nworkers c)"
    using assms(1) w by (simp add: get_tag_def is_int_def int_max_def)
  moreover have "w' = w \<and> idx' = idx" if "w' + idx' * nworkers c = w + idx * nworkers c"
  proof -
    have "w' = (w' + idx' * nworkers c) mod nworkers c" "w = (w + idx * nworkers c) mod nworkers c" using w w' by simp_all
    then have "w' = w" using that by simp
    then show ?thesis using that w by simp
  qed
  ultimately show ?thesis by (auto dest!: get_tag_eq)
qed

theorem tags_identify_messages_witness:
  "\<exists>t. get_tag (Config_default\<lparr>cf_send_window := 2\<rparr>) 2 0 1 = Inr t \<and>
     (get_tag (Config_default\<lparr>cf_send_window := 2\<rparr>) 1 5 0 = Inr t \<longrightarrow> (1::int) = 2 \<and> (0::int) = 1)"
  by (rule tags_identify_messages) (simp_all add: nworkers_def Config_default_def is_int_def int_max_def)

text \<open>The ranks pair up: the peer of the peer of every rank is the rank itself and one of the two is the
  sender, exactly when the number of ranks is even.\<close>

theorem peers_pair_up_iff_even:
  assumes "1 < nranks"
  shows "(\<forall>rank. 0 \<le> rank \<and> rank < nranks \<longrightarrow> peer_rank (peer_rank rank nranks) nranks = rank \<and>
      is_sender (peer_rank rank nranks) nranks = (\<not> is_sender rank nranks)) \<longleftrightarrow> even nranks"
proof
  assume L: "\<forall>rank. 0 \<le> rank \<and> rank < nranks \<longrightarrow> peer_rank (peer_rank rank nranks) nranks = rank \<and>
      is_sender (peer_rank rank nranks) nranks = (\<not> is_sender rank nranks)"
  have h: "nranks div 2 < nranks" "0 \<le> nranks div 2" using assms by simp_all
  have "(nranks div 2 + nranks div 2) mod nranks = 0" using L [rule_format, of 0] assms h by (simp add: peer_rank_def)
  then have z: "(nranks div 2 + nranks div 2) mod nranks = 0" .
  have nz: "nranks div 2 \<noteq> 0" using assms by presburger
  show "even nranks"
  proof (rule ccontr)
    assume "odd nranks"
    then have "nranks div 2 + nranks div 2 < nranks" by presburger
    then have "(nranks div 2 + nranks div 2) mod nranks = nranks div 2 + nranks div 2"
      using h(2) by (intro mod_pos_pos_trivial) simp_all
    then show False using z nz by linarith
  qed
next
  assume "even nranks"
  then obtain k where k: "nranks = 2 * k" by blast
  have "peer_rank rank nranks = (if rank < k then rank + k else rank - k)" if "0 \<le> rank" "rank < 2 * k" for rank
  proof (cases "rank < k")
    case False
    then have "rank - k = (rank + k - 2 * k) mod (2 * k)" using that by simp
    also have "\<dots> = (rank + k) mod (2 * k)" by (rule minus_mod_self2)
    finally show ?thesis using False by (simp add: peer_rank_def k)
  qed (use that in \<open>simp add: peer_rank_def k\<close>)
  then show "\<forall>rank. 0 \<le> rank \<and> rank < nranks \<longrightarrow> peer_rank (peer_rank rank nranks) nranks = rank \<and>
      is_sender (peer_rank rank nranks) nranks = (\<not> is_sender rank nranks)"
    using assms by (auto simp: k is_sender_def)
qed

theorem peers_pair_up_iff_even_witness:
  "\<not> (\<forall>rank. 0 \<le> rank \<and> rank < 3 \<longrightarrow> peer_rank (peer_rank rank 3) 3 = rank \<and>
      is_sender (peer_rank rank 3) 3 = (\<not> is_sender rank 3))"
  using peers_pair_up_iff_even [of 3] by simp

text \<open>C32: \<^verbatim>\<open>check_buffer\<close> accepts exactly what \<^verbatim>\<open>write_buffer\<close> writes: a received buffer of more than four
  bytes passes the check if and only if its bytes are those \<^verbatim>\<open>write_buffer\<close> puts into a buffer of that
  size for some seed, whatever the generator.\<close>

theorem check_accepts_written:
  assumes "4 < n"
  shows "check_buffer rand buf' n m' = Inr () \<longleftrightarrow>
    (\<exists>seed. bytes_at m' buf' n = bytes_at (write_buffer rand buf n seed m) buf n)"
  using check_buffer_iff [OF assms] write_buffer_bytes [OF assms] check_buffer_received by metis

theorem check_accepts_written_witness:
  "check_buffer (\<lambda>s. (uint s, s + 1)) 100 6 ((\<lambda>_. 0)(104 := 0, 105 := 1)) = Inr () \<longleftrightarrow>
   (\<exists>seed. bytes_at ((\<lambda>_. 0)(104 := 0, 105 := 1)) 100 6 =
     bytes_at (write_buffer (\<lambda>s. (uint s, s + 1)) 8 6 seed (\<lambda>_. 7)) 8 6)"
  by (rule check_accepts_written) simp

end
