(* ===== verification/LCW_Spread.thy ===== *)
theory LCW_Spread
  imports LCW_Bench
begin

text \<open>
  How the benchmark spreads its worker threads over the devices, the devices over the progress threads,
  and which threads \<^verbatim>\<open>main\<close> creates: the arithmetic of \<^verbatim>\<open>src/examples/pingpong_mt.cpp\<close>.
\<close>

section \<open>Spreading threads over devices\<close>

lemma ceil_div_bounds:
  fixes n k :: int
  assumes "0 < k" "0 < n"
  shows "0 < (n + k - 1) div k" "n \<le> (n + k - 1) div k * k" "(n + k - 1) div k \<le> n"
proof -
  let ?q = "(n + k - 1) div k"
  have e: "?q * k + (n + k - 1) mod k = n + k - 1" by (rule div_mult_mod_eq)
  have m: "0 \<le> (n + k - 1) mod k" "(n + k - 1) mod k < k" using assms by simp_all
  show b: "n \<le> ?q * k" using e m by linarith
  show "0 < ?q" using b assms by (metis less_le_trans zero_less_mult_pos2)
  have "?q * k \<le> n * k"
  proof -
    have "n + k - 1 \<le> n * k"
    proof -
      have "0 \<le> (n - 1) * (k - 1)" using assms by simp
      then show ?thesis by (simp add: algebra_simps)
    qed
    then show ?thesis using e m by linarith
  qed
  then show "?q \<le> n" using assms by simp
qed

lemma nworkers_per_device_eq:
  assumes "0 < nworkers c" "is_int (nworkers c)" "0 < n" "is_int n"
  shows "nworkers_per_device c n = Inr ((nworkers c + n - 1) div n)"
proof -
  have "is_int ((nworkers c + n - 1) div n)"
    using ceil_div_bounds(1,3) [of n "nworkers c"] assms by (simp add: is_int_def)
  moreover have "to_size (nworkers c) = nworkers c" "to_size (nworkers c + n - 1) = nworkers c + n - 1"
    using assms by (simp_all add: is_int_def)
  ultimately show ?thesis using assms by (simp add: nworkers_per_device_def)
qed

text \<open>Blocks of \<open>k\<close> consecutive workers share a device.\<close>

lemma block_start_le: "0 < (k::int) \<Longrightarrow> w div k * k \<le> w"
  using div_mult_mod_eq [of w k] pos_mod_sign [of k w] by linarith

lemma worker_device_idx_eq:
  assumes npd: "nworkers_per_device c n = Inr k" and k: "0 < k" "nworkers c \<le> k * n"
    and n: "n = cf_ndevices c" "0 < n" "is_int n" and w: "0 \<le> w" "w < nworkers c"
  shows "worker_device_idx c n w = Inr (w div k) \<and> 0 \<le> w div k \<and> w div k < n"
proof -
  have lt: "w div k < n"
  proof (rule ccontr)
    assume "\<not> w div k < n"
    then have "n * k \<le> w div k * k" using k by (intro mult_right_mono) simp_all
    then have "n * k \<le> w" using block_start_le [OF k(1), of w] by linarith
    then show False using w k(2) by (simp only: mult.commute [of k n])
  qed
  moreover have ge: "0 \<le> w div k" using w k by (simp add: pos_imp_zdiv_nonneg_iff)
  ultimately have "to_size (w div k) = w div k" "to_size n = n" using n by (simp_all add: is_int_def)
  then show ?thesis using k npd n lt ge by (simp add: worker_device_idx_def)
qed

lemma allocates_device_eq:
  assumes "nworkers_per_device c n = Inr k" and "0 < k"
  shows "allocates_device c n w = Inr True \<longleftrightarrow> w = w div k * k"
proof -
  have "w div k * k + w mod k = w" by (rule div_mult_mod_eq)
  then have "w mod k = 0 \<longleftrightarrow> w = w div k * k" by linarith
  then show ?thesis using assms by (simp add: allocates_device_def)
qed

text \<open>C35: The workers are spread over the devices in blocks of \<^verbatim>\<open>nworkers_per_device\<close>: every worker gets a
  device (no assertion fails), the first worker of a block allocates it, and every device has a
  worker exactly when the blocks before the last device leave one over.\<close>

theorem workers_spread_over_devices:
  assumes "0 < nworkers c" "is_int (nworkers c)" and n: "n = cf_ndevices c" "0 < n" "is_int n"
  shows "\<exists>k>0. nworkers_per_device c n = Inr k \<and>
    (\<forall>w. 0 \<le> w \<and> w < nworkers c \<longrightarrow>
       (\<exists>d. worker_device_idx c n w = Inr d \<and> 0 \<le> d \<and> d < n \<and> (allocates_device c n w = Inr True \<longleftrightarrow> w = d * k))) \<and>
    ((\<forall>d. 0 \<le> d \<and> d < n \<longrightarrow> (\<exists>w. 0 \<le> w \<and> w < nworkers c \<and> worker_device_idx c n w = Inr d)) \<longleftrightarrow>
     (n - 1) * k < nworkers c)"
proof -
  define k where "k = (nworkers c + n - 1) div n"
  have npd: "nworkers_per_device c n = Inr k" unfolding k_def using assms by (intro nworkers_per_device_eq) simp_all
  have k: "0 < k" "nworkers c \<le> k * n" unfolding k_def using ceil_div_bounds(1,2) [of n "nworkers c"] assms by simp_all
  note idx = worker_device_idx_eq [OF npd k n] and alloc = allocates_device_eq [OF npd k(1)]
  have "(\<forall>d. 0 \<le> d \<and> d < n \<longrightarrow> (\<exists>w. 0 \<le> w \<and> w < nworkers c \<and> worker_device_idx c n w = Inr d)) \<longleftrightarrow> (n - 1) * k < nworkers c"
  proof
    assume "\<forall>d. 0 \<le> d \<and> d < n \<longrightarrow> (\<exists>w. 0 \<le> w \<and> w < nworkers c \<and> worker_device_idx c n w = Inr d)"
    then obtain w where w: "0 \<le> w" "w < nworkers c" "w div k = n - 1" using n idx by (metis diff_add_cancel Inr_inject less_add_one zle_diff1_eq)
    have "w div k * k \<le> w" by (rule block_start_le [OF k(1)])
    then show "(n - 1) * k < nworkers c" using w by simp
  next
    assume last: "(n - 1) * k < nworkers c"
    show "\<forall>d. 0 \<le> d \<and> d < n \<longrightarrow> (\<exists>w. 0 \<le> w \<and> w < nworkers c \<and> worker_device_idx c n w = Inr d)"
    proof (intro allI impI)
      fix d assume d: "0 \<le> d \<and> d < n"
      then have "d * k \<le> (n - 1) * k" using k by (intro mult_right_mono) simp_all
      then have "d * k < nworkers c" using last by linarith
      then have "0 \<le> d * k \<and> d * k < nworkers c" using d k by simp
      then show "\<exists>w. 0 \<le> w \<and> w < nworkers c \<and> worker_device_idx c n w = Inr d"
        using idx [of "d * k"] k by (intro exI [of _ "d * k"]) simp
    qed
  qed
  then show ?thesis using k npd idx alloc by (intro exI [of _ k]) auto
qed

theorem workers_spread_over_devices_witness:
  "\<exists>k>0. nworkers_per_device (Config_default\<lparr>cf_nthreads := 5, cf_ndevices := 3\<rparr>) 3 = Inr k \<and>
    (\<forall>w. 0 \<le> w \<and> w < nworkers (Config_default\<lparr>cf_nthreads := 5, cf_ndevices := 3\<rparr>) \<longrightarrow>
       (\<exists>d. worker_device_idx (Config_default\<lparr>cf_nthreads := 5, cf_ndevices := 3\<rparr>) 3 w = Inr d \<and> 0 \<le> d \<and> d < 3 \<and>
          (allocates_device (Config_default\<lparr>cf_nthreads := 5, cf_ndevices := 3\<rparr>) 3 w = Inr True \<longleftrightarrow> w = d * k))) \<and>
    ((\<forall>d. 0 \<le> d \<and> d < 3 \<longrightarrow> (\<exists>w. 0 \<le> w \<and> w < nworkers (Config_default\<lparr>cf_nthreads := 5, cf_ndevices := 3\<rparr>) \<and>
        worker_device_idx (Config_default\<lparr>cf_nthreads := 5, cf_ndevices := 3\<rparr>) 3 w = Inr d)) \<longleftrightarrow>
     (3 - 1) * k < nworkers (Config_default\<lparr>cf_nthreads := 5, cf_ndevices := 3\<rparr>))"
  by (rule workers_spread_over_devices) (simp_all add: nworkers_def Config_default_def is_int_def)

section \<open>Spreading devices over progress threads\<close>

lemma takeWhile_upto: "takeWhile (\<lambda>d. d < n) [a..b] = [a..min b (n - 1)]"
proof (induction a b rule: upto.induct)
  case (1 a b)
  show ?case
  proof (cases "a \<le> b")
    case True
    then show ?thesis using 1 upto_rec1 [of a b] upto_rec1 [of a "min b (n - 1)"] by (cases "a < n") simp_all
  qed simp
qed

lemma map_add_upto: "map (\<lambda>i. a + i) [l..u] = [a + l..a + (u::int)]"
proof (induction l u rule: upto.induct)
  case (1 l u)
  then show ?case using upto_rec1 [of l u] upto_rec1 [of "a + l" "a + u"]
    by (cases "l \<le> u") (simp_all add: add.assoc)
qed

definition visited_devices :: "Config \<Rightarrow> int \<Rightarrow> int \<Rightarrow> int list" where
  "visited_devices c n progress_id = (case progress_devices c n progress_id of Inl _ \<Rightarrow> [] | Inr ds \<Rightarrow> ds)"

lemma progress_devices_eq:
  assumes "0 < cf_nprgthreads c" "cf_nprgthreads c \<le> n" "is_int n" and k: "k = (n + cf_nprgthreads c - 1) div cf_nprgthreads c"
  shows "progress_devices c n t = Inr [t * k..min (t * k + k) n - 1]"
proof -
  have z: "to_size (cf_nprgthreads c) = cf_nprgthreads c" "to_size (n + cf_nprgthreads c - 1) = n + cf_nprgthreads c - 1"
    using assms by (simp_all add: is_int_def)
  have "is_int k" using ceil_div_bounds(1,3) [of "cf_nprgthreads c" n] assms by (simp add: is_int_def)
  then have "ndevices_per_prgthread c n = Inr k" using assms z by (simp add: ndevices_per_prgthread_def)
  then have "progress_devices c n t = Inr (takeWhile (\<lambda>d. d < n) [t * k + 0..t * k + (k - 1)])"
    using assms z unfolding progress_devices_def map_add_upto by simp
  then show ?thesis unfolding takeWhile_upto by (simp add: min_diff_distrib_left add_diff_eq)
qed

lemma concat_blocks:
  fixes k n :: int
  assumes "0 < k" "0 \<le> n"
  shows "concat (map (\<lambda>t. [t * k..min (t * k + k) n - 1]) [0..int j - 1]) = [0..min (int j * k) n - 1]"
proof (induction j)
  case (Suc j)
  have u: "[0..int (Suc j) - 1] = [0..int j - 1] @ [int j]" using upto_rec2 [of 0 "int j"] by simp
  have "[0..min (int j * k) n - 1] @ [int j * k..min (int j * k + k) n - 1] = [0..min (int j * k + k) n - 1]"
  proof (cases "int j * k < n")
    case True
    then have "0 \<le> int j * k" "int j * k \<le> min (int j * k + k) n - 1" using assms by simp_all
    then show ?thesis using True upto_split1 [of 0 "int j * k" "min (int j * k + k) n - 1"] by (simp add: min_def)
  qed (use assms in simp)
  then show ?case unfolding u using Suc.IH by (simp add: algebra_simps)
qed (use assms in simp)

text \<open>The progress threads share the devices out: the devices visited in one round of the progress
  threads, one thread after the other, are all devices, each exactly once (as long as there are not
  more progress threads than devices, which the code asserts).\<close>

theorem progress_threads_share_devices:
  assumes "0 < cf_nprgthreads c" "cf_nprgthreads c \<le> n" "is_int n"
  shows "concat (map (visited_devices c n) [0..cf_nprgthreads c - 1]) = [0..n - 1] \<and>
    (\<forall>t. \<exists>ds. progress_devices c n t = Inr ds)"
proof -
  define k where "k = (n + cf_nprgthreads c - 1) div cf_nprgthreads c"
  have k: "0 < k" "n \<le> k * cf_nprgthreads c"
    unfolding k_def using ceil_div_bounds(1,2) [of "cf_nprgthreads c" n] assms by simp_all
  note v = progress_devices_eq [OF assms k_def]
  have vd: "visited_devices c n = (\<lambda>t. [t * k..min (t * k + k) n - 1])" by (rule ext) (simp add: visited_devices_def v)
  have "concat (map (visited_devices c n) [0..cf_nprgthreads c - 1]) =
      concat (map (\<lambda>t. [t * k..min (t * k + k) n - 1]) [0..int (nat (cf_nprgthreads c)) - 1])"
    using assms(1) vd by simp
  also have "\<dots> = [0..min (cf_nprgthreads c * k) n - 1]"
    using concat_blocks [of k n "nat (cf_nprgthreads c)"] k assms by simp
  also have "\<dots> = [0..n - 1]" using k by (simp add: mult.commute)
  finally show ?thesis using v by blast
qed

theorem progress_threads_share_devices_witness:
  "concat (map (visited_devices (Config_default\<lparr>cf_nprgthreads := 3\<rparr>) 7) [0..cf_nprgthreads (Config_default\<lparr>cf_nprgthreads := 3\<rparr>) - 1])
     = [0..7 - 1] \<and> (\<forall>t. \<exists>ds. progress_devices (Config_default\<lparr>cf_nprgthreads := 3\<rparr>) 7 t = Inr ds)"
  by (rule progress_threads_share_devices) (simp_all add: Config_default_def is_int_def)

section \<open>The threads that \<open>main\<close> creates\<close>

lemma ceil_div_dvd: "0 < (q::nat) \<Longrightarrow> (j + q - 1) div q = (if q dvd j then j div q else Suc (j div q))"
proof -
  assume q: "0 < q"
  have e: "j = j div q * q + j mod q" by simp
  show ?thesis
  proof (cases "q dvd j")
    case True
    then have "j + q - 1 = q - 1 + j div q * q" using q by simp
    then have "(j + q - 1) div q = (q - 1) div q + j div q" using q by (simp only: div_mult_self1)
    then show ?thesis using True q by simp
  next
    case False
    then have m: "0 < j mod q" using mod_greater_zero_iff_not_dvd by blast
    have "j + q - 1 = (j mod q - 1) + Suc (j div q) * q" using e m by simp
    then have "(j + q - 1) div q = (j mod q - 1) div q + Suc (j div q)" using q by (simp only: div_mult_self1)
    moreover have "j mod q - 1 < q" using q by (meson less_imp_diff_less mod_less_divisor)
    ultimately show ?thesis using False by simp
  qed
qed

lemma spawned_upto:
  fixes c :: Config and np :: nat
  assumes "0 < cf_nprgthreads c" and q: "nthreads_per_prg c = int q" "0 < q"
  defines "p j \<equiv> fold (spawn_thread c np) [0..<j] \<lparr>worker_pool = [], progress_pool = []\<rparr>"
  shows "length (progress_pool (p j)) = (j + q - 1) div q \<and> length (worker_pool (p j)) + (j + q - 1) div q = j \<and>
    map fst (progress_pool (p j)) = [0..<length (progress_pool (p j))] \<and>
    map fst (worker_pool (p j)) = [0..<length (worker_pool (p j))]"
proof (induction j)
  case 0
  then show ?case using q by (simp add: p_def)
next
  case (Suc j)
  have p: "p (Suc j) = spawn_thread c np j (p j)" by (simp add: p_def)
  have m: "int j mod int q = 0 \<longleftrightarrow> q dvd j" by (metis of_nat_dvd_iff dvd_eq_mod_eq_0)
  have "(Suc j + q - 1) div q = j div q + 1" using q(2) by (simp add: div_add_self2)
  then have c: "(Suc j + q - 1) div q = (j + q - 1) div q + (if q dvd j then 1 else 0)"
    using ceil_div_dvd [OF q(2), of j] by simp
  show ?case unfolding p c using Suc.IH assms(1) by (auto simp: spawn_thread_def Let_def q m)
qed

text \<open>C36: The benchmark starts as many workers as its worker barrier waits for exactly when the number of
  progress threads divides the number of threads; otherwise it starts more progress threads than
  configured, fewer workers, and the workers wait at the barrier for ever. In every case the threads
  add up and are numbered without gaps.\<close>

theorem spawned_workers_meet_barrier:
  assumes "spawn_threads c np = Inr p" and "0 < cf_nprgthreads c"
  shows "int (length (worker_pool p)) + int (length (progress_pool p)) = tbarrier_all_size c \<and>
    int (length (worker_pool p)) \<le> tbarrier_worker_size c \<and>
    (int (length (worker_pool p)) = tbarrier_worker_size c \<longleftrightarrow> cf_nprgthreads c dvd cf_nthreads c) \<and>
    map fst (progress_pool p) = [0..<length (progress_pool p)] \<and> map fst (worker_pool p) = [0..<length (worker_pool p)]"
proof -
  define n where "n = nat (cf_nthreads c)"
  define g where "g = nat (cf_nprgthreads c)"
  define q where "q = n div g"
  have a: "cf_nprgthreads c < cf_nthreads c" using assms(1) by (auto simp: spawn_threads_def main_asserts_def elim!: bind_resE)
  then have p: "p = fold (spawn_thread c np) [0..<n] \<lparr>worker_pool = [], progress_pool = []\<rparr>"
    using assms by (auto simp: spawn_threads_def n_def elim!: bind_resE split: if_splits)
  have ng: "cf_nthreads c = int n" "cf_nprgthreads c = int g" "0 < g" "g < n" using a assms(2) by (simp_all add: n_def g_def)
  then have q: "nthreads_per_prg c = int q" "0 < q" by (simp_all add: nthreads_per_prg_def q_def zdiv_int div_greater_zero_iff)
  note sp = spawned_upto [OF assms(2) q, of np n, folded p]
  have qn: "q * g \<le> n" by (simp add: q_def)
  have nc: "n \<le> (n + q - 1) div q * q"
    using ceil_div_dvd [OF q(2), of n] dividend_less_div_times [OF q(2), of n] by (auto split: if_splits)
  have "g * q \<le> (n + q - 1) div q * q" using qn nc by (simp only: mult.commute [of g q] le_trans [OF qn nc])
  then have "g \<le> (n + q - 1) div q" using q(2) mult_le_cancel2 by blast
  moreover have "(n + q - 1) div q = g \<longleftrightarrow> g dvd n"
  proof
    assume "(n + q - 1) div q = g"
    then have "n = q * g" using nc qn by (simp add: mult.commute)
    then show "g dvd n" by simp
  next
    assume "g dvd n"
    then have "n = g * q" by (simp add: q_def)
    then show "(n + q - 1) div q = g" using ceil_div_dvd [OF q(2), of n] q(2) by simp
  qed
  ultimately show ?thesis using sp ng qn by (auto simp: tbarrier_all_size_def tbarrier_worker_size_def)
qed

theorem spawned_workers_meet_barrier_witness:
  "\<exists>p. spawn_threads (Config_default\<lparr>cf_nthreads := 5, cf_nprgthreads := 2\<rparr>) 4 = Inr p \<and>
     int (length (worker_pool p)) < tbarrier_worker_size (Config_default\<lparr>cf_nthreads := 5, cf_nprgthreads := 2\<rparr>)"
proof -
  let ?c = "Config_default\<lparr>cf_nthreads := 5, cf_nprgthreads := 2\<rparr>"
  obtain p where p: "spawn_threads ?c 4 = Inr p" by (simp add: spawn_threads_def main_asserts_def Config_default_def)
  have "\<not> (2::int) dvd 5" by simp
  then show ?thesis using spawned_workers_meet_barrier [OF p] p by (auto simp: Config_default_def)
qed

end
