(* ===== verification/LCW_Sequence.thy ===== *)
theory LCW_Sequence
  imports LCW_Spread
begin

text \<open>
  \<^verbatim>\<open>g_device_sequence_control\<close> of the benchmark: the threads that allocate (and later free) the devices
  take turns. One step of the relation is one access to the shared counter or one call of the
  library by one of these threads, so its runs are the interleavings of the threads. A thread is
  known by the index of its device; \<open>n\<close> is \<^verbatim>\<open>devices.size()\<close>, the threads are those with index below \<open>k\<close>.
\<close>

datatype seq_pc = Waiting | Entered | Called | Resetting | Finished

record seq_st =
  control :: int
  pc :: "nat \<Rightarrow> seq_pc"
  called :: "nat list"

definition seq_start :: "int \<Rightarrow> seq_st" where
  "seq_start g = \<lparr>control = g, pc = (\<lambda>_. Waiting), called = []\<rparr>"

inductive seq_step :: "nat \<Rightarrow> nat \<Rightarrow> seq_st \<Rightarrow> seq_st \<Rightarrow> bool" for n k where
  leave_loop: "d < k \<Longrightarrow> pc s d = Waiting \<Longrightarrow> control s = int d \<Longrightarrow> seq_step n k s (s\<lparr>pc := (pc s)(d := Entered)\<rparr>)"
| call_lcw: "d < k \<Longrightarrow> pc s d = Entered \<Longrightarrow> seq_step n k s (s\<lparr>pc := (pc s)(d := Called), called := called s @ [d]\<rparr>)"
| increment: "d < k \<Longrightarrow> pc s d = Called \<Longrightarrow>
    seq_step n k s (s\<lparr>control := control s + 1, pc := (pc s)(d := if control s + 1 = int n then Resetting else Finished)\<rparr>)"
| reset: "d < k \<Longrightarrow> pc s d = Resetting \<Longrightarrow> seq_step n k s (s\<lparr>control := 0, pc := (pc s)(d := Finished)\<rparr>)"

inductive seq_run :: "nat \<Rightarrow> nat \<Rightarrow> seq_st \<Rightarrow> nat \<Rightarrow> seq_st \<Rightarrow> bool" for n k s0 where
  none: "seq_run n k s0 0 s0"
| more: "seq_run n k s0 m s \<Longrightarrow> seq_step n k s s' \<Longrightarrow> seq_run n k s0 (Suc m) s'"

inductive_cases seq_stepE: "seq_step n k s s'"

text \<open>
  The invariant: the thread whose turn it is has index \<open>j\<close>; those below have finished, those above
  wait, and the calls made are those of the threads before it in order. \<open>steps\<close> counts the steps.
\<close>

fun turn_ok :: "nat \<Rightarrow> nat \<Rightarrow> nat \<Rightarrow> seq_pc \<Rightarrow> int \<Rightarrow> nat list \<Rightarrow> bool" where
  "turn_ok n k j Waiting g cs \<longleftrightarrow> g = (if j = n then 0 else int j) \<and> cs = [0..<j]"
| "turn_ok n k j Entered g cs \<longleftrightarrow> j < k \<and> g = int j \<and> cs = [0..<j]"
| "turn_ok n k j Called g cs \<longleftrightarrow> j < k \<and> g = int j \<and> cs = [0..<Suc j]"
| "turn_ok n k j Resetting g cs \<longleftrightarrow> j < k \<and> Suc j = n \<and> g = int n \<and> cs = [0..<Suc j]"
| "turn_ok n k j Finished g cs \<longleftrightarrow> False"

definition seq_inv :: "nat \<Rightarrow> nat \<Rightarrow> nat \<Rightarrow> seq_st \<Rightarrow> bool" where
  "seq_inv n k j s \<longleftrightarrow> j \<le> k \<and> (\<forall>d<j. pc s d = Finished) \<and> (\<forall>d>j. pc s d = Waiting) \<and> turn_ok n k j (pc s j) (control s) (called s)"

fun pc_steps :: "seq_pc \<Rightarrow> nat" where
  "pc_steps Waiting = 0"
| "pc_steps Entered = 1"
| "pc_steps Called = 2"
| "pc_steps Resetting = 3"
| "pc_steps Finished = 3"

lemma seq_inv_start: "seq_inv n k 0 (seq_start 0)"
  by (simp add: seq_inv_def seq_start_def)

lemma seq_step_turn:
  assumes "seq_inv n k j s" "k \<le> n" "seq_step n k s s'"
  shows "j < k \<and> (pc s j = Waiting \<and> control s = int j \<and> s' = s\<lparr>pc := (pc s)(j := Entered)\<rparr> \<or>
    pc s j = Entered \<and> s' = s\<lparr>pc := (pc s)(j := Called), called := called s @ [j]\<rparr> \<or>
    pc s j = Called \<and> s' = s\<lparr>control := control s + 1, pc := (pc s)(j := if control s + 1 = int n then Resetting else Finished)\<rparr> \<or>
    pc s j = Resetting \<and> s' = s\<lparr>control := 0, pc := (pc s)(j := Finished)\<rparr>)"
proof -
  have turn: "d = j" if "pc s d \<noteq> Finished" "pc s d \<noteq> Waiting" for d
    using assms(1) that unfolding seq_inv_def by (metis linorder_neqE_nat)
  have wait: "d = j" if d: "d < k" "pc s d = Waiting" "control s = int d" for d
  proof (rule ccontr)
    assume "d \<noteq> j"
    then have "j < d" using assms(1) d(2) unfolding seq_inv_def by (metis linorder_neqE_nat seq_pc.distinct(7))
    then show False using assms d unfolding seq_inv_def by (cases "pc s j") auto
  qed
  from assms(3) show ?thesis
  proof (cases rule: seq_step.cases)
    case (leave_loop d)
    moreover from this have "d = j" by (intro wait)
    ultimately show ?thesis by simp
  next
    case (call_lcw d)
    moreover from this have "d = j" by (intro turn) simp_all
    ultimately show ?thesis by simp
  next
    case (increment d)
    moreover from this have "d = j" by (intro turn) simp_all
    ultimately show ?thesis by simp
  next
    case (reset d)
    moreover from this have "d = j" by (intro turn) simp_all
    ultimately show ?thesis by simp
  qed
qed

lemma seq_step_inv:
  assumes "seq_inv n k j s" "k \<le> n" "seq_step n k s s'"
  shows "\<exists>j'. seq_inv n k j' s' \<and> 4 * j + pc_steps (pc s j) < 4 * j' + pc_steps (pc s' j')"
proof -
  note T = seq_step_turn [OF assms]
  have below: "\<And>d. d < j \<Longrightarrow> pc s d = Finished" and above: "\<And>d. j < d \<Longrightarrow> pc s d = Waiting"
    and t: "turn_ok n k j (pc s j) (control s) (called s)" using assms(1) by (simp_all add: seq_inv_def)
  from T have jk: "j < k" by blast
  from T consider
      "pc s j = Waiting" "control s = int j" "s' = s\<lparr>pc := (pc s)(j := Entered)\<rparr>"
    | "pc s j = Entered" "s' = s\<lparr>pc := (pc s)(j := Called), called := called s @ [j]\<rparr>"
    | "pc s j = Called" "s' = s\<lparr>control := control s + 1, pc := (pc s)(j := if control s + 1 = int n then Resetting else Finished)\<rparr>"
    | "pc s j = Resetting" "s' = s\<lparr>control := 0, pc := (pc s)(j := Finished)\<rparr>" by blast
  then show ?thesis
  proof cases
    case 1
    then show ?thesis using t below above jk by (intro exI [of _ j]) (simp add: seq_inv_def split: if_splits)
  next
    case 2
    then show ?thesis using t below above jk by (intro exI [of _ j]) (simp add: seq_inv_def)
  next
    case 3
    show ?thesis
    proof (cases "Suc j = n")
      case True
      then show ?thesis using 3 t below above jk by (intro exI [of _ j]) (auto simp: seq_inv_def)
    next
      case False
      then show ?thesis using 3 t below above jk assms(2)
        by (intro exI [of _ "Suc j"]) (auto simp: seq_inv_def less_Suc_eq)
    qed
  next
    case 4
    then show ?thesis using t below above jk
      by (intro exI [of _ "Suc j"]) (auto simp: seq_inv_def less_Suc_eq)
  qed
qed

lemma seq_run_inv:
  "seq_run n k (seq_start 0) m s \<Longrightarrow> k \<le> n \<Longrightarrow> \<exists>j. seq_inv n k j s \<and> m \<le> 4 * j + pc_steps (pc s j)"
proof (induction rule: seq_run.induct)
  case none
  then show ?case using seq_inv_start by fastforce
next
  case (more m s s')
  then obtain j where "seq_inv n k j s" "m \<le> 4 * j + pc_steps (pc s j)" by blast
  then show ?case using seq_step_inv [OF _ more.prems more.hyps(2)] by (meson Suc_leI le_trans less_le_trans not_less_eq_eq)
qed

lemma seq_inv_enabled:
  assumes "seq_inv n k j s" "k \<le> n" "j < k"
  shows "\<exists>s'. seq_step n k s s'"
  using assms seq_step.intros [of j k s n] by (cases "pc s j") (auto simp: seq_inv_def)

lemma seq_inv_done:
  assumes "seq_inv n k k s"
  shows "\<forall>d<k. pc s d = Finished" "called s = [0..<k]" "control s = (if k = n then 0 else int k)"
  using assms by (cases "pc s k"; simp add: seq_inv_def)+

lemma seq_inv_called: "seq_inv n k j s \<Longrightarrow> called s = [0..<length (called s)] \<and> length (called s) \<le> k"
  by (cases "pc s j") (auto simp: seq_inv_def)

lemma seq_inv_steps: "seq_inv n k j s \<Longrightarrow> 4 * j + pc_steps (pc s j) \<le> 4 * k"
  by (cases "pc s j") (auto simp: seq_inv_def)

text \<open>C33: However the threads interleave, the devices are allocated one at a time in the order of their
  indices (the order is collective over the processes); the phase ends after at most four steps per
  device, no thread is left waiting, and the counter is back at 0 exactly when every device was allocated.\<close>

theorem devices_allocated_in_order:
  assumes "seq_run n k (seq_start 0) m s" and "k \<le> n"
  shows "called s = [0..<length (called s)] \<and> m \<le> 4 * k \<and>
    ((\<exists>s'. seq_step n k s s') \<or>
     (\<forall>d<k. pc s d = Finished) \<and> called s = [0..<k] \<and> control s = (if k = n then 0 else int k))"
proof -
  obtain j where j: "seq_inv n k j s" "m \<le> 4 * j + pc_steps (pc s j)" using seq_run_inv [OF assms] by blast
  then have "j \<le> k" by (simp add: seq_inv_def)
  have "(\<exists>s'. seq_step n k s s') \<or>
     (\<forall>d<k. pc s d = Finished) \<and> called s = [0..<k] \<and> control s = (if k = n then 0 else int k)"
  proof (cases "j = k")
    case True
    then show ?thesis using seq_inv_done j(1) by blast
  next
    case False
    then show ?thesis using seq_inv_enabled [OF j(1) assms(2)] \<open>j \<le> k\<close> by simp
  qed
  then show ?thesis using seq_inv_called [OF j(1)] seq_inv_steps [OF j(1)] j(2) by auto
qed

lemma seq_completes:
  assumes "k \<le> n"
  shows "\<exists>m s. seq_run n k (seq_start 0) m s \<and> (\<forall>d<k. pc s d = Finished)"
proof -
  let ?P = "\<lambda>m. \<exists>s. seq_run n k (seq_start 0) m s"
  have bound: "m \<le> 4 * k" if "?P m" for m
    using that seq_run_inv [OF _ assms] seq_inv_steps le_trans by metis
  have "?P 0" using seq_run.none by blast
  then obtain m where m: "?P m" "\<forall>m'. ?P m' \<longrightarrow> m' \<le> m" using ex_has_greatest_nat [of ?P 0 id "Suc (4 * k)"] bound
    by (auto simp: less_Suc_eq_le)
  then obtain s where s: "seq_run n k (seq_start 0) m s" by blast
  obtain j where j: "seq_inv n k j s" using seq_run_inv [OF s assms] by blast
  have "\<not> j < k" using seq_inv_enabled [OF j assms] seq_run.more [OF s] m(2) by (metis not_less_eq_eq order_refl)
  then have "j = k" using j by (simp add: seq_inv_def)
  then show ?thesis using s seq_inv_done(1) j by blast
qed

theorem devices_allocated_in_order_witness:
  "\<exists>m s. seq_run 2 2 (seq_start 0) m s \<and> (\<forall>d<2. pc s d = Finished) \<and> called s = [0..<length (called s)] \<and> m \<le> 4 * 2"
proof -
  obtain m s where "seq_run 2 2 (seq_start 0) m s" "\<forall>d<2. pc s d = Finished" using seq_completes [of 2 2] by auto
  with devices_allocated_in_order [OF this(1)] show ?thesis by blast
qed

text \<open>C34: The devices are freed in the same order by the same counter. When the allocation has ended, the
  freeing phase can end exactly when every device has a worker; otherwise the counter stays at
  the number of allocated devices, no thread ever leaves its waiting loop and the benchmark hangs.\<close>

theorem devices_freed_iff_all_used:
  assumes "seq_run n k (seq_start 0) m s" and "\<forall>d<k. pc s d = Finished" and "0 < k" and "k \<le> n"
  shows "(\<exists>m' s'. seq_run n k (seq_start (control s)) m' s' \<and> (\<forall>d<k. pc s' d = Finished)) \<longleftrightarrow> k = n"
proof -
  obtain j where j: "seq_inv n k j s" using seq_run_inv [OF assms(1,4)] by blast
  have "\<not> j < k"
  proof
    assume "j < k"
    then have "pc s j = Finished" using assms(2) by blast
    then show False using j by (simp add: seq_inv_def)
  qed
  then have "j = k" using j by (simp add: seq_inv_def)
  then have g: "control s = (if k = n then 0 else int k)" using seq_inv_done(3) j by blast
  show ?thesis
  proof (cases "k = n")
    case True
    then show ?thesis using seq_completes [OF assms(4)] g by simp
  next
    case False
    have no_step: "\<not> seq_step n k (seq_start (int k)) s'" for s'
      by (auto simp: seq_start_def elim!: seq_stepE)
    have stuck: "s' = seq_start (int k)" if "seq_run n k (seq_start (int k)) m' s'" for m' s'
      using that by (induction rule: seq_run.induct) (auto simp: no_step)
    have "\<not> (\<forall>d<k. pc s' d = Finished)" if "seq_run n k (seq_start (int k)) m' s'" for m' s'
      using stuck [OF that] assms(3) by (auto simp: seq_start_def)
    then show ?thesis using False g by auto
  qed
qed

lemma seq_run_three:
  "seq_run 2 1 (seq_start 0) 3 \<lparr>control = 1, pc = (\<lambda>_. Waiting)(0 := Finished), called = [0]\<rparr>"
proof -
  have "seq_run 2 1 (seq_start 0) 1 (seq_start 0\<lparr>pc := (\<lambda>_. Waiting)(0 := Entered)\<rparr>)"
    using seq_run.more [OF seq_run.none seq_step.leave_loop [of 0 1 "seq_start 0" 2]]
    by (simp add: seq_start_def)
  from seq_run.more [OF this seq_step.call_lcw [of 0]]
  have "seq_run 2 1 (seq_start 0) 2 (seq_start 0\<lparr>pc := (\<lambda>_. Waiting)(0 := Called), called := [0]\<rparr>)"
    by (simp add: seq_start_def numeral_2_eq_2)
  from seq_run.more [OF this seq_step.increment [of 0]] show ?thesis
    by (simp add: seq_start_def numeral_2_eq_2 numeral_3_eq_3)
qed

theorem devices_freed_iff_all_used_witness:
  "\<not> (\<exists>m' s'. seq_run 2 1 (seq_start 1) m' s' \<and> (\<forall>d<1. pc s' d = Finished))"
  using devices_freed_iff_all_used [OF seq_run_three] by simp

end
