(* ===== verification/LCW_Pingpong.thy ===== *)
theory LCW_Pingpong
  imports LCW_Sequence LCW_Delivery
begin

text \<open>
  A worker thread of the ping-pong benchmark (\<^verbatim>\<open>worker_thread_fn\<close> of
  \<^verbatim>\<open>src/examples/pingpong_mt.cpp\<close>) as a client of the public API: what it posts, how it waits and what it
  asserts of the completions. The loops that retry a call until it succeeds may not end; they are
  functions into \<open>option\<close>, with \<open>None\<close> for a loop that does not return.

  The name \<^verbatim>\<open>do_progress\<close> applied to \<^verbatim>\<open>device.device\<close>, an \<^verbatim>\<open>lcw::device_t\<close>, denotes \<^verbatim>\<open>lcw::do_progress\<close>, found
  by the namespace of its argument; the function \<^verbatim>\<open>do_progress\<close> of the file takes the other class
  \<^verbatim>\<open>device_t\<close>. A waiting loop therefore makes one step of progress per attempt.
\<close>

section \<open>Results of loops\<close>

type_synonym 'a outcome = "'a res option"

definition bind_out :: "'a outcome \<Rightarrow> ('a \<Rightarrow> 'b outcome) \<Rightarrow> 'b outcome" where
  "bind_out x f = (case x of None \<Rightarrow> None | Some (Inl e) \<Rightarrow> Some (Inl e) | Some (Inr y) \<Rightarrow> f y)"

lemma bind_out_simps [simp]:
  "bind_out None f = None" "bind_out (Some (Inl e)) f = Some (Inl e)" "bind_out (Some (Inr y)) f = f y"
  by (simp_all add: bind_out_def)

lemma bind_out_eq: "bind_out x f = Some (Inr z) \<longleftrightarrow> (\<exists>y. x = Some (Inr y) \<and> f y = Some (Inr z))"
  by (auto simp: bind_out_def split: option.splits sum.splits)

lemma bind_outE:
  assumes "bind_out x f = Some (Inr z)"
  obtains y where "x = Some (Inr y)" "f y = Some (Inr z)"
  using assms by (auto simp: bind_out_eq)

fun for_each :: "('i \<Rightarrow> 's \<Rightarrow> 's outcome) \<Rightarrow> 'i list \<Rightarrow> 's \<Rightarrow> 's outcome" where
  "for_each f [] s = Some (Inr s)"
| "for_each f (i # is) s = bind_out (f i s) (for_each f is)"

text \<open>\<^verbatim>\<open>while (!call()) idle();\<close> where the call also returns a value.\<close>

partial_function (option) retry ::
  "('s \<Rightarrow> (bool \<times> 'a \<times> 's) res) \<Rightarrow> ('s \<Rightarrow> 's res) \<Rightarrow> 's \<Rightarrow> ('a \<times> 's) outcome" where
  "retry call idle s =
     (case call s of Inl e \<Rightarrow> Some (Inl e)
      | Inr (ok, x, s) \<Rightarrow>
          if ok then Some (Inr (x, s))
          else case idle s of Inl e \<Rightarrow> Some (Inl e) | Inr s \<Rightarrow> retry call idle s)"

declare retry.simps [code]

text \<open>
  The loop over the message sizes. Doubling past the range of \<^verbatim>\<open>int\<close> is undefined.
\<close>

partial_function (option) msg_loop :: "(int \<Rightarrow> 's \<Rightarrow> 's outcome) \<Rightarrow> int \<Rightarrow> int \<Rightarrow> 's \<Rightarrow> 's outcome" where
  "msg_loop body max_size msg_size s =
     (if msg_size \<le> max_size then
        case body msg_size s of None \<Rightarrow> None
        | Some r \<Rightarrow> (case r of Inl e \<Rightarrow> Some (Inl e)
           | Inr s \<Rightarrow> if is_int (msg_size * 2) then msg_loop body max_size (msg_size * 2) s else Some (Inl Undefined))
      else Some (Inr s))"

declare msg_loop.simps [code]

section \<open>Progress\<close>

fun progress_steps ::
  "('q, 'e) env_scheme \<Rightarrow> nat \<Rightarrow> ptr \<Rightarrow> ('q, 'z) rt_scheme lcw_st \<Rightarrow> ('q, 'z) rt_scheme lcw_st res" where
  "progress_steps E 0 d s = Inr s"
| "progress_steps E (Suc n) d s =
     bind_res (lcw_do_progress E d s) (\<lambda>(ret, s). if \<not> ret then Inr s else progress_steps E n d s)"

definition bench_do_progress ::
  "('q, 'e) env_scheme \<Rightarrow> Config \<Rightarrow> ptr \<Rightarrow> ('q, 'z) rt_scheme lcw_st \<Rightarrow> ('q, 'z) rt_scheme lcw_st res" where
  "bench_do_progress E c d s =
     (let max_progress_steps = (if cf_max_progress_steps c = 0 then int_max else cf_max_progress_steps c)
      in progress_steps E (nat max_progress_steps) d s)"

definition idle ::
  "('q, 'e) env_scheme \<Rightarrow> Config \<Rightarrow> ptr \<Rightarrow> ('q, 'z) rt_scheme lcw_st \<Rightarrow> ('q, 'z) rt_scheme lcw_st res" where
  "idle E c d s =
     (if cf_nprgthreads c = 0 then bind_res (lcw_do_progress E d s) (\<lambda>(_, s). Inr s) else Inr s)"

text \<open>One round of a progress thread over its devices.\<close>

fun progress_each ::
  "('q, 'e) env_scheme \<Rightarrow> ptr list \<Rightarrow> int list \<Rightarrow> ('q, 'z) rt_scheme lcw_st \<Rightarrow> ('q, 'z) rt_scheme lcw_st res" where
  "progress_each E devs [] s = Inr s"
| "progress_each E devs (i # is) s =
     bind_res (lcw_do_progress E (devs ! nat i) s) (\<lambda>(_, s). progress_each E devs is s)"

definition progress_round ::
  "('q, 'e) env_scheme \<Rightarrow> Config \<Rightarrow> ptr list \<Rightarrow> int \<Rightarrow> ('q, 'z) rt_scheme lcw_st \<Rightarrow> ('q, 'z) rt_scheme lcw_st res" where
  "progress_round E c devs progress_id s =
     bind_res (progress_devices c (int (length devs)) progress_id) (\<lambda>is. progress_each E devs is s)"

section \<open>Posting\<close>

text \<open>
  What a worker knows: its identifier, device, peer and completion queues, the size of the messages
  and the iteration. \<open>ctx_of\<close> is the cast of an \<^verbatim>\<open>int\<close> to a pointer.
\<close>

record worker =
  wk_id :: int
  wk_device :: ptr
  wk_peer :: int
  wk_scq :: ptr
  wk_rcq :: ptr
  wk_msg_size :: int
  wk_iter :: int

definition ctx_of :: "int \<Rightarrow> ptr" where
  "ctx_of x = nat (to_size x)"

definition slot :: "worker \<Rightarrow> ptr \<Rightarrow> int \<Rightarrow> ptr" where
  "slot w buffer j = nat (int buffer + j * wk_msg_size w)"

definition on_mem :: "(mem \<Rightarrow> mem) \<Rightarrow> ('q, 'z) rt_scheme lcw_st \<Rightarrow> ('q, 'z) rt_scheme lcw_st" where
  "on_mem f s = s\<lparr>inner := inner s\<lparr>mem := f (mem (inner s))\<rparr>\<rparr>"

definition memset0 :: "ptr \<Rightarrow> nat \<Rightarrow> mem \<Rightarrow> mem" where
  "memset0 a n m = (\<lambda>p. if a \<le> p \<and> p < a + n then 0 else m p)"

definition no_value :: "(bool \<times> 's) res \<Rightarrow> (bool \<times> unit \<times> 's) res" where
  "no_value r = bind_res r (\<lambda>(ok, s). Inr (ok, (), s))"

definition post_recv ::
  "('q, 'e) env_scheme \<Rightarrow> Config \<Rightarrow> worker \<Rightarrow> ptr \<Rightarrow> int \<Rightarrow> ('q, 'z) rt_scheme lcw_st \<Rightarrow>
   ('q, 'z) rt_scheme lcw_st outcome" where
  "post_recv E c w buffer j s =
     (case bind_res (get_tag c (wk_id w) (wk_iter w) j) (\<lambda>tag.
           bind_res (c_int (wk_iter w + j)) (\<lambda>x. Inr (tag, ctx_of x))) of
        Inl e \<Rightarrow> Some (Inl e)
      | Inr (tag, ctx) \<Rightarrow>
          bind_out (retry (\<lambda>s. no_value (lcw_recv E (wk_device w) (wk_peer w) tag (slot w buffer j) (wk_msg_size w)
                                 (wk_rcq w) ctx s)) (idle E c (wk_device w)) s) (\<lambda>(_, s). Some (Inr s)))"

definition post_send ::
  "('q, 'e) env_scheme \<Rightarrow> Config \<Rightarrow> rand_r \<Rightarrow> worker \<Rightarrow> ptr \<Rightarrow> int \<Rightarrow> ('q, 'z) rt_scheme lcw_st \<Rightarrow>
   ('q, 'z) rt_scheme lcw_st outcome" where
  "post_send E c rand w buffer j s =
     (case bind_res (get_tag c (wk_id w) (wk_iter w) j) (\<lambda>tag.
           bind_res (c_int (wk_iter w + j)) (\<lambda>x. Inr (tag, ctx_of x))) of
        Inl e \<Rightarrow> Some (Inl e)
      | Inr (tag, ctx) \<Rightarrow>
          let s = (if cf_test_mode c
                   then on_mem (write_buffer rand (slot w buffer j) (nat (to_size (wk_msg_size w))) (word_of_int tag)) s
                   else s)
          in bind_out (retry (\<lambda>s. no_value
               (if cf_op c = SEND
                then lcw_send E (wk_device w) (wk_peer w) tag (slot w buffer j) (wk_msg_size w) (wk_scq w) ctx s
                else lcw_put E (wk_device w) (wk_peer w) (slot w buffer j) (wk_msg_size w) (wk_scq w) ctx s))
               (idle E c (wk_device w)) s) (\<lambda>(_, s). Some (Inr s)))"

section \<open>Waiting for completions\<close>

text \<open>\<open>real_j\<close> is computed in 64 bits without sign from the user context of the completed request.\<close>

definition real_j :: "worker \<Rightarrow> request_t \<Rightarrow> int" where
  "real_j w r = to_size (int (req_user_context r) - wk_iter w)"

definition check_send :: "Config \<Rightarrow> worker \<Rightarrow> ptr \<Rightarrow> request_t \<Rightarrow> unit res" where
  "check_send c w buffer sreq =
     bind_res (lcw_assert (req_device sreq = wk_device w) ''sreq.device == device.device'') (\<lambda>_.
     bind_res (lcw_assert (req_length sreq = wk_msg_size w) ''sreq.length == msg_size'') (\<lambda>_.
     bind_res (lcw_assert (req_op sreq = cf_op c) ''sreq.op == config.op'') (\<lambda>_.
     bind_res (lcw_assert (int (req_buffer sreq) = to_size (int buffer + real_j w sreq * wk_msg_size w))
                 ''sreq.buffer == send_buffer + real_j * msg_size'') (\<lambda>_.
     bind_res (lcw_assert (req_rank sreq = wk_peer w) ''sreq.rank == peer_rank'') (\<lambda>_.
     if cf_op c = SEND
     then bind_res (get_tag c (wk_id w) (wk_iter w) (to_int (real_j w sreq))) (\<lambda>tag.
          lcw_assert (req_tag sreq = tag) ''sreq.tag == get_tag(worker_id, i, real_j)'')
     else Inr ())))))"

definition check_recv :: "Config \<Rightarrow> rand_r \<Rightarrow> worker \<Rightarrow> ptr \<Rightarrow> request_t \<Rightarrow> mem \<Rightarrow> unit res" where
  "check_recv c rand w buffer rreq m =
     bind_res (lcw_assert (req_device rreq = wk_device w \<or> req_op rreq = PUT_SIGNAL)
                 ''rreq.device == device.device || rreq.op == PUT_SIGNAL'') (\<lambda>_.
     bind_res (lcw_assert (req_length rreq = wk_msg_size w) ''rreq.length == msg_size'') (\<lambda>_.
     bind_res (lcw_assert (req_op rreq = (if cf_op c = SEND then RECV else PUT_SIGNAL)) ''rreq.op'') (\<lambda>_.
     bind_res (lcw_assert (req_rank rreq = wk_peer w) ''rreq.rank == peer_rank'') (\<lambda>_.
     if cf_op c = SEND
     then bind_res (lcw_assert (int (req_buffer rreq) = to_size (int buffer + real_j w rreq * wk_msg_size w))
                      ''rreq.buffer == recv_buffer + real_j * msg_size'') (\<lambda>_.
          bind_res (lcw_assert (int (req_user_context rreq) = to_size (wk_iter w + real_j w rreq)) ''rreq.user_context'') (\<lambda>_.
          bind_res (get_tag c (wk_id w) (wk_iter w) (to_int (real_j w rreq))) (\<lambda>tag.
          bind_res (lcw_assert (req_tag rreq = tag) ''rreq.tag == get_tag(worker_id, i, real_j)'') (\<lambda>_.
          check_buffer rand (req_buffer rreq) (nat (to_size (wk_msg_size w))) m))))
     else check_buffer rand (req_buffer rreq) (nat (to_size (wk_msg_size w))) m))))"

text \<open>\<open>free(rreq.buffer)\<close>: the block the buffer was allocated with.\<close>

definition free_block :: "ptr \<Rightarrow> ('q, 'z) rt_scheme lcw_st \<Rightarrow> ('q, 'z) rt_scheme lcw_st res" where
  "free_block p s =
     (if p = nullptr then Inr s
      else if p \<in> fst ` set (blocks (inner s))
      then Inr (s\<lparr>inner := inner s\<lparr>blocks := filter (\<lambda>b. fst b \<noteq> p) (blocks (inner s))\<rparr>\<rparr>)
      else Inl Bad_pointer)"

definition wait_send ::
  "('q, 'e) env_scheme \<Rightarrow> Config \<Rightarrow> worker \<Rightarrow> ptr \<Rightarrow> request_t \<Rightarrow> ('q, 'z) rt_scheme lcw_st \<Rightarrow>
   ('q, 'z) rt_scheme lcw_st outcome" where
  "wait_send E c w buffer out s =
     bind_out (retry (lcw_poll_cq E (wk_scq w) out) (idle E c (wk_device w)) s) (\<lambda>(sreq, s).
     if cf_test_mode c then Some (bind_res (check_send c w buffer sreq) (\<lambda>_. Inr s)) else Some (Inr s))"

definition wait_recv ::
  "('q, 'e) env_scheme \<Rightarrow> Config \<Rightarrow> rand_r \<Rightarrow> worker \<Rightarrow> ptr \<Rightarrow> request_t \<Rightarrow> ('q, 'z) rt_scheme lcw_st \<Rightarrow>
   ('q, 'z) rt_scheme lcw_st outcome" where
  "wait_recv E c rand w buffer out s =
     bind_out (retry (lcw_poll_cq E (wk_rcq w) out) (idle E c (wk_device w)) s) (\<lambda>(rreq, s).
     if cf_test_mode c
     then Some (bind_res (check_recv c rand w buffer rreq (mem (inner s))) (\<lambda>_.
                if cf_op c = SEND then Inr s else free_block (req_buffer rreq) s))
     else Some (Inr s))"

section \<open>One iteration\<close>

text \<open>
  The sender posts its receives, then its sends, and waits for both; the receiver waits for the
  messages in its send buffer and answers from its receive buffer. \<^verbatim>\<open>do_computation\<close> only takes time.
\<close>

definition clear_slot :: "Config \<Rightarrow> worker \<Rightarrow> ptr \<Rightarrow> int \<Rightarrow> ('q, 'z) rt_scheme lcw_st \<Rightarrow> ('q, 'z) rt_scheme lcw_st" where
  "clear_slot c w buffer j s =
     (if cf_test_mode c then on_mem (memset0 (slot w buffer j) (nat (to_size (wk_msg_size w)))) s else s)"

definition sender_iter ::
  "('q, 'e) env_scheme \<Rightarrow> Config \<Rightarrow> rand_r \<Rightarrow> worker \<Rightarrow> ptr \<Rightarrow> ptr \<Rightarrow> request_t \<Rightarrow> ('q, 'z) rt_scheme lcw_st \<Rightarrow>
   ('q, 'z) rt_scheme lcw_st outcome" where
  "sender_iter E c rand w send_buffer recv_buffer out s =
     bind_out (if cf_op c = SEND
               then for_each (\<lambda>j s. post_recv E c w recv_buffer j (clear_slot c w recv_buffer j s)) [0..cf_recv_window c - 1] s
               else Some (Inr s)) (\<lambda>s.
     bind_out (for_each (post_send E c rand w send_buffer) [0..cf_send_window c - 1] s) (\<lambda>s.
     bind_out (for_each (\<lambda>_. wait_send E c w send_buffer out) [0..cf_send_window c - 1] s) (\<lambda>s.
     for_each (\<lambda>_. wait_recv E c rand w recv_buffer out) [0..cf_recv_window c - 1] s)))"

definition receiver_iter ::
  "('q, 'e) env_scheme \<Rightarrow> Config \<Rightarrow> rand_r \<Rightarrow> worker \<Rightarrow> ptr \<Rightarrow> ptr \<Rightarrow> request_t \<Rightarrow> ('q, 'z) rt_scheme lcw_st \<Rightarrow>
   ('q, 'z) rt_scheme lcw_st outcome" where
  "receiver_iter E c rand w send_buffer recv_buffer out s =
     bind_out (for_each (\<lambda>j s. let s = clear_slot c w send_buffer j s
                               in if cf_op c = SEND then post_recv E c w send_buffer j s else Some (Inr s))
                 [0..cf_send_window c - 1] s) (\<lambda>s.
     bind_out (for_each (\<lambda>_. wait_recv E c rand w send_buffer out) [0..cf_send_window c - 1] s) (\<lambda>s.
     bind_out (for_each (post_send E c rand w recv_buffer) [0..cf_recv_window c - 1] s) (\<lambda>s.
     for_each (\<lambda>_. wait_send E c w recv_buffer out) [0..cf_recv_window c - 1] s)))"

section \<open>The worker thread\<close>

text \<open>
  A run with one thread, in which both barriers have this thread as their only participant and let it
  pass. \<open>memalign\<close> is \<^verbatim>\<open>posix_memalign\<close> for the blocks in use; the buffers are not freed.
\<close>

type_synonym memalign = "int \<Rightarrow> int \<Rightarrow> (ptr \<times> nat) list \<Rightarrow> int \<times> ptr"

definition alloc_buffer ::
  "memalign \<Rightarrow> int \<Rightarrow> int \<Rightarrow> ('q, 'z) rt_scheme lcw_st \<Rightarrow> (ptr \<times> ('q, 'z) rt_scheme lcw_st) res" where
  "alloc_buffer memalign pagesize n s =
     bind_res (c_int n) (\<lambda>n.
       let (ret, p) = memalign pagesize (to_size n) (blocks (inner s))
       in bind_res (lcw_assert (ret = 0) ''ret == 0'') (\<lambda>_.
          Inr (p, s\<lparr>inner := inner s\<lparr>blocks := (p, nat (to_size n)) # blocks (inner s)\<rparr>\<rparr>)))"

definition message_round ::
  "('q, 'e) env_scheme \<Rightarrow> Config \<Rightarrow> memalign \<Rightarrow> int \<Rightarrow> rand_r \<Rightarrow> worker \<Rightarrow> int \<Rightarrow> int \<Rightarrow> request_t \<Rightarrow> int \<Rightarrow>
   ('q, 'z) rt_scheme lcw_st \<Rightarrow> ('q, 'z) rt_scheme lcw_st outcome" where
  "message_round E c memalign pagesize rand w rank nranks out msg_size s =
     bind_out (Some (alloc_buffer memalign pagesize (msg_size * cf_send_window c) s)) (\<lambda>(send_buffer, s).
     bind_out (Some (alloc_buffer memalign pagesize (msg_size * cf_recv_window c) s)) (\<lambda>(recv_buffer, s).
     bind_out (Some (if wk_id w = 0 then lcw_barrier (wk_device w) s else Inr s)) (\<lambda>s.
     bind_out (for_each (\<lambda>i. (if is_sender rank nranks then sender_iter else receiver_iter) E c rand
                            (w\<lparr>wk_msg_size := msg_size, wk_iter := i\<rparr>) send_buffer recv_buffer out) [0..cf_niters c - 1] s) (\<lambda>s.
     Some (if wk_id w = 0 then lcw_barrier (wk_device w) s else Inr s)))))"

definition setup_device ::
  "Config \<Rightarrow> 's lcw_st \<Rightarrow> (ptr \<times> ptr \<times> 's lcw_st) res" where
  "setup_device c s =
     (if cf_op c = SEND then bind_res (lcw_alloc_device 0 nullptr s) (\<lambda>(d, s). Inr (d, nullptr, s))
      else bind_res (lcw_alloc_cq s) (\<lambda>(q, s).
           bind_res (lcw_alloc_device (cf_max_size c) q s) (\<lambda>(d, s). Inr (d, q, s))))"

definition next_turn :: "int \<Rightarrow> int \<Rightarrow> int" where
  "next_turn n g = (if g + 1 = n then 0 else g + 1)"

definition teardown_device ::
  "('q, 'e) env_scheme \<Rightarrow> Config \<Rightarrow> ptr \<Rightarrow> ptr \<Rightarrow> bool \<Rightarrow> ('q, 'z) rt_scheme lcw_st \<Rightarrow> ('q, 'z) rt_scheme lcw_st outcome" where
  "teardown_device E c d put_cq my_turn s =
     bind_out (retry (\<lambda>s. Inr (my_turn, (), s)) (\<lambda>s. bind_res (lcw_do_progress E d s) (\<lambda>(_, s). Inr s)) s) (\<lambda>(_, s).
     Some (if cf_op c = SEND then lcw_free_device d s
           else bind_res (lcw_free_cq put_cq s) (lcw_free_device d)))"

definition worker_thread_fn ::
  "('q, 'e) env_scheme \<Rightarrow> Config \<Rightarrow> memalign \<Rightarrow> int \<Rightarrow> rand_r \<Rightarrow> request_t \<Rightarrow> ('q, 'z) rt_scheme lcw_st \<Rightarrow>
   ('q, 'z) rt_scheme lcw_st outcome" where
  "worker_thread_fn E c memalign pagesize rand out s =
     (let n = to_size (cf_ndevices c) in
      bind_out (Some (worker_device_idx c n 0)) (\<lambda>_.
      bind_out (Some (setup_device c s)) (\<lambda>(d, put_cq, s).
      bind_out (Some (lcw_get_rank s)) (\<lambda>rank.
      bind_out (Some (lcw_get_nranks s)) (\<lambda>nranks.
      bind_out (Some (lcw_alloc_cq s)) (\<lambda>(scq, s).
      bind_out (Some (if cf_op c = SEND then lcw_alloc_cq s else Inr (put_cq, s))) (\<lambda>(rcq, s).
      bind_out (msg_loop (message_round E c memalign pagesize rand
                  \<lparr>wk_id = 0, wk_device = d, wk_peer = peer_rank rank nranks, wk_scq = scq, wk_rcq = rcq,
                   wk_msg_size = 0, wk_iter = 0\<rparr> rank nranks out) (cf_max_size c) (cf_min_size c) s) (\<lambda>s.
      bind_out (Some (lcw_free_cq scq s)) (\<lambda>s.
      bind_out (Some (if cf_op c = SEND then lcw_free_cq rcq s else Inr s)) (\<lambda>s.
      teardown_device E c d put_cq (next_turn n 0 = 0) s))))))))))"

end
