(* ===== verification/LCW_Pingpong_Checks.thy ===== *)
theory LCW_Pingpong_Checks
  imports LCW_Pingpong
begin

text \<open>
  What holds of the ping-pong benchmark: the message sizes it goes through, when a run with one
  thread can end, and that the assertions on completed sends hold whatever backend runs below.
\<close>

section \<open>The message sizes\<close>

definition note_size :: "int \<Rightarrow> int list \<Rightarrow> int list outcome" where
  "note_size m ms = Some (Inr (ms @ [m]))"

lemma msg_loop_sizes:
  assumes "0 < m" "max_size < 2 ^ 30" "m * 2 ^ k > max_size" "\<forall>i<k. m * 2 ^ i \<le> max_size"
  shows "msg_loop note_size max_size m ms = Some (Inr (ms @ map (\<lambda>i. m * 2 ^ i) [0..<k]))"
  using assms
proof (induction k arbitrary: m ms)
  case 0
  then show ?case by (simp add: msg_loop.simps)
next
  case (Suc k)
  have le: "m \<le> max_size" using Suc.prems(4) by force
  then have "is_int (m * 2)" using Suc.prems(1,2) by (simp add: is_int_def)
  then have "msg_loop note_size max_size m ms = msg_loop note_size max_size (m * 2) (ms @ [m])"
    using le msg_loop.simps [of note_size max_size m ms] by (simp add: note_size_def)
  also have "\<dots> = Some (Inr ((ms @ [m]) @ map (\<lambda>i. m * 2 * 2 ^ i) [0..<k]))"
  proof (rule Suc.IH)
    show "\<forall>i<k. m * 2 * 2 ^ i \<le> max_size"
    proof (intro allI impI)
      fix i assume "i < k"
      then show "m * 2 * 2 ^ i \<le> max_size" using Suc.prems(4) [rule_format, of "Suc i"] by (simp add: mult.assoc)
    qed
  qed (use Suc.prems in \<open>simp_all add: mult.assoc\<close>)
  also have "(ms @ [m]) @ map (\<lambda>i. m * 2 * 2 ^ i) [0..<k] = ms @ map (\<lambda>i. m * 2 ^ i) [0..<Suc k]"
    by (simp add: upt_conv_Cons map_Suc_upt [symmetric] mult.assoc del: upt_Suc)
  finally show ?case .
qed

lemma msg_loop_zero: "0 \<le> max_size \<Longrightarrow> msg_loop note_size max_size 0 ms = None"
proof (rule ccontr)
  assume m: "0 \<le> max_size" and "msg_loop note_size max_size 0 ms \<noteq> None"
  then obtain r where ret: "msg_loop note_size max_size 0 ms = Some r" by auto
  have "(0::int) = 0 \<longrightarrow> 0 \<le> max_size \<longrightarrow> note_size = note_size \<longrightarrow> False"
  proof (rule msg_loop.raw_induct [where P = "\<lambda>b mx m s r. m = 0 \<longrightarrow> 0 \<le> mx \<longrightarrow> b = note_size \<longrightarrow> False", OF _ ret])
    fix f :: "(int \<Rightarrow> int list \<Rightarrow> int list outcome) \<Rightarrow> int \<Rightarrow> int \<Rightarrow> int list \<Rightarrow> int list outcome" and b mx m s r
    assume IH: "\<And>b mx m s r. f b mx m s = Some r \<Longrightarrow> m = 0 \<longrightarrow> 0 \<le> mx \<longrightarrow> b = note_size \<longrightarrow> False"
      and eq: "(if m \<le> mx then case b m s of None \<Rightarrow> None | Some r \<Rightarrow> (case r of Inl e \<Rightarrow> Some (Inl e)
           | Inr s \<Rightarrow> if is_int (m * 2) then f b mx (m * 2) s else Some (Inl Undefined)) else Some (Inr s)) = Some r"
    show "m = 0 \<longrightarrow> 0 \<le> mx \<longrightarrow> b = note_size \<longrightarrow> False"
    proof (intro impI)
      assume z: "m = 0" "0 \<le> mx" "b = note_size"
      then have "f note_size mx 0 (s @ [0]) = Some r" using eq by (simp add: note_size_def is_int_def)
      then show False using IH z(2) by blast
    qed
  qed
  then show False using m by simp
qed

text \<open>C39: The benchmark goes through the sizes \<open>min_size * 2 ^ i\<close> up to \<open>max_size\<close>, each once and in order, and
  the loop ends, for every positive minimum and a maximum below \<open>2 ^ 30\<close> (so that doubling does not
  overflow). With a minimum of 0 the loop never ends.\<close>

theorem message_sizes:
  assumes "0 < min_size" "max_size < 2 ^ 30"
  shows "(\<exists>k. msg_loop note_size max_size min_size [] = Some (Inr (map (\<lambda>i. min_size * 2 ^ i) [0..<k])) \<and>
      (\<forall>i. i < k \<longleftrightarrow> min_size * 2 ^ i \<le> max_size)) \<and> (0 \<le> max_size \<longrightarrow> msg_loop note_size max_size 0 [] = None)"
proof -
  have mono: "min_size * 2 ^ i \<le> min_size * 2 ^ j" if "i \<le> j" for i j :: nat
    using assms(1) that by (simp add: power_increasing)
  have big: "\<exists>k. max_size < min_size * 2 ^ k"
  proof (intro exI [of _ "nat max_size"])
    have "int (nat max_size) < 2 ^ nat max_size" by (metis of_nat_less_iff of_nat_numeral of_nat_power less_exp)
    then have "max_size < 2 ^ nat max_size" by linarith
    also have "(2::int) ^ nat max_size \<le> min_size * 2 ^ nat max_size" using assms(1) by simp
    finally show "max_size < min_size * 2 ^ nat max_size" .
  qed
  define k where "k = (LEAST k. max_size < min_size * 2 ^ k)"
  have k: "max_size < min_size * 2 ^ k" unfolding k_def using big by (rule LeastI_ex)
  have below: "min_size * 2 ^ i \<le> max_size" if "i < k" for i
    using not_less_Least [of i "\<lambda>k. max_size < min_size * 2 ^ k"] that unfolding k_def by simp
  have "i < k \<longleftrightarrow> min_size * 2 ^ i \<le> max_size" for i using below k mono [of k i] by (meson not_le order.strict_trans1 order_trans not_less)
  then show ?thesis using msg_loop_sizes [OF assms k] below msg_loop_zero [of max_size "[]"] by auto
qed

theorem message_sizes_witness:
  "(\<exists>k. msg_loop note_size 8192 8 [] = Some (Inr (map (\<lambda>i. 8 * 2 ^ i) [0..<k])) \<and>
      (\<forall>i. i < k \<longleftrightarrow> (8::int) * 2 ^ i \<le> 8192)) \<and> msg_loop note_size 8192 0 [] = None"
  using message_sizes [of 8 8192] by simp

section \<open>When a run with one thread ends\<close>

lemma retry_invariant:
  assumes ret: "retry call stp s = Some r" and s: "I s"
    and call: "\<And>s x s'. I s \<Longrightarrow> call s = Inr (False, x, s') \<Longrightarrow> I s'"
    and stp: "\<And>s s'. I s \<Longrightarrow> stp s = Inr s' \<Longrightarrow> I s'"
  shows "\<forall>x s'. r = Inr (x, s') \<longrightarrow> (\<exists>t. I t \<and> call t = Inr (True, x, s'))"
proof -
  have "I s \<longrightarrow> (\<forall>x s'. r = Inr (x, s') \<longrightarrow> (\<exists>t. I t \<and> call t = Inr (True, x, s')))"
  proof (rule retry.raw_induct [where P = "\<lambda>c i s r. c = call \<longrightarrow> i = stp \<longrightarrow> I s \<longrightarrow>
      (\<forall>x s'. r = Inr (x, s') \<longrightarrow> (\<exists>t. I t \<and> call t = Inr (True, x, s')))", OF _ ret, THEN mp, THEN mp, OF _ refl refl])
    fix f c i s r
    assume IH: "\<And>c i s r. f c i s = Some r \<Longrightarrow> c = call \<longrightarrow> i = stp \<longrightarrow> I s \<longrightarrow>
        (\<forall>x s'. r = Inr (x, s') \<longrightarrow> (\<exists>t. I t \<and> call t = Inr (True, x, s')))"
      and eq: "(case c s of Inl e \<Rightarrow> Some (Inl e) | Inr (ok, x, s) \<Rightarrow> if ok then Some (Inr (x, s))
          else (case i s of Inl e \<Rightarrow> Some (Inl e) | Inr s \<Rightarrow> f c i s)) = Some r"
    show "c = call \<longrightarrow> i = stp \<longrightarrow> I s \<longrightarrow> (\<forall>x s'. r = Inr (x, s') \<longrightarrow> (\<exists>t. I t \<and> call t = Inr (True, x, s')))"
    proof (intro impI)
      assume z: "c = call" "i = stp" and s: "I s"
      show "\<forall>x s'. r = Inr (x, s') \<longrightarrow> (\<exists>t. I t \<and> call t = Inr (True, x, s'))"
      proof (cases "call s")
        case (Inl e)
        then show ?thesis using eq z by auto
      next
        case (Inr y)
        obtain ok x s1 where y: "y = (ok, x, s1)" by (cases y)
        show ?thesis
        proof (cases ok)
          case True
          then show ?thesis using eq z Inr y s by auto
        next
          case False
          then have s1: "I s1" using call [OF s] Inr y by simp
          show ?thesis
          proof (cases "stp s1")
            case (Inl e)
            then show ?thesis using eq z Inr y False by auto
          next
            case st: (Inr s2)
            then have "f call stp s2 = Some r" using eq z Inr y False by simp
            then show ?thesis using IH stp [OF s1 st] by blast
          qed
        qed
      qed
    qed
  qed
  then show ?thesis using s by blast
qed

lemma single_worker_turn:
  assumes "worker_thread_fn E c memalign pagesize rand out s = Some (Inr s')" and "is_int (cf_ndevices c)"
  shows "cf_ndevices c = 1"
proof (rule ccontr)
  assume n1: "cf_ndevices c \<noteq> 1"
  have "to_size (cf_ndevices c) \<noteq> 1"
  proof (cases "0 \<le> cf_ndevices c")
    case True
    then show ?thesis using n1 assms(2) by (simp add: is_int_def)
  next
    case False
    then show ?thesis using to_size_neg [OF is_int_is_int64 [OF assms(2)]] assms(2) by (simp add: is_int_def)
  qed
  then have "next_turn (to_size (cf_ndevices c)) 0 \<noteq> 0" by (simp add: next_turn_def)
  then obtain d q t where t: "teardown_device E c d q False t = Some (Inr s')"
    using assms(1) by (auto simp: worker_thread_fn_def Let_def elim!: bind_outE split: prod.splits)
  then obtain x t' where "retry (\<lambda>s. Inr (False, (), s)) (\<lambda>s. bind_res (lcw_do_progress E d s) (\<lambda>(_, s). Inr s)) t = Some (Inr (x, t'))"
    by (auto simp: teardown_device_def elim!: bind_outE)
  from retry_invariant [OF this, of "\<lambda>_. True"] show False by auto
qed

section \<open>The assertions on completed sends\<close>

text \<open>The request the benchmark posts for slot \<open>j\<close> of its window.\<close>

definition slot_request :: "Config \<Rightarrow> worker \<Rightarrow> ptr \<Rightarrow> int \<Rightarrow> request_t \<Rightarrow> bool" where
  "slot_request c w buffer j r \<longleftrightarrow> is_int (wk_iter w + j) \<and>
     (cf_op c = SEND \<longrightarrow> get_tag c (wk_id w) (wk_iter w) j = Inr (req_tag r)) \<and>
     req_op r = cf_op c \<and> req_device r = wk_device w \<and> req_rank r = wk_peer w \<and> req_buffer r = slot w buffer j \<and>
     req_length r = wk_msg_size w \<and> req_user_context r = ctx_of (wk_iter w + j)"

lemma check_send_slot:
  assumes "slot_request c w buffer j r" and "0 \<le> j" "0 \<le> wk_iter w" "0 \<le> wk_msg_size w"
    and "int buffer + j * wk_msg_size w < 2 ^ 64"
  shows "check_send c w buffer r = Inr ()"
proof -
  have i: "is_int (wk_iter w + j)" using assms(1) by (simp add: slot_request_def)
  then have "int (req_user_context r) = wk_iter w + j"
    using assms(1-3) by (simp add: slot_request_def ctx_of_def is_int_def)
  moreover have "is_int j" using i assms(2,3) by (simp add: is_int_def)
  ultimately have j: "real_j w r = j" "to_int (real_j w r) = j" using assms(2) by (simp_all add: real_j_def is_int_def)
  have "int (req_buffer r) = int buffer + j * wk_msg_size w" using assms by (simp add: slot_request_def slot_def)
  moreover have "0 \<le> int buffer + j * wk_msg_size w" using assms by simp
  ultimately have "int (req_buffer r) = to_size (int buffer + real_j w r * wk_msg_size w)" using assms(5) j by simp
  then show ?thesis using assms(1) j by (auto simp: slot_request_def check_send_def)
qed

lemma moves_held:
  assumes "moves P D s s'" "fresh_ok s"
  shows "fresh_ok s' \<and> D + out_heap (heap s') \<subseteq># P + out_heap (heap s)"
proof -
  obtain x where x: "handled_in (trace s') = handled_in (trace s) + x"
    using assms by (metis moves_def subset_mset.add_diff_inverse)
  have "D + out_heap (heap s') + handled_in (trace s') = P + out_heap (heap s) + handled_in (trace s)"
    using assms by (simp add: moves_def)
  then have "(D + out_heap (heap s') + x) + handled_in (trace s) = (P + out_heap (heap s)) + handled_in (trace s)"
    unfolding x by (simp add: ac_simps)
  then have "P + out_heap (heap s) = (D + out_heap (heap s')) + x" by (simp only: add_right_cancel)
  then show ?thesis using assms by (auto simp: moves_def)
qed

lemma moves_elements:
  assumes "moves P D s s'" "fresh_ok s"
  shows "fresh_ok s' \<and> (\<forall>r. r \<in># D \<or> r \<in># out_heap (heap s') \<longrightarrow> r \<in># P \<or> r \<in># out_heap (heap s))"
  using moves_held [OF assms] by (meson mset_subset_eqD union_iff)

lemma retry_returns:
  assumes "retry call stp s = Some (Inr (x, s'))" and "I s"
    and "\<And>s x s'. I s \<Longrightarrow> call s = Inr (False, x, s') \<Longrightarrow> I s'"
    and "\<And>s s'. I s \<Longrightarrow> stp s = Inr s' \<Longrightarrow> I s'"
  obtains t where "I t" "call t = Inr (True, x, s')"
proof -
  have "\<exists>t. I t \<and> call t = Inr (True, x, s')"
    using assms(1,2) by (rule retry_invariant [rule_format, OF _ _ _ _ refl]) (erule (1) assms(3), erule (1) assms(4))
  then show ?thesis using that by blast
qed

lemma for_each_invariant:
  "for_each f is s = Some (Inr s') \<Longrightarrow> I s \<Longrightarrow> (\<And>i s s'. i \<in> set is \<Longrightarrow> I s \<Longrightarrow> f i s = Some (Inr s') \<Longrightarrow> I s') \<Longrightarrow> I s'"
proof (induction "is" arbitrary: s)
  case Nil
  then show ?case by simp
next
  case (Cons i "is")
  obtain s1 where s1: "f i s = Some (Inr s1)" "for_each f is s1 = Some (Inr s')" using Cons.prems(1) by (auto elim: bind_outE)
  show ?case
  proof (rule Cons.IH [OF s1(2)])
    show "I s1" using Cons.prems(3) [OF _ Cons.prems(2) s1(1)] by simp
  qed (use Cons.prems(3) in \<open>meson list.set_intros(2)\<close>)
qed

lemma slot_request_posts:
  assumes "get_tag c (wk_id w) (wk_iter w) j = Inr tag" "is_int (wk_iter w + j)" "cf_op c = SEND \<or> cf_op c = PUT"
    and "posts (if cf_op c = SEND then Send (wk_device w) (wk_peer w) tag (slot w buffer j) (wk_msg_size w) q (ctx_of (wk_iter w + j))
                else Put (wk_device w) (wk_peer w) (slot w buffer j) (wk_msg_size w) q (ctx_of (wk_iter w + j))) r"
  shows "slot_request c w buffer j r"
  using assms by (cases r) (auto simp: slot_request_def split: if_splits)

context exactly_once
begin

text \<open>Every send and put the library holds has the property \<open>Q\<close>.\<close>

definition holds_only :: "(request_t \<Rightarrow> bool) \<Rightarrow> ('q, 'z) rt_scheme lcw_st \<Rightarrow> bool" where
  "holds_only Q s \<longleftrightarrow> backend_p s = Some b \<and> fresh_ok (inner s) \<and> (\<forall>r. r \<in># out_heap (heap (inner s)) \<longrightarrow> Q r)"

lemma reply_holds:
  assumes "holds_only Q s" and "api_reply E c s = Inr (ret, y, s')" and "\<And>r. posts c r \<Longrightarrow> Q r"
  shows "holds_only Q s' \<and> (\<forall>r. r \<in># reported [(c, ret, y)] \<longrightarrow> Q r)"
proof -
  obtain ps where ps: "list_all2 posts (accepted [(c, ret, y)]) ps" "backend_p s' = Some b"
    "moves (mset ps) (reported [(c, ret, y)]) (inner s) (inner s')" using assms(1,2) reply_moves by (metis holds_only_def)
  have "\<forall>r\<in>set ps. Q r" using ps(1) assms(3) by (auto simp: accepted_def list_all2_Cons1 split: if_splits)
  then show ?thesis using moves_elements [OF ps(3)] assms(1) ps(2) by (auto simp: holds_only_def)
qed

lemma idle_holds: "holds_only Q s \<Longrightarrow> idle E c d s = Inr s' \<Longrightarrow> holds_only Q s'"
  using reply_holds [of Q s E "Do_progress d"] by (fastforce simp: idle_def split: if_splits elim!: bind_resE)

lemma poll_holds:
  assumes "holds_only Q s" and "lcw_poll_cq E q out s = Inr (ret, r, s')"
  shows "holds_only Q s' \<and> (ret \<and> outgoing r \<longrightarrow> Q r)"
  using reply_holds [of Q s E "Poll_cq q out" ret "Some r" s'] assms by (auto simp: as_out_def)

lemma post_send_holds:
  assumes s: "holds_only Q s" and post: "post_send E c rand w buffer j s = Some (Inr s')"
    and op: "cf_op c = SEND \<or> cf_op c = PUT" and Q: "\<And>r. slot_request c w buffer j r \<Longrightarrow> Q r"
  shows "holds_only Q s'"
proof -
  obtain tag where tag: "get_tag c (wk_id w) (wk_iter w) j = Inr tag" and i: "is_int (wk_iter w + j)"
    using post by (auto simp: post_send_def c_int_def split: sum.splits if_splits elim!: bind_resE)
  let ?call = "if cf_op c = SEND then Send (wk_device w) (wk_peer w) tag (slot w buffer j) (wk_msg_size w) (wk_scq w) (ctx_of (wk_iter w + j))
                else Put (wk_device w) (wk_peer w) (slot w buffer j) (wk_msg_size w) (wk_scq w) (ctx_of (wk_iter w + j))"
  let ?f = "\<lambda>s. no_value (if cf_op c = SEND
                then lcw_send E (wk_device w) (wk_peer w) tag (slot w buffer j) (wk_msg_size w) (wk_scq w) (ctx_of (wk_iter w + j)) s
                else lcw_put E (wk_device w) (wk_peer w) (slot w buffer j) (wk_msg_size w) (wk_scq w) (ctx_of (wk_iter w + j)) s)"
  have call: "holds_only Q s'" if "holds_only Q s" "?f s = Inr (ret, x, s')" for s s' ret x
  proof -
    have "api_reply E ?call s = Inr (ret, None, s')" using that(2) by (auto simp: no_value_def split: if_splits elim!: bind_resE)
    then show ?thesis using reply_holds [OF that(1)] slot_request_posts [OF tag i op] Q by blast
  qed
  obtain s1 x where s1: "holds_only Q s1" and "retry ?f (idle E c (wk_device w)) s1 = Some (Inr (x, s'))"
  proof -
    have "holds_only Q (if cf_test_mode c then on_mem f s else s)" for f using s by (simp add: holds_only_def on_mem_def fresh_ok_def)
    then show ?thesis using post tag i that by (auto simp: post_send_def c_int_def Let_def elim!: bind_outE)
  qed
  then show ?thesis by (elim retry_returns [where I = "holds_only Q"]) (auto intro: call idle_holds)
qed

lemma poll_loop_holds:
  assumes "holds_only Q s" and "retry (lcw_poll_cq E q out) (idle E c d) s = Some (Inr (r, s'))"
  shows "holds_only Q s' \<and> (outgoing r \<longrightarrow> Q r)"
  using assms(2,1) by (rule retry_returns) (auto dest: poll_holds intro: idle_holds)

lemma wait_send_holds: "holds_only Q s \<Longrightarrow> wait_send E c w buffer out s = Some (Inr s') \<Longrightarrow> holds_only Q s'"
  by (auto simp: wait_send_def split: if_splits elim!: bind_outE bind_resE dest: poll_loop_holds)

lemma window_checks:
  assumes "backend_p s = Some b" "fresh_ok (inner s)" "out_heap (heap (inner s)) = {#}" and op: "cf_op c = SEND \<or> cf_op c = PUT"
    and range: "0 \<le> wk_iter w" "0 \<le> wk_msg_size w" "int buffer + n * wk_msg_size w < 2 ^ 64"
    and posted: "for_each (post_send E c rand w buffer) [0..n - 1] s = Some (Inr s1)"
    and waited: "for_each (\<lambda>_. wait_send E c w buffer out) js s1 = Some (Inr s2)"
    and r: "retry (lcw_poll_cq E q out) (idle E c d) s2 = Some (Inr (r, s3))" "outgoing r"
  shows "check_send c w buffer r = Inr ()"
proof -
  let ?Q = "\<lambda>r. \<exists>j. 0 \<le> j \<and> j < n \<and> slot_request c w buffer j r"
  have "holds_only ?Q s" using assms(1-3) by (simp add: holds_only_def)
  then have "holds_only ?Q s1" by (rule for_each_invariant [OF posted]) (rule post_send_holds [OF _ _ op], auto)
  then have "holds_only ?Q s2" by (rule for_each_invariant [OF waited]) (rule wait_send_holds)
  then obtain j where j: "0 \<le> j" "j < n" "slot_request c w buffer j r" using poll_loop_holds r by blast
  then have "j * wk_msg_size w \<le> n * wk_msg_size w" using range by (simp add: mult_right_mono)
  then show ?thesis using check_send_slot [OF j(3,1)] range by linarith
qed

end

end
