(* ===== verification/LCW_Gex.thy ===== *)
theory LCW_Gex
  imports LCW_Cq_Owners
begin

text \<open>
  The GASNet-EX backend (\<^verbatim>\<open>src/src/backend/gex/backend_gex.{hpp,cpp}\<close>): one-sided puts as medium
  active messages, whose handler on the target copies the payload out and signals the device with
  the index the message carries. GASNet-EX is the record \<open>gex_env\<close> of parameters over an abstract
  library state \<open>'g\<close>; every call that may poll returns the active messages that arrived meanwhile,
  and the handler runs for each of them.
\<close>

section \<open>GASNet-EX and the state of the backend\<close>

text \<open>An active message as its handler sees it: GASNet places the payload at \<open>am_buf\<close> first.\<close>

record am_request =
  am_src :: int
  am_buf :: ptr
  am_data :: "8 word list"
  am_arg :: int

record ('q, 'g) gex_env = "'q env" +
  GASNET_PAR :: bool
  GEX_AM_INDEX_BASE :: int
  gex_Client_Init :: "string \<Rightarrow> 'g \<Rightarrow> nat \<times> nat \<times> nat \<times> 'g"
  gex_System_QueryJobRank :: "'g \<Rightarrow> int"
  gex_System_QueryJobSize :: "'g \<Rightarrow> int"
  gex_EP_RegisterHandlers :: "nat \<Rightarrow> (int \<times> int) list \<Rightarrow> 'g \<Rightarrow> int \<times> 'g"
  gasnet_AMPoll :: "'g \<Rightarrow> int \<times> am_request list \<times> 'g"
  gex_AM_RequestMedium1 :: "nat \<Rightarrow> int \<Rightarrow> int \<Rightarrow> ptr \<Rightarrow> int \<Rightarrow> int \<Rightarrow> mem \<Rightarrow> 'g \<Rightarrow> int \<times> am_request list \<times> 'g"
  gex_AM_MaxRequestMedium :: "nat \<Rightarrow> int \<Rightarrow> 'g \<Rightarrow> int"
  gex_Coll_Barrier :: "nat \<Rightarrow> 'g \<Rightarrow> am_request list \<times> 'g"

record gex_device_t =
  gd_id :: int
  gd_comp :: ptr

text \<open>
  The globals of namespace \<^verbatim>\<open>gex_detail\<close>. The vector \<open>g_devices\<close> holds the pointers
  \<^verbatim>\<open>alloc_device\<close> made, and keeps them after \<^verbatim>\<open>free_device\<close>; \<open>gex_devices\<close> are the live objects.
\<close>

record ('q, 'g) gex_st = "'q rt" +
  glib :: 'g
  rank_me :: int
  rank_n :: int
  finalized :: bool
  gex_client :: nat
  gex_ep :: nat
  gex_tm :: nat
  g_allocator_copy :: "allocator_t option"
  g_devices :: "ptr list"
  gex_devices :: "ptr \<rightharpoonup> gex_device_t"

definition GASNET_OK :: int where
  "GASNET_OK = 0"

definition CHECK_GEX :: "int \<Rightarrow> unit res" where
  "CHECK_GEX err = (if err \<noteq> GASNET_OK then Inl (Exit err) else Inr ())"

definition clientName :: string where
  "clientName = ''LCW''"

definition gex_handler_idx :: "('q, 'g) gex_env \<Rightarrow> int" where
  "gex_handler_idx E = GEX_AM_INDEX_BASE E"

definition GEX_NARGS :: int where
  "GEX_NARGS = 1"

lemma CHECK_GEX_Inr [simp]: "CHECK_GEX err = Inr u \<longleftrightarrow> err = GASNET_OK"
  by (simp add: CHECK_GEX_def)

section \<open>The handler of active messages\<close>

definition gex_reqhandler ::
  "('q, 'g) gex_env \<Rightarrow> int \<Rightarrow> ptr \<Rightarrow> nat \<Rightarrow> int \<Rightarrow> ('q, 'g) gex_st \<Rightarrow> ('q, 'g) gex_st res" where
  "gex_reqhandler E rank buf nbytes device_idx s =
     (case g_allocator_copy s of None \<Rightarrow> Inl Bad_pointer
      | Some a \<Rightarrow>
          let buffer = allocate E a (int nbytes) (blocks s)
          in bind_res (lcw_assert (buffer \<noteq> nullptr) ''Out of memory'') (\<lambda>_.
             let s = s\<lparr>blocks := (buffer, nbytes) # blocks s, mem := memcpy buffer buf nbytes (mem s)\<rparr>
             in if \<not> (0 \<le> device_idx \<and> nat device_idx < length (g_devices s)) then Inl Undefined
                else
                  let device = g_devices s ! nat device_idx;
                      request = \<lparr>req_op = PUT_SIGNAL, req_device = device, req_rank = rank, req_tag = 0,
                                 req_buffer = buffer, req_length = to_int64 (int nbytes),
                                 req_user_context = nullptr\<rparr>;
                      s = pcounter_add E put_signal 1 s
                  in bind_res (deref (gex_devices s) device) (\<lambda>d.
                     util_signal_comp E (gd_comp d) request s)))"

text \<open>GASNet runs the handler for the messages that arrived, in order.\<close>

definition store_bytes :: "ptr \<Rightarrow> 8 word list \<Rightarrow> mem \<Rightarrow> mem" where
  "store_bytes a bs m = (\<lambda>p. if a \<le> p \<and> p < a + length bs then bs ! (p - a) else m p)"

fun run_ams :: "('q, 'g) gex_env \<Rightarrow> am_request list \<Rightarrow> ('q, 'g) gex_st \<Rightarrow> ('q, 'g) gex_st res" where
  "run_ams E [] s = Inr s"
| "run_ams E (am # ams) s =
     bind_res (gex_reqhandler E (am_src am) (am_buf am) (length (am_data am)) (am_arg am)
                 (s\<lparr>mem := store_bytes (am_buf am) (am_data am) (mem s)\<rparr>)) (run_ams E ams)"

section \<open>The methods of \<open>backend_gex_t\<close>\<close>

definition gex_barrier_all :: "('q, 'g) gex_env \<Rightarrow> ('q, 'g) gex_st \<Rightarrow> ('q, 'g) gex_st res" where
  "gex_barrier_all E s = (let (ams, l) = gex_Coll_Barrier E (gex_tm s) (glib s) in run_ams E ams (s\<lparr>glib := l\<rparr>))"

definition gex_construct :: "('q, 'g) gex_st \<Rightarrow> ('q, 'g) gex_st" where
  "gex_construct s = (let s = base_construct s in s\<lparr>g_allocator_copy := Some (m_allocator s)\<rparr>)"

definition gex_initialize :: "('q, 'g) gex_env \<Rightarrow> ('q, 'g) gex_st \<Rightarrow> ('q, 'g) gex_st res" where
  "gex_initialize E s =
     (let (c, ep, tm, l) = gex_Client_Init E clientName (glib s);
          s = s\<lparr>gex_client := c, gex_ep := ep, gex_tm := tm, glib := l\<rparr>
      in if \<not> GASNET_PAR E then Inl (Exception ''Need to use a par build of GASNet-EX'')
         else
           let s = s\<lparr>rank_me := gex_System_QueryJobRank E (glib s), rank_n := gex_System_QueryJobSize E (glib s),
                     finalized := False\<rparr>;
               (err, l) = gex_EP_RegisterHandlers E (gex_ep s) [(gex_handler_idx E, GEX_NARGS)] (glib s)
           in bind_res (CHECK_GEX err) (\<lambda>_. Inr (s\<lparr>glib := l\<rparr>)))"

text \<open>\<^verbatim>\<open>gasnet_exit(0)\<close> ends the process, so \<^verbatim>\<open>finalize\<close> does not return.\<close>

definition gex_finalize :: "('q, 'g) gex_env \<Rightarrow> ('q, 'g) gex_st \<Rightarrow> ('q, 'g) gex_st res" where
  "gex_finalize E s = bind_res (gex_barrier_all E s) (\<lambda>_. Inl (Exit 0))"

definition gex_get_rank :: "('q, 'g) gex_st \<Rightarrow> int" where
  "gex_get_rank s = rank_me s"

definition gex_get_nranks :: "('q, 'g) gex_st \<Rightarrow> int" where
  "gex_get_nranks s = rank_n s"

definition gex_alloc_device :: "int \<Rightarrow> ptr \<Rightarrow> ('q, 'g) gex_st \<Rightarrow> (ptr \<times> ('q, 'g) gex_st) res" where
  "gex_alloc_device max_put_length put_comp s =
     (let device = next_obj s;
          s = s\<lparr>next_obj := Suc device, g_devices := g_devices s @ [device]\<rparr>;
          d = \<lparr>gd_id = to_int (int (length (g_devices s)) - 1), gd_comp = put_comp\<rparr>
      in Inr (device, s\<lparr>gex_devices := (gex_devices s)(device \<mapsto> d)\<rparr>))"

definition gex_free_device :: "ptr \<Rightarrow> ('q, 'g) gex_st \<Rightarrow> ('q, 'g) gex_st res" where
  "gex_free_device device s =
     (if device = nullptr then Inr s
      else bind_res (deref (gex_devices s) device) (\<lambda>_.
           Inr (s\<lparr>gex_devices := (gex_devices s)(device := None)\<rparr>)))"

definition gex_do_progress :: "('q, 'g) gex_env \<Rightarrow> ptr \<Rightarrow> ('q, 'g) gex_st \<Rightarrow> (bool \<times> ('q, 'g) gex_st) res" where
  "gex_do_progress E device s =
     (let (err, ams, l) = gasnet_AMPoll E (glib s)
      in bind_res (run_ams E ams (s\<lparr>glib := l\<rparr>)) (\<lambda>s.
         bind_res (CHECK_GEX err) (\<lambda>_. Inr (False, s))))"

definition gex_send ::
  "ptr \<Rightarrow> int \<Rightarrow> int \<Rightarrow> ptr \<Rightarrow> int \<Rightarrow> ptr \<Rightarrow> ptr \<Rightarrow> ('q, 'g) gex_st \<Rightarrow> (bool \<times> ('q, 'g) gex_st) res" where
  "gex_send device rank tag buf len cmp user_context s = Inl (Exception ''send not implemented'')"

definition gex_recv ::
  "ptr \<Rightarrow> int \<Rightarrow> int \<Rightarrow> ptr \<Rightarrow> int \<Rightarrow> ptr \<Rightarrow> ptr \<Rightarrow> ('q, 'g) gex_st \<Rightarrow> (bool \<times> ('q, 'g) gex_st) res" where
  "gex_recv device rank tag buf len cmp user_context s = Inl (Exception ''recv not implemented'')"

definition gex_put ::
  "('q, 'g) gex_env \<Rightarrow> ptr \<Rightarrow> int \<Rightarrow> ptr \<Rightarrow> int \<Rightarrow> ptr \<Rightarrow> ptr \<Rightarrow> ('q, 'g) gex_st \<Rightarrow> (bool \<times> ('q, 'g) gex_st) res" where
  "gex_put E device rank buf len cmp user_context s =
     (let request = \<lparr>req_op = PUT, req_device = device, req_rank = rank, req_tag = 0,
                     req_buffer = buf, req_length = len, req_user_context = user_context\<rparr>
      in bind_res (deref (gex_devices s) device) (\<lambda>d.
         let (err, ams, l) = gex_AM_RequestMedium1 E (gex_tm s) (rank mod 2 ^ 32) (gex_handler_idx E) buf
                               (to_size len) (to_int (gd_id d)) (mem s) (glib s)
         in bind_res (run_ams E ams (s\<lparr>glib := l\<rparr>)) (\<lambda>s.
            bind_res (CHECK_GEX err) (\<lambda>_.
            bind_res (util_signal_comp E cmp request s) (\<lambda>s. Inr (True, s))))))"

definition gex_get_max_tag :: "('q, 'g) gex_env \<Rightarrow> ptr \<Rightarrow> ('q, 'g) gex_st \<Rightarrow> int res" where
  "gex_get_max_tag E device s = Inr (to_int64 (gex_AM_MaxRequestMedium E (gex_tm s) GEX_NARGS (glib s)))"

definition gex_barrier :: "('q, 'g) gex_env \<Rightarrow> ptr \<Rightarrow> ('q, 'g) gex_st \<Rightarrow> ('q, 'g) gex_st res" where
  "gex_barrier E device s = gex_barrier_all E s"

definition gex_set_custom_allocator :: "ptr \<Rightarrow> ('q, 'g) gex_st \<Rightarrow> ('q, 'g) gex_st" where
  "gex_set_custom_allocator allocator s =
     (base_set_custom_allocator allocator s)\<lparr>g_allocator_copy := Some (Alloc_custom allocator)\<rparr>"

definition backend_gex_t :: "('q, 'g) gex_env \<Rightarrow> ('q, 'g) gex_st backend_base_t" where
  "backend_gex_t E =
     \<lparr>get_backend = GEX, b_construct = gex_construct, b_initialize = gex_initialize E,
      b_finalize = gex_finalize E, b_get_rank = gex_get_rank, b_get_nranks = gex_get_nranks,
      b_alloc_device = gex_alloc_device, b_free_device = gex_free_device,
      b_do_progress = gex_do_progress E, b_send = gex_send, b_recv = gex_recv, b_put = gex_put E,
      b_get_max_tag = gex_get_max_tag E, b_barrier = gex_barrier E,
      b_alloc_handler = base_alloc_handler, b_free_handler = base_free_handler,
      b_alloc_cq = base_alloc_cq E, b_free_cq = base_free_cq, b_poll_cq = base_poll_cq E,
      b_set_custom_allocator = gex_set_custom_allocator\<rparr>"

section \<open>The invariant\<close>

text \<open>The table of devices: addresses are in use, and a live device carries its own index.\<close>

definition gex_table :: "('q, 'g) gex_st \<Rightarrow> bool" where
  "gex_table s \<longleftrightarrow>
     distinct (g_devices s) \<and> (\<forall>d\<in>set (g_devices s). 0 < d \<and> d < next_obj s) \<and>
     dom (gex_devices s) \<subseteq> set (g_devices s) \<and>
     (\<forall>i<length (g_devices s). \<forall>x. gex_devices s (g_devices s ! i) = Some x \<longrightarrow> gd_id x = to_int (int i))"

definition gex_inv :: "('q, 'g) gex_env \<Rightarrow> ('q \<Rightarrow> ptr list) \<Rightarrow> ('q, 'g) gex_st \<Rightarrow> bool" where
  "gex_inv E view s \<longleftrightarrow> cqs_inv E view s \<and> gex_table s"

lemma gex_invD: "gex_inv E view s \<Longrightarrow> cqs_inv E view s" "gex_inv E view s \<Longrightarrow> gex_table s"
  by (simp_all add: gex_inv_def)

lemma gex_tableE:
  assumes "gex_table s" and "i < length (g_devices s)" and "gex_devices s (g_devices s ! i) = Some x"
  shows "gd_id x = to_int (int i)"
  using assms by (simp add: gex_table_def)

lemma gex_table_frame:
  assumes "gex_table s" and "g_devices s' = g_devices s" "gex_devices s' = gex_devices s" "next_obj s \<le> next_obj s'"
  shows "gex_table s'"
proof -
  have "d < next_obj s'" if "d < next_obj s" for d using that assms(4) by (rule order.strict_trans2)
  then show ?thesis using assms(1-3) unfolding gex_table_def by simp
qed

lemma gex_inv_frame:
  assumes "gex_inv E view s" and "heap s' = heap s" "comps s' = comps s" "next_obj s' = next_obj s"
    "g_devices s' = g_devices s" "gex_devices s' = gex_devices s"
  shows "gex_inv E view s'"
  using assms by (auto simp: gex_inv_def intro: cqs_inv_frame gex_table_frame)

text \<open>What signals and completion objects leave alone.\<close>

lemma signal_gex_frame:
  fixes s :: "('q, 'g) gex_st"
  assumes "util_signal_comp E c r s = Inr s'"
  shows "g_devices s' = g_devices s" "gex_devices s' = gex_devices s" "next_obj s \<le> next_obj s'" "mem s' = mem s"
    "blocks s' = blocks s" "g_allocator_copy s' = g_allocator_copy s" "glib s' = glib s"
  using assms
  by (auto simp: util_signal_comp_def deref_eq_Inr comp_cq_signal_def comp_handler_signal_def new_request_def log_event_def
      split: comp_obj.splits elim!: bind_resE)

lemma gex_inv_signal:
  assumes "gex_inv E view s" and "util_signal_comp E c r s = Inr s'"
  shows "gex_inv E view s'"
  using assms signal_gex_frame(1-3) [OF assms(2)]
  by (auto simp: gex_inv_def intro: cqs_inv_signal gex_table_frame)

lemma gex_reqhandlerE:
  assumes "gex_reqhandler E rank p n i s = Inr s'"
  obtains a buf d x where "g_allocator_copy s = Some a" "buf = allocate E a (int n) (blocks s)" "buf \<noteq> nullptr"
    "0 \<le> i" "nat i < length (g_devices s)" "d = g_devices s ! nat i" "gex_devices s d = Some x"
    "util_signal_comp E (gd_comp x) \<lparr>req_op = PUT_SIGNAL, req_device = d, req_rank = rank, req_tag = 0,
       req_buffer = buf, req_length = to_int64 (int n), req_user_context = nullptr\<rparr>
       (pcounter_add E put_signal 1 (s\<lparr>blocks := (buf, n) # blocks s, mem := memcpy buf p n (mem s)\<rparr>)) = Inr s'"
  using assms that
  by (auto simp: gex_reqhandler_def Let_def deref_eq_Inr pcounter_add_def log_event_def
      split: option.splits if_splits elim!: bind_resE)

lemma gex_inv_reqhandler:
  assumes I: "gex_inv E view s" and h: "gex_reqhandler E rank p n i s = Inr s'"
  shows "gex_inv E view s'"
  using h
proof (rule gex_reqhandlerE, goal_cases)
  case (1 a buf d x)
  show ?case
    by (rule gex_inv_signal [OF gex_inv_frame [OF I] 1(8)]) (simp_all add: pcounter_add_def log_event_def)
qed

lemma gex_inv_run_ams: "gex_inv E view s \<Longrightarrow> run_ams E ams s = Inr s' \<Longrightarrow> gex_inv E view s'"
proof (induction ams arbitrary: s)
  case (Cons am ams)
  obtain s1 where s1: "gex_reqhandler E (am_src am) (am_buf am) (length (am_data am)) (am_arg am)
      (s\<lparr>mem := store_bytes (am_buf am) (am_data am) (mem s)\<rparr>) = Inr s1" "run_ams E ams s1 = Inr s'"
    using Cons.prems(2) by (auto elim!: bind_resE)
  have "gex_inv E view (s\<lparr>mem := store_bytes (am_buf am) (am_data am) (mem s)\<rparr>)"
    by (rule gex_inv_frame [OF Cons.prems(1)]) simp_all
  then show ?case using Cons.IH [OF gex_inv_reqhandler [OF _ s1(1)] s1(2)] by blast
qed simp

lemma gex_inv_call:
  assumes "gex_inv E view s" and "run_ams E ams (s\<lparr>glib := l\<rparr>) = Inr s'"
  shows "gex_inv E view s'"
  by (rule gex_inv_run_ams [OF gex_inv_frame [OF assms(1)] assms(2)]) simp_all

section \<open>The GASNet-EX backend meets the contract\<close>

lemma gex_inv_alloc_device:
  assumes I: "gex_inv E view s" and a: "gex_alloc_device n c s = Inr (d, s')"
  shows "gex_inv E view s'"
proof -
  let ?n = "next_obj s" and ?k = "length (g_devices s)"
  note T = gex_invD(2) [OF I]
  have s': "heap s' = heap s" "comps s' = comps s" "next_obj s' = Suc ?n" "g_devices s' = g_devices s @ [?n]"
    "gex_devices s' = (gex_devices s)(?n \<mapsto> \<lparr>gd_id = to_int (int ?k), gd_comp = c\<rparr>)"
    using a by (auto simp: gex_alloc_device_def Let_def)
  have n: "?n \<notin> set (g_devices s)" "0 < ?n"
    using T cqs_invD(2) [OF gex_invD(1) [OF I]] by (auto simp: gex_table_def)
  have ids: "gd_id x = to_int (int i)"
    if "i < Suc ?k" "gex_devices s' (g_devices s' ! i) = Some x" for i x
  proof (cases "i = ?k")
    case True
    then show ?thesis using that(2) by (auto simp: s')
  next
    case False
    then have i: "i < ?k" using that(1) by simp
    then have "g_devices s ! i \<noteq> ?n" using n(1) nth_mem by metis
    then show ?thesis using that i gex_tableE [OF T i] by (simp add: s' nth_append)
  qed
  have "gex_table s'" using T n ids unfolding gex_table_def s' by (auto simp: less_Suc_eq)
  moreover have "cqs_inv E view s'" by (rule cqs_inv_frame [OF gex_invD(1) [OF I]]) (simp_all add: s')
  ultimately show ?thesis by (simp add: gex_inv_def)
qed

lemma gex_inv_free_device:
  assumes I: "gex_inv E view s" and f: "gex_free_device d s = Inr s'"
  shows "gex_inv E view s'"
proof (cases "d = nullptr")
  case False
  then have s': "s' = s\<lparr>gex_devices := (gex_devices s)(d := None)\<rparr>"
    using f by (auto simp: gex_free_device_def elim!: bind_resE)
  have "gex_table s'" using gex_invD(2) [OF I] by (auto simp: gex_table_def s')
  moreover have "cqs_inv E view s'" by (rule cqs_inv_frame [OF gex_invD(1) [OF I]]) (simp_all add: s')
  ultimately show ?thesis by (simp add: gex_inv_def)
qed (use f I in \<open>simp add: gex_free_device_def\<close>)

lemma gex_inv_put:
  assumes I: "gex_inv E view s" and p: "gex_put E d rank buf len c ctx s = Inr (r, s')"
  shows "gex_inv E view s'"
proof -
  obtain ams l s1 q where "run_ams E ams (s\<lparr>glib := l\<rparr>) = Inr s1" "util_signal_comp E c q s1 = Inr s'"
    using p by (auto simp: gex_put_def Let_def split: prod.splits elim!: bind_resE)
  then show ?thesis using gex_inv_signal [OF gex_inv_call [OF I]] by blast
qed

lemma gex_inv_do_progress: "gex_inv E view s \<Longrightarrow> gex_do_progress E d s = Inr (r, s') \<Longrightarrow> gex_inv E view s'"
  by (auto simp: gex_do_progress_def split: prod.splits elim!: bind_resE intro: gex_inv_call)

lemma gex_inv_barrier: "gex_inv E view s \<Longrightarrow> gex_barrier E d s = Inr s' \<Longrightarrow> gex_inv E view s'"
  by (auto simp: gex_barrier_def gex_barrier_all_def split: prod.splits elim!: bind_resE intro: gex_inv_call)

text \<open>Completion objects are those of the base class; they do not touch the table.\<close>

lemma util_gex_frame:
  fixes s :: "('q, 'g) gex_st"
  shows "util_poll_cq E c out s = Inr (b, r, s') \<Longrightarrow> g_devices s' = g_devices s \<and> gex_devices s' = gex_devices s \<and> next_obj s' = next_obj s"
    and "util_free_cq c s = Inr s' \<Longrightarrow> g_devices s' = g_devices s \<and> gex_devices s' = gex_devices s \<and> next_obj s' = next_obj s"
    and "util_free_handler c s = Inr s' \<Longrightarrow> g_devices s' = g_devices s \<and> gex_devices s' = gex_devices s \<and> next_obj s' = next_obj s"
    and "new_comp x s = (c, s') \<Longrightarrow> g_devices s' = g_devices s \<and> gex_devices s' = gex_devices s \<and> next_obj s \<le> next_obj s'"
  by (auto simp: util_poll_cq_def comp_cq_poll_def delete_request_def util_free_cq_def util_free_handler_def new_comp_def Let_def
      split: comp_obj.splits prod.splits if_splits option.splits elim!: bind_resE)

definition gex_allowed :: "('q \<Rightarrow> ptr list) \<Rightarrow> api_call \<Rightarrow> ('q, 'g) gex_st \<Rightarrow> bool" where
  "gex_allowed view c s = (case c of Free_cq p \<Rightarrow> cq_ids view p s = [] | _ \<Rightarrow> True)"

interpretation gex_backend: backend_contract "backend_gex_t E" "gex_inv E view" "gex_allowed view"
  for E view
proof (unfold_locales, goal_cases)
  case (1 s t)
  then show ?case by (rule gex_inv_frame) simp_all
next
  case (5 s f c s')
  then have n: "new_comp (Comp_handler f) s = (c, s')"
    by (simp add: backend_gex_t_def base_alloc_handler_def util_alloc_handler_def)
  then show ?case using 5 cqs_inv_alloc_handler [of E view s f c s'] util_gex_frame(4) [OF n]
    by (auto simp: gex_inv_def util_alloc_handler_def intro: gex_table_frame)
next
  case (6 s c s')
  then have f: "util_free_handler c s = Inr s'" by (simp add: backend_gex_t_def base_free_handler_def)
  then show ?case using 6(1) cqs_inv_free_handler [OF _ f] util_gex_frame(3) [OF f]
    by (auto simp: gex_inv_def intro: gex_table_frame)
next
  case (7 s c s')
  then have a: "util_alloc_cq E 65536 s = (c, s')" by (simp add: backend_gex_t_def base_alloc_cq_def)
  show ?case using 7(1) cqs_inv_alloc_cq [OF _ a] util_gex_frame(4) [OF a [unfolded util_alloc_cq_def]]
    by (auto simp: gex_inv_def intro: gex_table_frame)
next
  case (8 s c s')
  then have f: "util_free_cq c s = Inr s'" "cq_ids view c s = []"
    by (simp_all add: backend_gex_t_def base_free_cq_def gex_allowed_def)
  then show ?case using 8(1) cqs_inv_free_cq [OF _ f(2,1)] util_gex_frame(2) [OF f(1)]
    by (auto simp: gex_inv_def intro: gex_table_frame)
next
  case (9 s c q r q' s')
  then have p: "util_poll_cq E c q s = Inr (r, q', s')" by (simp add: backend_gex_t_def base_poll_cq_def)
  show ?case using 9(1) cqs_inv_poll [OF _ p] util_gex_frame(1) [OF p]
    by (auto simp: gex_inv_def intro: gex_table_frame)
next
  case (14 s a)
  then show ?case
    by (intro gex_inv_frame [OF 14])
      (simp_all add: backend_gex_t_def gex_set_custom_allocator_def base_set_custom_allocator_def)
qed (auto simp: backend_gex_t_def gex_send_def gex_recv_def
    intro: gex_inv_alloc_device gex_inv_free_device gex_inv_do_progress gex_inv_put gex_inv_barrier)


section \<open>Properties\<close>

text \<open>The state before initialization: no objects and no devices.\<close>

definition gex_start :: "('q, 'g) gex_st \<Rightarrow> bool" where
  "gex_start s \<longleftrightarrow> heap s = Map.empty \<and> comps s = Map.empty \<and> 0 < next_obj s \<and> g_devices s = [] \<and> gex_devices s = Map.empty"

lemma gex_inv_start: "lct_queue_fifo E view \<Longrightarrow> gex_start s \<Longrightarrow> gex_inv E view s"
  by (simp add: gex_start_def gex_inv_def gex_table_def cqs_inv_def fresh_ok_def cq_ids_def partitioned_def)

lemma gex_inv_initialize:
  assumes I: "gex_inv E view s" and i: "gex_initialize E (gex_construct s) = Inr s'"
  shows "gex_inv E view s'"
  using i by (auto simp: gex_initialize_def gex_construct_def base_construct_def Let_def split: prod.splits if_splits elim!: bind_resE
      intro!: gex_inv_frame [OF I])

text \<open>C22: Any program over the public API of an LCW initialized with the GASNet-EX backend, freeing completion
  queues only when they are empty, leaves every \<^verbatim>\<open>request_t\<close> in exactly one place of exactly one
  completion queue, and every live device with its own position in the device table, which is
  what the active messages carry.\<close>

theorem gex_programs_own_requests:
  assumes "lct_queue_fifo E view" and "gex_start (inner s0)" and "class_of GEX = backend_gex_t E"
    and "lcw_initialize E getenv class_of GEX s0 = Inr s" and "api_run E (gex_allowed view) s cs s'"
  shows "partitioned (\<lambda>c. cq_ids view c (inner s')) (dom (heap (inner s'))) \<and>
    (\<forall>i<length (g_devices (inner s')). \<forall>x.
       gex_devices (inner s') (g_devices (inner s') ! i) = Some x \<longrightarrow> gd_id x = to_int (int i))"
proof -
  obtain x where x: "gex_initialize E (gex_construct (inner s0)) = Inr x"
    and s: "backend_p s = Some (backend_gex_t E)" "inner s = pcounter_initialize E x"
    using assms(3,4)
    by (auto simp: lcw_initialize_def alloc_backend_def backend_gex_t_def Let_def split: if_splits elim!: bind_resE)
  have "gex_inv E view x" by (rule gex_inv_initialize [OF gex_inv_start [OF assms(1,2)] x])
  then have "gex_inv E view (inner s)" unfolding s(2)
    by (rule gex_inv_frame) (simp_all add: pcounter_initialize_def fold_log_event del: fold.simps)
  from gex_backend.run_keeps [OF assms(5) s(1) this] have "gex_inv E view (inner s')" by blast
  then show ?thesis by (auto simp: gex_inv_def gex_table_def cqs_inv_def)
qed

text \<open>
  What the backend relies on of GASNet-EX: an accepted medium request is in flight to its target
  with the bytes of the buffer at the time of the call and the argument. \<open>in_flight l\<close> lists the
  messages a process has sent, with their targets.
\<close>

definition gasnet_carries :: "('q, 'g) gex_env \<Rightarrow> ('g \<Rightarrow> (int \<times> am_request) list) \<Rightarrow> bool" where
  "gasnet_carries E in_flight \<longleftrightarrow>
     (\<forall>tm rank h buf n arg m l ams l'.
        gex_AM_RequestMedium1 E tm rank h buf n arg m l = (GASNET_OK, ams, l') \<longrightarrow>
        (\<exists>src p. in_flight l' = in_flight l @
           [(rank, \<lparr>am_src = src, am_buf = p, am_data = bytes_at m buf (nat n), am_arg = arg\<rparr>)]))"

lemma bytes_at_store [simp]: "bytes_at (store_bytes a bs m) a (length bs) = bs"
  by (rule nth_equalityI) (simp_all add: bytes_at_def store_bytes_def)

lemma run_ams_glib: "run_ams E ams s = Inr s' \<Longrightarrow> glib s' = glib s"
proof (induction ams arbitrary: s)
  case (Cons am ams)
  then obtain s1 where "gex_reqhandler E (am_src am) (am_buf am) (length (am_data am)) (am_arg am)
      (s\<lparr>mem := store_bytes (am_buf am) (am_data am) (mem s)\<rparr>) = Inr s1" and r: "run_ams E ams s1 = Inr s'"
    by (auto elim!: bind_resE)
  then have "glib s1 = glib s"
    by (elim gex_reqhandlerE) (drule signal_gex_frame(7), simp add: pcounter_add_def log_event_def)
  then show ?case using Cons.IH [OF r] by simp
qed simp

lemma gex_reqhandler_delivers:
  assumes I: "gex_inv E view t" and i: "i < length (g_devices t)" "gex_devices t (g_devices t ! i) = Some y"
    and q: "is_cq (gd_comp y) t" and a: "g_allocator_copy t = Some a"
    and b: "b = allocate E a (int n) (blocks t)" "b \<noteq> nullptr"
  shows "\<exists>t'. gex_reqhandler E src p n (int i) t = Inr t' \<and> bytes_at (mem t') b n = bytes_at (mem t) p n \<and>
    cq_contents view (gd_comp y) t' = cq_contents view (gd_comp y) t @
      [\<lparr>req_op = PUT_SIGNAL, req_device = g_devices t ! i, req_rank = src, req_tag = 0, req_buffer = b,
        req_length = to_int64 (int n), req_user_context = nullptr\<rparr>]"
proof -
  let ?r = "\<lparr>req_op = PUT_SIGNAL, req_device = g_devices t ! i, req_rank = src, req_tag = 0, req_buffer = b,
        req_length = to_int64 (int n), req_user_context = nullptr\<rparr>"
  let ?t = "pcounter_add E put_signal 1 (t\<lparr>blocks := (b, n) # blocks t, mem := memcpy b p n (mem t)\<rparr>)"
  have fr: "heap ?t = heap t" "comps ?t = comps t" "next_obj ?t = next_obj t" "mem ?t = memcpy b p n (mem t)"
    "gex_devices ?t = gex_devices t"
    by (simp_all add: pcounter_add_def log_event_def)
  have "cq_inv E view (gd_comp y) ?t"
    using q by (intro cqs_inv_cq [OF cqs_inv_frame [OF gex_invD(1) [OF I]]]) (simp_all add: fr is_cq_def)
  from cq.signal_ok [OF this, of ?r] obtain t' where t': "util_signal_comp E (gd_comp y) ?r ?t = Inr t'"
    "cq_contents view (gd_comp y) t' = cq_contents view (gd_comp y) ?t @ [?r]" by blast
  have "gex_reqhandler E src p n (int i) t = Inr t'"
    using i a b t'(1) fr(5) by (simp add: gex_reqhandler_def Let_def)
  moreover have "bytes_at (mem t') b n = bytes_at (mem t) p n"
    using signal_gex_frame(4) [OF t'(1)] fr(4) by simp
  moreover have "cq_contents view (gd_comp y) ?t = cq_contents view (gd_comp y) t"
    by (simp add: cq_contents_def cq_ids_def fr)
  ultimately show ?thesis using t'(2) by auto
qed

text \<open>The fate of a put: one message in flight, and what its handler does at the target.\<close>

lemma gex_put_fate:
  assumes carries: "gasnet_carries E in_flight"
    and s: "gex_table s" "i < length (g_devices s)" "int i \<le> int_max"
    and put: "gex_put E (g_devices s ! i) rank buf len c ctx s = Inr (ret, s')"
    and len: "0 \<le> len" "len < 2 ^ 63"
  shows "ret \<and> (\<exists>am. in_flight (glib s') = in_flight (glib s) @ [(rank mod 2 ^ 32, am)] \<and>
    (\<forall>t y a b. gex_inv E view t \<and> i < length (g_devices t) \<and> gex_devices t (g_devices t ! i) = Some y \<and>
       is_cq (gd_comp y) t \<and> g_allocator_copy t = Some a \<and> b = allocate E a len (blocks t) \<and> b \<noteq> nullptr \<longrightarrow>
       (\<exists>t'. run_ams E [am] t = Inr t' \<and> bytes_at (mem t') b (nat len) = bytes_at (mem s) buf (nat len) \<and>
         cq_contents view (gd_comp y) t' = cq_contents view (gd_comp y) t @
           [\<lparr>req_op = PUT_SIGNAL, req_device = g_devices t ! i, req_rank = am_src am, req_tag = 0, req_buffer = b,
             req_length = len, req_user_context = nullptr\<rparr>])))"
proof -
  have z: "to_size len = len" "to_int64 len = len" using len by (simp_all add: is_int64_def)
  obtain x ams l s1 q where x: "gex_devices s (g_devices s ! i) = Some x"
    and rq: "gex_AM_RequestMedium1 E (gex_tm s) (rank mod 2 ^ 32) (gex_handler_idx E) buf len
               (to_int (gd_id x)) (mem s) (glib s) = (GASNET_OK, ams, l)"
    and run: "run_ams E ams (s\<lparr>glib := l\<rparr>) = Inr s1" and sg: "util_signal_comp E c q s1 = Inr s'" and ret
    using put by (auto simp: gex_put_def Let_def deref_eq_Inr z split: prod.splits elim!: bind_resE)
  have id: "to_int (gd_id x) = int i" using gex_tableE [OF s(1,2) x] s(3) by (simp add: is_int_def int_max_def)
  obtain src p where fl: "in_flight l = in_flight (glib s) @
      [(rank mod 2 ^ 32, \<lparr>am_src = src, am_buf = p, am_data = bytes_at (mem s) buf (nat len), am_arg = int i\<rparr>)]"
    using carries rq unfolding gasnet_carries_def id by blast
  have gl: "glib s' = l" using run_ams_glib [OF run] signal_gex_frame(7) [OF sg] by simp
  let ?am = "\<lparr>am_src = src, am_buf = p, am_data = bytes_at (mem s) buf (nat len), am_arg = int i\<rparr>"
  have "\<exists>t'. run_ams E [?am] t = Inr t' \<and> bytes_at (mem t') b (nat len) = bytes_at (mem s) buf (nat len) \<and>
      cq_contents view (gd_comp y) t' = cq_contents view (gd_comp y) t @
        [\<lparr>req_op = PUT_SIGNAL, req_device = g_devices t ! i, req_rank = src, req_tag = 0, req_buffer = b,
          req_length = len, req_user_context = nullptr\<rparr>]"
    if t: "gex_inv E view t" "i < length (g_devices t)" "gex_devices t (g_devices t ! i) = Some y"
      "is_cq (gd_comp y) t" "g_allocator_copy t = Some a" "b = allocate E a len (blocks t)" "b \<noteq> nullptr" for t y a b
  proof -
    let ?t = "t\<lparr>mem := store_bytes p (bytes_at (mem s) buf (nat len)) (mem t)\<rparr>"
    have I: "gex_inv E view ?t" by (rule gex_inv_frame [OF t(1)]) simp_all
    have "bytes_at (mem ?t) p (nat len) = bytes_at (mem s) buf (nat len)"
      using bytes_at_store [of p "bytes_at (mem s) buf (nat len)" "mem t"] by simp
    moreover have "cq_contents view (gd_comp y) ?t = cq_contents view (gd_comp y) t"
      by (simp add: cq_contents_def cq_ids_def)
    ultimately show ?thesis
      using gex_reqhandler_delivers [OF I, of i y a b "nat len" src p] t(2-7) len z by (auto simp: is_cq_def)
  qed
  then show ?thesis using fl gl \<open>ret\<close> by fastforce
qed

text \<open>C14: A put through the GASNet-EX backend arrives: when \<^verbatim>\<open>put\<close> on the \<open>i\<close>-th device returns true, one message
  to the target rank is in flight, and when the target runs the handler for it, the completion
  queue of the target's own \<open>i\<close>-th device receives one \<^verbatim>\<open>PUT_SIGNAL\<close> request whose fresh buffer
  holds exactly the bytes the source buffer had at the time of the put.\<close>

theorem gex_put_arrives:
  assumes carries: "gasnet_carries E in_flight"
    and s: "gex_table s" "i < length (g_devices s)" "int i \<le> int_max"
    and put: "gex_put E (g_devices s ! i) rank buf len c ctx s = Inr (ret, s')"
    and len: "0 \<le> len" "len < 2 ^ 63"
  shows "ret \<and> (\<exists>am. in_flight (glib s') = in_flight (glib s) @ [(rank mod 2 ^ 32, am)] \<and>
    (\<forall>t y a b. gex_inv E view t \<and> i < length (g_devices t) \<and> gex_devices t (g_devices t ! i) = Some y \<and>
       is_cq (gd_comp y) t \<and> g_allocator_copy t = Some a \<and> b = allocate E a len (blocks t) \<and> b \<noteq> nullptr \<longrightarrow>
       (\<exists>t'. run_ams E [am] t = Inr t' \<and> bytes_at (mem t') b (nat len) = bytes_at (mem s) buf (nat len) \<and>
         cq_contents view (gd_comp y) t' = cq_contents view (gd_comp y) t @
           [\<lparr>req_op = PUT_SIGNAL, req_device = g_devices t ! i, req_rank = am_src am, req_tag = 0, req_buffer = b,
             req_length = len, req_user_context = nullptr\<rparr>])))"
  by (rule gex_put_fate [OF assms])

text \<open>C40: The table keeps the pointer of a freed device: a put that arrives for a device that \<^verbatim>\<open>free_device\<close> has
  deleted makes the handler follow a dangling pointer.\<close>

theorem gex_put_to_freed_device:
  assumes "gex_table s" and "i < length (g_devices s)" and "gex_free_device (g_devices s ! i) s = Inr s'"
    and "am_arg am = int i" and "g_allocator_copy s = Some a"
    and "allocate E a (int (length (am_data am))) (blocks s) \<noteq> nullptr"
  shows "run_ams E (am # ams) s' = Inl Bad_pointer"
proof -
  have "g_devices s ! i \<noteq> nullptr" using assms(1,2) nth_mem [OF assms(2)] unfolding gex_table_def by auto
  then have "s' = s\<lparr>gex_devices := (gex_devices s)(g_devices s ! i := None)\<rparr>"
    using assms(3) by (auto simp: gex_free_device_def elim!: bind_resE)
  then show ?thesis using assms(2,4-6) by (simp add: gex_reqhandler_def Let_def pcounter_add_def log_event_def)
qed


section \<open>Instances\<close>

text \<open>A GASNet-EX of one process whose puts come back to it: sent messages wait for the next poll.\<close>

record ref_gasnet =
  sent :: "(int \<times> am_request) list"
  arrived :: "am_request list"

definition ref_gex :: "(ptr list, ref_gasnet) gex_env" where
  "ref_gex = env.extend (ref_env\<lparr>build := ref_build\<lparr>LCW_ENABLE_BACKEND_GEX := True, LCW_ENABLE_PCOUNTER := False\<rparr>\<rparr>)
     \<lparr>GASNET_PAR = True, GEX_AM_INDEX_BASE = 128, gex_Client_Init = (\<lambda>_ l. (1, 2, 3, l)),
      gex_System_QueryJobRank = (\<lambda>_. 0), gex_System_QueryJobSize = (\<lambda>_. 1),
      gex_EP_RegisterHandlers = (\<lambda>_ _ l. (GASNET_OK, l)),
      gasnet_AMPoll = (\<lambda>l. (GASNET_OK, arrived l, l\<lparr>arrived := []\<rparr>)),
      gex_AM_RequestMedium1 = (\<lambda>_ rank _ buf n arg m l.
        let am = \<lparr>am_src = 0, am_buf = 512, am_data = bytes_at m buf (nat n), am_arg = arg\<rparr>
        in (GASNET_OK, [], l\<lparr>sent := sent l @ [(rank, am)], arrived := arrived l @ [am]\<rparr>)),
      gex_AM_MaxRequestMedium = (\<lambda>_ _ _. 65536), gex_Coll_Barrier = (\<lambda>_ l. ([], l))\<rparr>"

lemma ref_gex_simps [simp]:
  "build ref_gex = ref_build\<lparr>LCW_ENABLE_BACKEND_GEX := True, LCW_ENABLE_PCOUNTER := False\<rparr>"
  "allocate ref_gex = (\<lambda>_ _ bs. Suc (sum_list (map (\<lambda>(a, n). a + n) bs)))"
  by (simp_all add: ref_gex_def ref_env_def env.defs)

lemma ref_gex_fifo: "lct_queue_fifo ref_gex (\<lambda>q. q)"
  by (simp add: lct_queue_fifo_def ref_gex_def ref_env_def env.defs)

lemma ref_gex_carries: "gasnet_carries ref_gex sent"
  by (simp add: gasnet_carries_def ref_gex_def env.defs Let_def)

definition ref_gex_st :: "(ptr list, ref_gasnet) gex_st" where
  "ref_gex_st = rt.extend (ref_rt\<lparr>mem := word_of_nat\<rparr>)
     \<lparr>glib = \<lparr>sent = [], arrived = []\<rparr>, rank_me = 0, rank_n = 0, finalized = False, gex_client = 0, gex_ep = 0,
      gex_tm = 0, g_allocator_copy = None, g_devices = [], gex_devices = Map.empty\<rparr>"

lemma ref_gex_start: "gex_start ref_gex_st"
  by (simp add: gex_start_def ref_gex_st_def ref_rt_def rt.defs)

definition ref_gex_class :: "backend_t \<Rightarrow> (ptr list, ref_gasnet) gex_st backend_base_t" where
  "ref_gex_class k = backend_gex_t ref_gex"

definition ref_gex_lcw :: "(ptr list, ref_gasnet) gex_st lcw_st" where
  "ref_gex_lcw = \<lparr>backend_p = None, inner = ref_gex_st, globals = spin_globals_init, lct_ready = False, log_ready = False, lct_rank = 0\<rparr>"

text \<open>A queue, a device, a put of three bytes to itself, and progress.\<close>

definition ref_gex_calls :: "api_call list" where
  "ref_gex_calls = [Alloc_cq, Alloc_device 64 1, Put 2 0 65 3 1 0, Do_progress 2]"

definition ref_gex_exec :: "(ptr list, ref_gasnet) gex_st lcw_st res" where
  "ref_gex_exec = bind_res (lcw_initialize ref_gex Map.empty ref_gex_class GEX ref_gex_lcw) (api_exec ref_gex ref_gex_calls)"

lemma ref_gex_runs:
  "case ref_gex_exec of Inl _ \<Rightarrow> False | Inr s \<Rightarrow>
     map req_op (cq_contents (\<lambda>q. q) 1 (inner s)) = [PUT, PUT_SIGNAL] \<and>
     bytes_at (mem (inner s)) (req_buffer (cq_contents (\<lambda>q. q) 1 (inner s) ! 1)) 3 = [65, 66, 67]"
  by code_simp


theorem gex_programs_own_requests_witness:
  "\<exists>s. ref_gex_exec = Inr s \<and> partitioned (\<lambda>c. cq_ids (\<lambda>q. q) c (inner s)) (dom (heap (inner s)))"
proof -
  obtain s s1 where s: "ref_gex_exec = Inr s"
    and s1: "lcw_initialize ref_gex Map.empty ref_gex_class GEX ref_gex_lcw = Inr s1" "api_exec ref_gex ref_gex_calls s1 = Inr s"
    using ref_gex_runs by (auto simp: ref_gex_exec_def split: sum.splits elim!: bind_resE)
  have al: "gex_allowed (\<lambda>q. q) c i" if "c \<in> set ref_gex_calls" for c and i :: "(ptr list, ref_gasnet) gex_st"
    using that by (auto simp: ref_gex_calls_def gex_allowed_def)
  have r: "api_run ref_gex (gex_allowed (\<lambda>q. q)) s1 ref_gex_calls s"
    using api_exec_run [OF al api_run.start s1(2)] by simp
  have "gex_start (inner ref_gex_lcw)" using ref_gex_start by (simp add: ref_gex_lcw_def)
  then show ?thesis using gex_programs_own_requests [OF ref_gex_fifo _ _ s1(1) r] s by (auto simp: ref_gex_class_def)
qed

text \<open>A queue and a device of the backend alone.\<close>

definition ref_gex_setup :: "(ptr list, ref_gasnet) gex_st res" where
  "ref_gex_setup =
     bind_res (gex_initialize ref_gex (gex_construct ref_gex_st)) (\<lambda>s.
     bind_res (base_alloc_cq ref_gex s) (\<lambda>(c, s).
     bind_res (gex_alloc_device 64 c s) (\<lambda>(d, s). Inr s)))"

lemma ref_gex_setup_runs:
  "case ref_gex_setup of Inl _ \<Rightarrow> False | Inr s \<Rightarrow>
     g_devices s = [2] \<and> map_option gd_comp (gex_devices s 2) = Some 1 \<and> is_cq 1 s \<and> g_allocator_copy s = Some Alloc_default \<and>
     blocks s = [] \<and> bytes_at (mem s) 65 3 = [65, 66, 67] \<and>
     (case gex_put ref_gex 2 0 65 3 1 0 s of Inl _ \<Rightarrow> False | Inr (ret, s') \<Rightarrow> map fst (sent (glib s')) = [0]) \<and>
     (case gex_free_device 2 s of Inl _ \<Rightarrow> False | Inr s' \<Rightarrow> True)"
  by code_simp

lemma ref_gex_setup_inv: "ref_gex_setup = Inr s \<Longrightarrow> gex_inv ref_gex (\<lambda>q. q) s"
proof -
  assume "ref_gex_setup = Inr s"
  then obtain s1 c s2 d where 1: "gex_initialize ref_gex (gex_construct ref_gex_st) = Inr s1"
    and 2: "base_alloc_cq ref_gex s1 = Inr (c, s2)" and 3: "gex_alloc_device 64 c s2 = Inr (d, s)"
    by (auto simp: ref_gex_setup_def elim!: bind_resE)
  have i1: "gex_inv ref_gex (\<lambda>q. q) s1"
    by (rule gex_inv_initialize [OF gex_inv_start [OF ref_gex_fifo ref_gex_start] 1])
  have "gex_inv ref_gex (\<lambda>q. q) s2"
    by (rule gex_backend.alloc_cq_keeps [OF i1]) (use 2 in \<open>simp add: backend_gex_t_def\<close>)
  then show ?thesis by (rule gex_inv_alloc_device [OF _ 3])
qed

lemma ref_gex_setupE:
  obtains s y where "ref_gex_setup = Inr s" "gex_inv ref_gex (\<lambda>q. q) s" "g_devices s = [2]" "gex_devices s 2 = Some y"
    "gd_comp y = 1" "is_cq 1 s" "g_allocator_copy s = Some Alloc_default" "blocks s = []" "bytes_at (mem s) 65 3 = [65, 66, 67]"
  using ref_gex_setup_runs ref_gex_setup_inv by (auto split: sum.splits)

theorem gex_put_arrives_witness:
  "\<exists>s ret s' am t'. ref_gex_setup = Inr s \<and> gex_put ref_gex 2 0 65 3 1 0 s = Inr (ret, s') \<and>
     sent (glib s') = sent (glib s) @ [(0, am)] \<and> run_ams ref_gex [am] s = Inr t' \<and> bytes_at (mem t') 1 3 = [65, 66, 67]"
proof -
  obtain s y where s: "ref_gex_setup = Inr s" "gex_inv ref_gex (\<lambda>q. q) s" "g_devices s = [2]" "gex_devices s 2 = Some y"
    "gd_comp y = 1" "is_cq 1 s" "g_allocator_copy s = Some Alloc_default" "blocks s = []" "bytes_at (mem s) 65 3 = [65, 66, 67]"
    by (rule ref_gex_setupE)
  obtain ret s' where p: "gex_put ref_gex (g_devices s ! 0) 0 65 3 1 0 s = Inr (ret, s')"
    using ref_gex_setup_runs [unfolded s(1)] s(3) by (auto split: sum.splits)
  have "0 < length (g_devices s)" "int 0 \<le> int_max" "(0::int) \<le> 3" "(3::int) < 2 ^ 63"
    using s(3) by (simp_all add: int_max_def)
  note arr = gex_put_arrives [where view = "\<lambda>q. q", OF ref_gex_carries gex_invD(2) [OF s(2)] this(1,2) p this(3,4)]
  then obtain am where am: "sent (glib s') = sent (glib s) @ [(0, am)]"
    and d: "\<And>t y a b. gex_inv ref_gex (\<lambda>q. q) t \<and> 0 < length (g_devices t) \<and> gex_devices t (g_devices t ! 0) = Some y \<and>
       is_cq (gd_comp y) t \<and> g_allocator_copy t = Some a \<and> b = allocate ref_gex a 3 (blocks t) \<and> b \<noteq> nullptr \<Longrightarrow>
       \<exists>t'. run_ams ref_gex [am] t = Inr t' \<and> bytes_at (mem t') b (nat 3) = bytes_at (mem s) 65 (nat 3)"
    by (auto simp del: ref_gex_simps run_ams.simps) blast
  have "\<exists>t'. run_ams ref_gex [am] s = Inr t' \<and> bytes_at (mem t') 1 (nat 3) = bytes_at (mem s) 65 (nat 3)"
    using s by (intro d [of s y Alloc_default 1]) simp
  then show ?thesis using s(1,3,9) p am by auto
qed

theorem gex_put_to_freed_device_witness:
  "\<exists>s s'. ref_gex_setup = Inr s \<and> gex_free_device 2 s = Inr s' \<and>
     run_ams ref_gex [\<lparr>am_src = 0, am_buf = 512, am_data = [7], am_arg = 0\<rparr>] s' = Inl Bad_pointer"
proof -
  obtain s y where s: "ref_gex_setup = Inr s" "gex_inv ref_gex (\<lambda>q. q) s" "g_devices s = [2]" "gex_devices s 2 = Some y"
    "gd_comp y = 1" "is_cq 1 s" "g_allocator_copy s = Some Alloc_default" "blocks s = []" "bytes_at (mem s) 65 3 = [65, 66, 67]"
    by (rule ref_gex_setupE)
  obtain s' where f: "gex_free_device 2 s = Inr s'" using ref_gex_setup_runs [unfolded s(1)] by (auto split: sum.splits)
  have "0 < length (g_devices s)" "gex_free_device (g_devices s ! 0) s = Inr s'" using s(3) f by simp_all
  from gex_put_to_freed_device [where am = "\<lparr>am_src = 0, am_buf = 512, am_data = [7], am_arg = 0\<rparr>" and ams = "[]",
      OF gex_invD(2) [OF s(2)] this _ s(7)]
  show ?thesis using s(1,8) f by auto
qed

end
