(* ===== verification/LCW_Contexts.thy ===== *)
theory LCW_Contexts
  imports LCW_Api
begin

text \<open>
  Ownership in a backend that hands its \<^verbatim>\<open>request_t\<close> objects to a communication library as the
  user contexts of the operations it posts (the LCI and LCI2 backends): the live requests are
  exactly the contexts the library still owes, each once. \<open>ctx_inv cs s\<close> says so for the list \<open>cs\<close>
  of contexts in the library's hands (and in those of a call that is under way).
\<close>

definition ctx_inv :: "ptr list \<Rightarrow> ('q, 'z) rt_scheme \<Rightarrow> bool" where
  "ctx_inv cs s \<longleftrightarrow> fresh_ok s \<and> partitioned (\<lambda>_ :: unit. cs) (dom (heap s))"

lemma ctx_invD:
  assumes "ctx_inv cs s"
  shows "fresh_ok s" "distinct cs" "set cs = dom (heap s)"
  using assms by (auto simp: ctx_inv_def partitioned_def)

lemma ctx_invI: "fresh_ok s \<Longrightarrow> distinct cs \<Longrightarrow> set cs = dom (heap s) \<Longrightarrow> ctx_inv cs s"
  by (auto simp: ctx_inv_def partitioned_def)

lemma ctx_inv_perm: "ctx_inv cs s \<Longrightarrow> mset cs' = mset cs \<Longrightarrow> ctx_inv cs' s"
  by (auto simp: ctx_inv_def intro: partitioned_permute [where i = "()" and owns = "\<lambda>_. cs", THEN partitioned_same])

lemma ctx_inv_comps:
  assumes "ctx_inv cs s" and "heap s' = heap s" "next_obj s \<le> next_obj s'"
    "dom (comps s') \<subseteq> dom (comps s) \<union> {next_obj s..<next_obj s'}"
  shows "ctx_inv cs s'"
proof -
  have "fresh_ok s'" by (rule fresh_ok_grow [OF ctx_invD(1) [OF assms(1)]]) (simp_all add: assms(2-4))
  then show ?thesis using assms(1,2) by (simp add: ctx_inv_def)
qed

lemma ctx_inv_frame:
  assumes "ctx_inv cs s" and "heap s' = heap s" "comps s' = comps s" "next_obj s \<le> next_obj s'"
  shows "ctx_inv cs s'"
  by (rule ctx_inv_comps [OF assms(1,2,4)]) (simp add: assms(3))

text \<open>A new request is in the hands of the call that made it.\<close>

lemma ctx_inv_new:
  assumes I: "ctx_inv cs s" and n: "new_request r s = (p, s')"
  shows "ctx_inv (p # cs) s'" and "heap s' p = Some r" and "p \<noteq> nullptr"
proof -
  note D = ctx_invD [OF I]
  have s': "p = next_obj s" "heap s' = (heap s)(p \<mapsto> r)" "comps s' = comps s" "next_obj s' = Suc (next_obj s)"
    using n by (auto simp: new_request_def)
  have "p \<notin> dom (heap s)" using D(1) s'(1) by (simp add: domIff)
  moreover have "fresh_ok s'" by (rule fresh_ok_grow [OF D(1)]) (auto simp: s')
  ultimately show "ctx_inv (p # cs) s'" using D by (intro ctx_invI) (simp_all add: s'(2))
  show "heap s' p = Some r" using s'(2) by simp
  show "p \<noteq> nullptr" using D(1) s'(1) by simp
qed

text \<open>Whoever holds a context can read it and delete it once.\<close>

lemma ctx_inv_live:
  assumes "ctx_inv (p # cs) s"
  obtains r where "heap s p = Some r"
  using ctx_invD(3) [OF assms] by (auto simp: dom_def)

lemma ctx_inv_delete:
  assumes I: "ctx_inv (p # cs) s"
  shows "\<exists>s'. delete_request p s = Inr s' \<and> s' = s\<lparr>heap := (heap s)(p := None)\<rparr> \<and> ctx_inv cs s'"
proof -
  note D = ctx_invD [OF I]
  let ?s = "s\<lparr>heap := (heap s)(p := None)\<rparr>"
  obtain r where "heap s p = Some r" by (rule ctx_inv_live [OF I])
  moreover have "fresh_ok ?s" by (rule fresh_ok_grow [OF D(1)]) auto
  then have "ctx_inv cs ?s" using D(2,3) by (intro ctx_invI) auto
  ultimately show ?thesis by simp
qed

lemma ctx_inv_deleted:
  assumes "ctx_inv (p # cs) s" and "delete_request p s = Inr s'"
  shows "ctx_inv cs s'"
  using ctx_inv_delete [OF assms(1)] assms(2) by auto

text \<open>Completion objects hold no request in these backends.\<close>

lemma ctx_inv_new_comp: "ctx_inv cs s \<Longrightarrow> new_comp x s = (c, s') \<Longrightarrow> ctx_inv cs s'"
  by (erule ctx_inv_comps) (auto simp: new_comp_def)

lemma ctx_inv_free_handler: "ctx_inv cs s \<Longrightarrow> util_free_handler c s = Inr s' \<Longrightarrow> ctx_inv cs s'"
  by (erule ctx_inv_comps)
    (auto simp: util_free_handler_def split: if_splits comp_obj.splits elim!: bind_resE)


text \<open>
  What posting an operation with request \<open>r\<close> does, from contexts \<open>h\<close> to \<open>h'\<close>: accepted, one new live
  request is in the library's hands; not accepted, nothing has changed.
\<close>

definition hands_over ::
  "ptr list \<Rightarrow> ptr list \<Rightarrow> request_t \<Rightarrow> bool \<Rightarrow> ('q, 'z) rt_scheme \<Rightarrow> ('q, 'z) rt_scheme \<Rightarrow> bool" where
  "hands_over h h' r ret s s' \<longleftrightarrow>
     (if ret then \<exists>p. heap s p = None \<and> heap s' = (heap s)(p \<mapsto> r) \<and> mset h' = add_mset p (mset h)
      else heap s' = heap s \<and> mset h' = mset h)"

end
