(* ===== verification/LCW_Lci.thy ===== *)
theory LCW_Lci
  imports LCW_Contexts
begin

text \<open>
  The LCI backend (\<^verbatim>\<open>src/src/backend/lci/backend_lci.{hpp,cpp}\<close>). LCI is the record \<open>lci_env\<close> of
  parameters over an abstract library state \<open>'l\<close>. Each operation hands a new \<^verbatim>\<open>request_t\<close> to LCI as
  the user context, takes it back when LCI does not accept the operation, and \<^verbatim>\<open>poll_cq\<close> takes it
  back when LCI reports the completion; a completion without a context is an incoming put.
\<close>

section \<open>LCI and the state of the backend\<close>

datatype lci_error_t = LCI_OK | LCI_ERR_RETRY | LCI_ERR int

datatype lci_port_t = LCI_PORT_COMMAND | LCI_PORT_MESSAGE

datatype lci_comp_type_t = LCI_COMPLETION_QUEUE | LCI_COMPLETION_other int

datatype lci_match_t = LCI_MATCH_RANKTAG | LCI_MATCH_TAG

datatype lci_data_type_t = LCI_IMMEDIATE | LCI_MEDIUM | LCI_LONG

record lci_mbuffer_t =
  mb_address :: ptr
  mb_length :: int

text \<open>\<open>LCI_SEGMENT_ALL\<close> is the only segment used, so a long buffer is also an address and a length.\<close>

record lci_lbuffer_t =
  lb_address :: ptr
  lb_length :: int

record lci_request_t =
  lr_rank :: int
  lr_tag :: int
  lr_type :: lci_data_type_t
  lr_mbuffer :: lci_mbuffer_t
  lr_lbuffer :: lci_lbuffer_t
  lr_user_context :: ptr

record ('q, 'l) lci_env = "'q env" +
  LCW_CACHE_LINE :: int
  LCI_MEDIUM_SIZE :: int
  LCI_MAX_TAG :: int
  LCI_UR_DEVICE :: nat
  LCI_RANK :: "'l \<Rightarrow> int"
  LCI_NUM_PROCESSES :: "'l \<Rightarrow> int"
  LCI_initialize :: "'l \<Rightarrow> lci_error_t \<times> 'l"
  LCI_finalize :: "'l \<Rightarrow> lci_error_t \<times> 'l"
  LCI_device_init :: "'l \<Rightarrow> lci_error_t \<times> nat \<times> 'l"
  LCI_device_free :: "nat \<Rightarrow> 'l \<Rightarrow> lci_error_t \<times> 'l"
  LCI_plist_create :: "'l \<Rightarrow> lci_error_t \<times> nat \<times> 'l"
  LCI_plist_set_comp_type :: "nat \<Rightarrow> lci_port_t \<Rightarrow> lci_comp_type_t \<Rightarrow> 'l \<Rightarrow> lci_error_t \<times> 'l"
  LCI_plist_set_match_type :: "nat \<Rightarrow> lci_match_t \<Rightarrow> 'l \<Rightarrow> lci_error_t \<times> 'l"
  LCI_plist_set_default_comp :: "nat \<Rightarrow> ptr \<Rightarrow> 'l \<Rightarrow> lci_error_t \<times> 'l"
  LCI_plist_free :: "nat \<Rightarrow> 'l \<Rightarrow> lci_error_t \<times> 'l"
  LCI_endpoint_init :: "nat \<Rightarrow> nat \<Rightarrow> 'l \<Rightarrow> lci_error_t \<times> nat \<times> 'l"
  LCI_endpoint_free :: "nat \<Rightarrow> 'l \<Rightarrow> lci_error_t \<times> 'l"
  LCI_progress :: "nat \<Rightarrow> mem \<Rightarrow> 'l \<Rightarrow> mem \<times> 'l"
  LCI_queue_create :: "'l \<Rightarrow> ptr \<times> 'l"
  LCI_queue_free :: "ptr \<Rightarrow> 'l \<Rightarrow> 'l"
  LCI_queue_pop :: "ptr \<Rightarrow> 'l \<Rightarrow> lci_error_t \<times> lci_request_t \<times> 'l"
  LCI_mbuffer_free :: "lci_mbuffer_t \<Rightarrow> 'l \<Rightarrow> 'l"
  LCI_sendmc :: "nat \<Rightarrow> lci_mbuffer_t \<Rightarrow> int \<Rightarrow> int \<Rightarrow> ptr \<Rightarrow> ptr \<Rightarrow> mem \<Rightarrow> 'l \<Rightarrow> lci_error_t \<times> 'l"
  LCI_sendl :: "nat \<Rightarrow> lci_lbuffer_t \<Rightarrow> int \<Rightarrow> int \<Rightarrow> ptr \<Rightarrow> ptr \<Rightarrow> mem \<Rightarrow> 'l \<Rightarrow> lci_error_t \<times> 'l"
  LCI_recvm :: "nat \<Rightarrow> lci_mbuffer_t \<Rightarrow> int \<Rightarrow> int \<Rightarrow> ptr \<Rightarrow> ptr \<Rightarrow> mem \<Rightarrow> 'l \<Rightarrow> lci_error_t \<times> 'l"
  LCI_recvl :: "nat \<Rightarrow> lci_lbuffer_t \<Rightarrow> int \<Rightarrow> int \<Rightarrow> ptr \<Rightarrow> ptr \<Rightarrow> mem \<Rightarrow> 'l \<Rightarrow> lci_error_t \<times> 'l"
  LCI_putmac :: "nat \<Rightarrow> lci_mbuffer_t \<Rightarrow> int \<Rightarrow> int \<Rightarrow> ptr \<Rightarrow> ptr \<Rightarrow> mem \<Rightarrow> 'l \<Rightarrow> lci_error_t \<times> 'l"
  LCI_putla :: "nat \<Rightarrow> lci_lbuffer_t \<Rightarrow> ptr \<Rightarrow> int \<Rightarrow> int \<Rightarrow> ptr \<Rightarrow> mem \<Rightarrow> 'l \<Rightarrow> lci_error_t \<times> 'l"
  LCI_barrier :: "'l \<Rightarrow> lci_error_t \<times> 'l"
  posix_memalign :: "int \<Rightarrow> int \<Rightarrow> (ptr \<times> nat) list \<Rightarrow> int \<times> ptr"

record lci_device_t =
  ld_id :: int
  ld_device :: nat
  ld_ep :: nat

record ('q, 'l) lci_st = "'q rt" +
  llib :: 'l
  lci_devices :: "ptr \<rightharpoonup> lci_device_t"
  lci_ndevices :: int

text \<open>\<^verbatim>\<open>LCI_SAFECALL\<close> around a call that changes the library state only.\<close>

definition LCI_SAFECALL :: "lci_error_t \<times> 'l \<Rightarrow> 'l res" where
  "LCI_SAFECALL r = (if fst r = LCI_OK then Inr (snd r) else Inl (Assert_failed ''LCI call failed''))"

definition lci_safe :: "('l \<Rightarrow> lci_error_t \<times> 'l) \<Rightarrow> ('q, 'l) lci_st \<Rightarrow> ('q, 'l) lci_st res" where
  "lci_safe f s = bind_res (LCI_SAFECALL (f (llib s))) (\<lambda>l. Inr (s\<lparr>llib := l\<rparr>))"

definition lci_safe_handle ::
  "('l \<Rightarrow> lci_error_t \<times> nat \<times> 'l) \<Rightarrow> ('q, 'l) lci_st \<Rightarrow> (nat \<times> ('q, 'l) lci_st) res" where
  "lci_safe_handle f s =
     (let (err, h, l) = f (llib s) in bind_res (LCI_SAFECALL (err, l)) (\<lambda>l. Inr (h, s\<lparr>llib := l\<rparr>)))"

section \<open>The methods of \<open>backend_lci_t\<close>\<close>

definition lci_initialize :: "('q, 'l) lci_env \<Rightarrow> ('q, 'l) lci_st \<Rightarrow> ('q, 'l) lci_st res" where
  "lci_initialize E s = lci_safe (LCI_initialize E) s"

definition lci_finalize :: "('q, 'l) lci_env \<Rightarrow> ('q, 'l) lci_st \<Rightarrow> ('q, 'l) lci_st res" where
  "lci_finalize E s = lci_safe (LCI_finalize E) s"

definition lci_get_rank :: "('q, 'l) lci_env \<Rightarrow> ('q, 'l) lci_st \<Rightarrow> int" where
  "lci_get_rank E s = LCI_RANK E (llib s)"

definition lci_get_nranks :: "('q, 'l) lci_env \<Rightarrow> ('q, 'l) lci_st \<Rightarrow> int" where
  "lci_get_nranks E s = LCI_NUM_PROCESSES E (llib s)"

text \<open>The endpoint of a device, made with the put completion as its default queue.\<close>

definition lci_make_endpoint ::
  "('q, 'l) lci_env \<Rightarrow> nat \<Rightarrow> ptr \<Rightarrow> ('q, 'l) lci_st \<Rightarrow> (nat \<times> ('q, 'l) lci_st) res" where
  "lci_make_endpoint E dev put_comp s =
     bind_res (lci_safe_handle (LCI_plist_create E) s) (\<lambda>(plist, s).
     bind_res (lci_safe (LCI_plist_set_comp_type E plist LCI_PORT_COMMAND LCI_COMPLETION_QUEUE) s) (\<lambda>s.
     bind_res (lci_safe (LCI_plist_set_comp_type E plist LCI_PORT_MESSAGE LCI_COMPLETION_QUEUE) s) (\<lambda>s.
     bind_res (lci_safe (LCI_plist_set_match_type E plist LCI_MATCH_RANKTAG) s) (\<lambda>s.
     bind_res (lci_safe (LCI_plist_set_default_comp E plist put_comp) s) (\<lambda>s.
     bind_res (lci_safe_handle (LCI_endpoint_init E dev plist) s) (\<lambda>(ep, s).
     bind_res (lci_safe (LCI_plist_free E plist) s) (\<lambda>s. Inr (ep, s))))))))"

definition lci_alloc_device ::
  "('q, 'l) lci_env \<Rightarrow> int \<Rightarrow> ptr \<Rightarrow> ('q, 'l) lci_st \<Rightarrow> (ptr \<times> ('q, 'l) lci_st) res" where
  "lci_alloc_device E max_put_length put_comp s =
     bind_res (lcw_assert (max_put_length \<le> LCI_MEDIUM_SIZE E) ''the put length is too large!'') (\<lambda>_.
     let device = next_obj s;
         ident = lci_ndevices s;
         s = s\<lparr>next_obj := Suc device, lci_ndevices := to_int (ident + 1)\<rparr>
     in bind_res (if ident = 0 then Inr (LCI_UR_DEVICE E, s) else lci_safe_handle (LCI_device_init E) s) (\<lambda>(dev, s).
        bind_res (lci_make_endpoint E dev put_comp s) (\<lambda>(ep, s).
        Inr (device, s\<lparr>lci_devices := (lci_devices s)(device \<mapsto> \<lparr>ld_id = ident, ld_device = dev, ld_ep = ep\<rparr>)\<rparr>))))"

text \<open>The device object itself is not deleted.\<close>

definition lci_free_device :: "('q, 'l) lci_env \<Rightarrow> ptr \<Rightarrow> ('q, 'l) lci_st \<Rightarrow> ('q, 'l) lci_st res" where
  "lci_free_device E device s =
     bind_res (deref (lci_devices s) device) (\<lambda>d.
     bind_res (lci_safe (LCI_endpoint_free E (ld_ep d)) s) (\<lambda>s.
     if ld_id d \<noteq> 0 then lci_safe (LCI_device_free E (ld_device d)) s else Inr s))"

definition lci_do_progress :: "('q, 'l) lci_env \<Rightarrow> ptr \<Rightarrow> ('q, 'l) lci_st \<Rightarrow> (bool \<times> ('q, 'l) lci_st) res" where
  "lci_do_progress E device s =
     bind_res (deref (lci_devices s) device) (\<lambda>d.
       let (m, l) = LCI_progress E (ld_device d) (mem s) (llib s)
       in Inr (False, s\<lparr>mem := m, llib := l\<rparr>))"

definition lci_alloc_cq :: "('q, 'l) lci_env \<Rightarrow> ('q, 'l) lci_st \<Rightarrow> (ptr \<times> ('q, 'l) lci_st) res" where
  "lci_alloc_cq E s = (let (cq, l) = LCI_queue_create E (llib s) in Inr (cq, s\<lparr>llib := l\<rparr>))"

definition lci_free_cq :: "('q, 'l) lci_env \<Rightarrow> ptr \<Rightarrow> ('q, 'l) lci_st \<Rightarrow> ('q, 'l) lci_st res" where
  "lci_free_cq E cmp s = Inr (s\<lparr>llib := LCI_queue_free E cmp (llib s)\<rparr>)"

text \<open>A completion without a context: the put is copied into aligned memory of its own.\<close>

definition lci_put_signal ::
  "('q, 'l) lci_env \<Rightarrow> lci_request_t \<Rightarrow> ('q, 'l) lci_st \<Rightarrow> (request_t \<times> ('q, 'l) lci_st) res" where
  "lci_put_signal E lci_req s =
     (let n = mb_length (lr_mbuffer lci_req);
          (mem_ret, buffer) = posix_memalign E (LCW_CACHE_LINE E) n (blocks s)
      in bind_res (lcw_assert (mem_ret = 0) ''posix_memalign failed!'') (\<lambda>_.
         let s = s\<lparr>blocks := (buffer, nat n) # blocks s,
                   mem := memcpy buffer (mb_address (lr_mbuffer lci_req)) (nat n) (mem s)\<rparr>
         in Inr (\<lparr>req_op = PUT_SIGNAL, req_device = nullptr, req_rank = lr_rank lci_req, req_tag = lr_tag lci_req,
                  req_buffer = buffer, req_length = to_int64 n, req_user_context = nullptr\<rparr>,
                 s\<lparr>llib := LCI_mbuffer_free E (lr_mbuffer lci_req) (llib s)\<rparr>)))"

definition lci_context_done ::
  "lci_request_t \<Rightarrow> ('q, 'l) lci_st \<Rightarrow> (request_t \<times> ('q, 'l) lci_st) res" where
  "lci_context_done lci_req s =
     bind_res (deref (heap s) (lr_user_context lci_req)) (\<lambda>r.
     bind_res (delete_request (lr_user_context lci_req) s) (\<lambda>s.
     Inr (if req_op r = RECV \<or> req_op r = PUT_SIGNAL
          then (if lr_type lci_req = LCI_MEDIUM
                then r\<lparr>req_length := to_int64 (mb_length (lr_mbuffer lci_req))\<rparr>
                else r\<lparr>req_length := to_int64 (lb_length (lr_lbuffer lci_req))\<rparr>, s)
          else (r, s))))"

text \<open>The counter of each kind of completion, as in the switch at the end of \<^verbatim>\<open>poll_cq\<close>.\<close>

definition end_counter :: "op_t \<Rightarrow> pcounter_handle" where
  "end_counter op =
     (case op of SEND \<Rightarrow> send_end | RECV \<Rightarrow> recv_end | PUT \<Rightarrow> put_end | PUT_SIGNAL \<Rightarrow> put_signal)"

text \<open>Only \<open>LCI_ERR_RETRY\<close> is checked; after another error \<^verbatim>\<open>lci_req\<close> is not initialised.\<close>

definition lci_poll_cq ::
  "('q, 'l) lci_env \<Rightarrow> ptr \<Rightarrow> request_t \<Rightarrow> ('q, 'l) lci_st \<Rightarrow> (bool \<times> request_t \<times> ('q, 'l) lci_st) res" where
  "lci_poll_cq E cmp request s =
     (let (ret, lci_req, l) = LCI_queue_pop E cmp (llib s);
          s = s\<lparr>llib := l\<rparr>
      in if ret = LCI_ERR_RETRY then Inr (False, request, s)
         else if ret \<noteq> LCI_OK then Inl Uninit_read
         else bind_res (if lr_user_context lci_req = nullptr then lci_put_signal E lci_req s
                        else lci_context_done lci_req s) (\<lambda>(request, s).
              Inr (True, request, pcounter_add E (end_counter (req_op request)) 1 s)))"

text \<open>
  The end of \<^verbatim>\<open>send\<close> and \<^verbatim>\<open>put\<close> (with the debug assertion on the error code) and of \<^verbatim>\<open>recv\<close> (without):
  the request is deleted unless LCI accepted the operation.
\<close>

definition lci_posted ::
  "('q, 'l) lci_env \<Rightarrow> bool \<Rightarrow> ptr \<Rightarrow> lci_error_t \<times> 'l \<Rightarrow> ('q, 'l) lci_st \<Rightarrow> (bool \<times> ('q, 'l) lci_st) res" where
  "lci_posted E dbg_assert req_p r s =
     (let (ret, l) = r; s = s\<lparr>llib := l\<rparr>
      in bind_res (lcw_assert (\<not> (LCW_DEBUG (build E) \<and> dbg_assert) \<or> ret = LCI_OK \<or> ret = LCI_ERR_RETRY)
                     ''Unexpected return value'') (\<lambda>_.
         bind_res (if ret \<noteq> LCI_OK then delete_request req_p s else Inr s) (\<lambda>s.
         Inr (ret = LCI_OK, s))))"

definition lci_send ::
  "('q, 'l) lci_env \<Rightarrow> ptr \<Rightarrow> int \<Rightarrow> int \<Rightarrow> ptr \<Rightarrow> int \<Rightarrow> ptr \<Rightarrow> ptr \<Rightarrow> ('q, 'l) lci_st \<Rightarrow>
   (bool \<times> ('q, 'l) lci_st) res" where
  "lci_send E device rank tag buf len cmp user_context s =
     (let (req_p, s) = new_request
            \<lparr>req_op = SEND, req_device = device, req_rank = rank, req_tag = tag,
             req_buffer = buf, req_length = len, req_user_context = user_context\<rparr> s
      in bind_res (deref (lci_devices s) device) (\<lambda>d.
         if len \<le> LCI_MEDIUM_SIZE E then
           lci_posted E True req_p (LCI_sendmc E (ld_ep d) \<lparr>mb_address = buf, mb_length = to_size len\<rparr>
             (to_int rank) tag cmp req_p (mem s) (llib s)) s
         else
           lci_posted E True req_p (LCI_sendl E (ld_ep d) \<lparr>lb_address = buf, lb_length = to_size len\<rparr>
             (to_int rank) tag cmp req_p (mem s) (llib s)) s))"

definition lci_recv ::
  "('q, 'l) lci_env \<Rightarrow> ptr \<Rightarrow> int \<Rightarrow> int \<Rightarrow> ptr \<Rightarrow> int \<Rightarrow> ptr \<Rightarrow> ptr \<Rightarrow> ('q, 'l) lci_st \<Rightarrow>
   (bool \<times> ('q, 'l) lci_st) res" where
  "lci_recv E device rank tag buf len cmp user_context s =
     (let (req_p, s) = new_request
            \<lparr>req_op = RECV, req_device = device, req_rank = rank, req_tag = tag,
             req_buffer = buf, req_length = len, req_user_context = user_context\<rparr> s
      in bind_res (deref (lci_devices s) device) (\<lambda>d.
         if len \<le> LCI_MEDIUM_SIZE E then
           lci_posted E False req_p (LCI_recvm E (ld_ep d) \<lparr>mb_address = buf, mb_length = to_size len\<rparr>
             (to_int rank) tag cmp req_p (mem s) (llib s)) s
         else
           lci_posted E False req_p (LCI_recvl E (ld_ep d) \<lparr>lb_address = buf, lb_length = to_size len\<rparr>
             (to_int rank) tag cmp req_p (mem s) (llib s)) s))"

text \<open>Puts go to \<^verbatim>\<open>LCI_DEFAULT_COMP_REMOTE\<close>, the queue the target's endpoint was made with.\<close>

definition lci_put ::
  "('q, 'l) lci_env \<Rightarrow> ptr \<Rightarrow> int \<Rightarrow> ptr \<Rightarrow> int \<Rightarrow> ptr \<Rightarrow> ptr \<Rightarrow> ('q, 'l) lci_st \<Rightarrow>
   (bool \<times> ('q, 'l) lci_st) res" where
  "lci_put E device rank buf len cmp user_context s =
     (let (req_p, s) = new_request
            \<lparr>req_op = PUT, req_device = device, req_rank = rank, req_tag = 0,
             req_buffer = buf, req_length = len, req_user_context = user_context\<rparr> s
      in bind_res (deref (lci_devices s) device) (\<lambda>d.
         if len \<le> LCI_MEDIUM_SIZE E then
           lci_posted E True req_p (LCI_putmac E (ld_ep d) \<lparr>mb_address = buf, mb_length = to_size len\<rparr>
             (to_int rank) 0 cmp req_p (mem s) (llib s)) s
         else
           lci_posted E True req_p (LCI_putla E (ld_ep d) \<lparr>lb_address = buf, lb_length = to_size len\<rparr>
             cmp (to_int rank) 0 req_p (mem s) (llib s)) s))"

definition lci_get_max_tag :: "('q, 'l) lci_env \<Rightarrow> ptr \<Rightarrow> ('q, 'l) lci_st \<Rightarrow> int res" where
  "lci_get_max_tag E device s = Inr (LCI_MAX_TAG E)"

definition lci_barrier :: "('q, 'l) lci_env \<Rightarrow> ptr \<Rightarrow> ('q, 'l) lci_st \<Rightarrow> ('q, 'l) lci_st res" where
  "lci_barrier E device s = lci_safe (LCI_barrier E) s"

definition backend_lci_t :: "('q, 'l) lci_env \<Rightarrow> ('q, 'l) lci_st backend_base_t" where
  "backend_lci_t E =
     \<lparr>get_backend = LCI, b_construct = base_construct, b_initialize = lci_initialize E,
      b_finalize = lci_finalize E, b_get_rank = lci_get_rank E, b_get_nranks = lci_get_nranks E,
      b_alloc_device = lci_alloc_device E, b_free_device = lci_free_device E,
      b_do_progress = lci_do_progress E, b_send = lci_send E, b_recv = lci_recv E, b_put = lci_put E,
      b_get_max_tag = lci_get_max_tag E, b_barrier = lci_barrier E,
      b_alloc_handler = base_alloc_handler, b_free_handler = base_free_handler,
      b_alloc_cq = lci_alloc_cq E, b_free_cq = lci_free_cq E, b_poll_cq = lci_poll_cq E,
      b_set_custom_allocator = base_set_custom_allocator\<rparr>"


section \<open>What the backend relies on of LCI\<close>

text \<open>
  \<open>held l\<close> lists the user contexts of the operations LCI has accepted and not yet reported: an
  accepted operation adds its context, an operation that is not accepted adds nothing, popping a
  completion with a context gives that context back, and the other calls neither add nor lose one.
\<close>

definition posts_context :: "('l \<Rightarrow> ptr list) \<Rightarrow> ptr \<Rightarrow> 'l \<Rightarrow> lci_error_t \<times> 'l \<Rightarrow> bool" where
  "posts_context held ctx l r \<longleftrightarrow> ctx \<noteq> nullptr \<longrightarrow>
     mset (held (snd r)) = (if fst r = LCI_OK then add_mset ctx (mset (held l)) else mset (held l))"

definition pops_context :: "('l \<Rightarrow> ptr list) \<Rightarrow> 'l \<Rightarrow> lci_error_t \<times> lci_request_t \<times> 'l \<Rightarrow> bool" where
  "pops_context held l r \<longleftrightarrow>
     (case r of (ret, q, l') \<Rightarrow>
        mset (held l) = (if ret = LCI_OK \<and> lr_user_context q \<noteq> nullptr
                         then add_mset (lr_user_context q) (mset (held l')) else mset (held l')))"

definition keeps_contexts :: "('l \<Rightarrow> ptr list) \<Rightarrow> 'l \<Rightarrow> 'l \<Rightarrow> bool" where
  "keeps_contexts held l l' \<longleftrightarrow> mset (held l') = mset (held l)"

definition lci_tracks :: "('q, 'l) lci_env \<Rightarrow> ('l \<Rightarrow> ptr list) \<Rightarrow> bool" where
  "lci_tracks E held \<longleftrightarrow>
     (\<forall>ep b rank tag cq ctx m l.
        posts_context held ctx l (LCI_sendmc E ep b rank tag cq ctx m l) \<and>
        posts_context held ctx l (LCI_recvm E ep b rank tag cq ctx m l) \<and>
        posts_context held ctx l (LCI_putmac E ep b rank tag cq ctx m l)) \<and>
     (\<forall>ep b rank tag cq ctx m l.
        posts_context held ctx l (LCI_sendl E ep b rank tag cq ctx m l) \<and>
        posts_context held ctx l (LCI_recvl E ep b rank tag cq ctx m l) \<and>
        posts_context held ctx l (LCI_putla E ep b cq rank tag ctx m l)) \<and>
     (\<forall>cq l. pops_context held l (LCI_queue_pop E cq l)) \<and>
     (\<forall>l. keeps_contexts held l (snd (LCI_initialize E l)) \<and> keeps_contexts held l (snd (LCI_barrier E l)) \<and>
        keeps_contexts held l (snd (snd (LCI_device_init E l))) \<and> keeps_contexts held l (snd (snd (LCI_plist_create E l))) \<and>
        keeps_contexts held l (snd (LCI_queue_create E l))) \<and>
     (\<forall>h l. keeps_contexts held l (snd (LCI_plist_free E h l)) \<and>
        (\<forall>p t. keeps_contexts held l (snd (LCI_plist_set_comp_type E h p t l))) \<and>
        (\<forall>t. keeps_contexts held l (snd (LCI_plist_set_match_type E h t l))) \<and>
        (\<forall>c. keeps_contexts held l (snd (LCI_plist_set_default_comp E h c l))) \<and>
        (\<forall>p. keeps_contexts held l (snd (snd (LCI_endpoint_init E h p l)))) \<and>
        (\<forall>m. keeps_contexts held l (snd (LCI_progress E h m l)))) \<and>
     (\<forall>b l. keeps_contexts held l (LCI_mbuffer_free E b l))"

lemma lci_tracksD:
  assumes "lci_tracks E held"
  shows "posts_context held ctx l (LCI_sendmc E ep mb rank tag cq ctx m l)"
    "posts_context held ctx l (LCI_recvm E ep mb rank tag cq ctx m l)"
    "posts_context held ctx l (LCI_putmac E ep mb rank tag cq ctx m l)"
    "posts_context held ctx l (LCI_sendl E ep lb rank tag cq ctx m l)"
    "posts_context held ctx l (LCI_recvl E ep lb rank tag cq ctx m l)"
    "posts_context held ctx l (LCI_putla E ep lb cq rank tag ctx m l)"
    "pops_context held l (LCI_queue_pop E cq l)"
    "keeps_contexts held l (snd (LCI_initialize E l))" "keeps_contexts held l (snd (LCI_barrier E l))"
    "keeps_contexts held l (snd (snd (LCI_device_init E l)))" "keeps_contexts held l (snd (snd (LCI_plist_create E l)))"
    "keeps_contexts held l (snd (LCI_queue_create E l))" "keeps_contexts held l (snd (LCI_plist_free E h l))"
    "keeps_contexts held l (snd (LCI_plist_set_comp_type E h p t l))"
    "keeps_contexts held l (snd (LCI_plist_set_match_type E h mt l))"
    "keeps_contexts held l (snd (LCI_plist_set_default_comp E h c l))"
    "keeps_contexts held l (snd (snd (LCI_endpoint_init E h n l)))"
    "keeps_contexts held l (snd (LCI_progress E h m l))" "keeps_contexts held l (LCI_mbuffer_free E mb l)"
  using assms by (simp_all add: lci_tracks_def)

definition lci_inv :: "('q, 'l) lci_env \<Rightarrow> ('l \<Rightarrow> ptr list) \<Rightarrow> ('q, 'l) lci_st \<Rightarrow> bool" where
  "lci_inv E held s \<longleftrightarrow> lci_tracks E held \<and> ctx_inv (held (llib s)) s"

lemma lci_invD: "lci_inv E held s \<Longrightarrow> lci_tracks E held" "lci_inv E held s \<Longrightarrow> ctx_inv (held (llib s)) s"
  by (simp_all add: lci_inv_def)

lemma lci_inv_frame:
  assumes "lci_inv E held s" and "heap s' = heap s" "comps s' = comps s" "next_obj s \<le> next_obj s'"
    "mset (held (llib s')) = mset (held (llib s))"
  shows "lci_inv E held s'"
  using assms ctx_inv_perm [OF ctx_inv_frame [OF lci_invD(2) [OF assms(1)] assms(2-4)] assms(5)]
  by (simp add: lci_inv_def)

lemma lci_safe_keeps:
  assumes "lci_inv E held s" and "lci_safe f s = Inr s'" and "keeps_contexts held (llib s) (snd (f (llib s)))"
  shows "lci_inv E held s'"
proof -
  have "s' = s\<lparr>llib := snd (f (llib s))\<rparr>"
    using assms(2) by (auto simp: lci_safe_def LCI_SAFECALL_def split: if_splits elim!: bind_resE)
  then show ?thesis using assms(3) by (intro lci_inv_frame [OF assms(1)]) (simp_all add: keeps_contexts_def)
qed

lemma lci_safe_handle_keeps:
  assumes "lci_inv E held s" and "lci_safe_handle f s = Inr (h, s')"
    and "keeps_contexts held (llib s) (snd (snd (f (llib s))))"
  shows "lci_inv E held s'"
proof -
  have "s' = s\<lparr>llib := snd (snd (f (llib s)))\<rparr>"
    using assms(2) by (auto simp: lci_safe_handle_def LCI_SAFECALL_def split: prod.splits if_splits elim!: bind_resE)
  then show ?thesis using assms(3) by (intro lci_inv_frame [OF assms(1)]) (simp_all add: keeps_contexts_def)
qed

section \<open>Posting and completing\<close>

lemma lci_posted_hands_over:
  assumes I: "lci_inv E held s" and n: "new_request r s = (p, s1)"
    and c: "posts_context held p (llib s) res" and f: "lci_posted E b p res s1 = Inr (ret, s')"
  shows "lci_inv E held s' \<and> hands_over (held (llib s)) (held (llib s')) r ret s s'"
proof -
  obtain e l where res: "res = (e, l)" by fastforce
  note N = ctx_inv_new [OF lci_invD(2) [OF I] n]
  have s1: "p = next_obj s" "heap s1 = (heap s)(p \<mapsto> r)" "llib s1 = llib s"
    using n by (auto simp: new_request_def)
  have free: "heap s p = None" using ctx_invD(1) [OF lci_invD(2) [OF I]] s1(1) by simp
  have N1: "ctx_inv (p # held (llib s)) (s1\<lparr>llib := l\<rparr>)" by (rule ctx_inv_frame [OF N(1)]) simp_all
  show ?thesis
  proof (cases "e = LCI_OK")
    case True
    then have m: "mset (held l) = add_mset p (mset (held (llib s)))" using c res N(3) by (simp add: posts_context_def)
    have s': "ret" "s' = s1\<lparr>llib := l\<rparr>" using f res True by (auto simp: lci_posted_def elim!: bind_resE)
    have "ctx_inv (held l) (s1\<lparr>llib := l\<rparr>)" by (rule ctx_inv_perm [OF N1]) (simp add: m)
    then show ?thesis using s' m s1(2) free lci_invD(1) [OF I] by (auto simp: lci_inv_def hands_over_def)
  next
    case False
    then have m: "mset (held l) = mset (held (llib s))" using c res N(3) by (simp add: posts_context_def)
    have d: "\<not> ret" "delete_request p (s1\<lparr>llib := l\<rparr>) = Inr s'"
      using f res False by (auto simp: lci_posted_def elim!: bind_resE)
    obtain s2 where s2: "delete_request p (s1\<lparr>llib := l\<rparr>) = Inr s2" "ctx_inv (held (llib s)) s2"
      "s2 = (s1\<lparr>llib := l\<rparr>)\<lparr>heap := (heap (s1\<lparr>llib := l\<rparr>))(p := None)\<rparr>"
      using ctx_inv_delete [OF N1] by blast
    have "heap s' = heap s" "llib s' = l" using d s2 s1(2) free by auto
    moreover have "ctx_inv (held l) s'" using d s2 m ctx_inv_perm by auto
    ultimately show ?thesis using d(1) m lci_invD(1) [OF I] by (simp add: lci_inv_def hands_over_def)
  qed
qed

lemma lci_post_hands_over:
  assumes I: "lci_inv E held s" and n: "new_request r s = (p, s1)"
    and c: "posts_context held p (llib s1) x" "posts_context held p (llib s1) y"
    and f: "(if m then lci_posted E b p x s1 else lci_posted E b p y s1) = Inr (ret, s')"
  shows "lci_inv E held s' \<and> hands_over (held (llib s)) (held (llib s')) r ret s s'"
proof -
  have "llib s1 = llib s" using n by (auto simp: new_request_def)
  then show ?thesis using lci_posted_hands_over [OF I n] c f by (cases m) simp_all
qed

lemma lci_send_hands_over:
  assumes I: "lci_inv E held s" and p: "lci_send E d rank tag buf len c ctx s = Inr (ret, s')"
  shows "lci_inv E held s' \<and> hands_over (held (llib s)) (held (llib s'))
    \<lparr>req_op = SEND, req_device = d, req_rank = rank, req_tag = tag, req_buffer = buf, req_length = len,
     req_user_context = ctx\<rparr> ret s s'"
proof -
  obtain q s1 where n: "new_request \<lparr>req_op = SEND, req_device = d, req_rank = rank, req_tag = tag, req_buffer = buf,
      req_length = len, req_user_context = ctx\<rparr> s = (q, s1)" by fastforce
  obtain dv where "deref (lci_devices s1) d = Inr dv" using p n by (auto simp: lci_send_def elim!: bind_resE)
  then have "(if len \<le> LCI_MEDIUM_SIZE E
      then lci_posted E True q (LCI_sendmc E (ld_ep dv) \<lparr>mb_address = buf, mb_length = to_size len\<rparr> (to_int rank) tag c q (mem s1) (llib s1)) s1
      else lci_posted E True q (LCI_sendl E (ld_ep dv) \<lparr>lb_address = buf, lb_length = to_size len\<rparr> (to_int rank) tag c q (mem s1) (llib s1)) s1)
      = Inr (ret, s')"
    using p n by (simp only: lci_send_def Let_def prod.case bind_res_Inr)
  then show ?thesis by (rule lci_post_hands_over [OF I n lci_tracksD(1,4) [OF lci_invD(1) [OF I]]])
qed

lemma lci_recv_hands_over:
  assumes I: "lci_inv E held s" and p: "lci_recv E d rank tag buf len c ctx s = Inr (ret, s')"
  shows "lci_inv E held s' \<and> hands_over (held (llib s)) (held (llib s'))
    \<lparr>req_op = RECV, req_device = d, req_rank = rank, req_tag = tag, req_buffer = buf, req_length = len,
     req_user_context = ctx\<rparr> ret s s'"
proof -
  obtain q s1 where n: "new_request \<lparr>req_op = RECV, req_device = d, req_rank = rank, req_tag = tag, req_buffer = buf,
      req_length = len, req_user_context = ctx\<rparr> s = (q, s1)" by fastforce
  obtain dv where "deref (lci_devices s1) d = Inr dv" using p n by (auto simp: lci_recv_def elim!: bind_resE)
  then have "(if len \<le> LCI_MEDIUM_SIZE E
      then lci_posted E False q (LCI_recvm E (ld_ep dv) \<lparr>mb_address = buf, mb_length = to_size len\<rparr> (to_int rank) tag c q (mem s1) (llib s1)) s1
      else lci_posted E False q (LCI_recvl E (ld_ep dv) \<lparr>lb_address = buf, lb_length = to_size len\<rparr> (to_int rank) tag c q (mem s1) (llib s1)) s1)
      = Inr (ret, s')"
    using p n by (simp only: lci_recv_def Let_def prod.case bind_res_Inr)
  then show ?thesis by (rule lci_post_hands_over [OF I n lci_tracksD(2,5) [OF lci_invD(1) [OF I]]])
qed

lemma lci_put_hands_over:
  assumes I: "lci_inv E held s" and p: "lci_put E d rank buf len c ctx s = Inr (ret, s')"
  shows "lci_inv E held s' \<and> hands_over (held (llib s)) (held (llib s'))
    \<lparr>req_op = PUT, req_device = d, req_rank = rank, req_tag = 0, req_buffer = buf, req_length = len,
     req_user_context = ctx\<rparr> ret s s'"
proof -
  obtain q s1 where n: "new_request \<lparr>req_op = PUT, req_device = d, req_rank = rank, req_tag = 0, req_buffer = buf,
      req_length = len, req_user_context = ctx\<rparr> s = (q, s1)" by fastforce
  obtain dv where "deref (lci_devices s1) d = Inr dv" using p n by (auto simp: lci_put_def elim!: bind_resE)
  then have "(if len \<le> LCI_MEDIUM_SIZE E
      then lci_posted E True q (LCI_putmac E (ld_ep dv) \<lparr>mb_address = buf, mb_length = to_size len\<rparr> (to_int rank) 0 c q (mem s1) (llib s1)) s1
      else lci_posted E True q (LCI_putla E (ld_ep dv) \<lparr>lb_address = buf, lb_length = to_size len\<rparr> c (to_int rank) 0 q (mem s1) (llib s1)) s1)
      = Inr (ret, s')"
    using p n by (simp only: lci_put_def Let_def prod.case bind_res_Inr)
  then show ?thesis by (rule lci_post_hands_over [OF I n lci_tracksD(3,6) [OF lci_invD(1) [OF I]]])
qed


text \<open>Taking a completion off a queue.\<close>

lemma lci_context_done_ok:
  assumes I: "lci_inv E held s" and q: "LCI_queue_pop E c (llib s) = (LCI_OK, lr, l)" and ctx: "lr_user_context lr \<noteq> nullptr"
  shows "\<exists>r. heap s (lr_user_context lr) = Some r \<and>
    lci_inv E held (s\<lparr>llib := l, heap := (heap s)(lr_user_context lr := None)\<rparr>)"
proof -
  let ?p = "lr_user_context lr"
  have "mset (?p # held l) = mset (held (llib s))"
    using lci_tracksD(7) [OF lci_invD(1) [OF I], of "llib s" c] q ctx by (simp add: pops_context_def)
  then have "ctx_inv (?p # held l) s" by (rule ctx_inv_perm [OF lci_invD(2) [OF I]])
  then have J: "ctx_inv (?p # held l) (s\<lparr>llib := l\<rparr>)" by (rule ctx_inv_frame) simp_all
  obtain r where "heap (s\<lparr>llib := l\<rparr>) ?p = Some r" by (rule ctx_inv_live [OF J])
  then show ?thesis using ctx_inv_delete [OF J] lci_invD(1) [OF I] by (auto simp: lci_inv_def)
qed

lemma lci_put_signal_ok:
  assumes I: "lci_inv E held s" and q: "LCI_queue_pop E c (llib s) = (LCI_OK, lr, l)" and ctx: "lr_user_context lr = nullptr"
    and p: "lci_put_signal E lr (s\<lparr>llib := l\<rparr>) = Inr (r, s')"
  shows "lci_inv E held s' \<and> heap s' = heap s"
proof -
  have m: "mset (held l) = mset (held (llib s))" "keeps_contexts held l (LCI_mbuffer_free E (lr_mbuffer lr) l)"
    using lci_tracksD(7) [OF lci_invD(1) [OF I], of "llib s" c] lci_tracksD(19) [OF lci_invD(1) [OF I]] q ctx
    by (simp_all add: pops_context_def)
  obtain b x where "s' = s\<lparr>blocks := b, mem := x, llib := LCI_mbuffer_free E (lr_mbuffer lr) l\<rparr>"
    using p by (auto simp: lci_put_signal_def Let_def split: prod.splits elim!: bind_resE)
  then show ?thesis using m by (auto simp: keeps_contexts_def intro!: lci_inv_frame [OF I])
qed

lemma lci_inv_poll_cq:
  assumes I: "lci_inv E held s" and p: "lci_poll_cq E c out s = Inr (b, r, s')"
  shows "lci_inv E held s'"
proof -
  obtain e lr l where q: "LCI_queue_pop E c (llib s) = (e, lr, l)" by (cases "LCI_queue_pop E c (llib s)") auto
  have pc: "lci_inv E held (pcounter_add E h v t) = lci_inv E held t" for h v and t :: "('a, 'b) lci_st"
    by (simp add: pcounter_add_def log_event_def lci_inv_def ctx_inv_def fresh_ok_def)
  consider "e = LCI_ERR_RETRY" | "e = LCI_OK" "lr_user_context lr = nullptr" | "e = LCI_OK" "lr_user_context lr \<noteq> nullptr"
    using p q by (auto simp: lci_poll_cq_def Let_def split: if_splits)
  then show ?thesis
  proof cases
    case 1
    then have "s' = s\<lparr>llib := l\<rparr>" "mset (held l) = mset (held (llib s))"
      using p q lci_tracksD(7) [OF lci_invD(1) [OF I], of "llib s" c] by (auto simp: lci_poll_cq_def Let_def pops_context_def)
    then show ?thesis by (intro lci_inv_frame [OF I]) simp_all
  next
    case 2
    then obtain x t where "lci_put_signal E lr (s\<lparr>llib := l\<rparr>) = Inr (x, t)" "s' = pcounter_add E (end_counter (req_op x)) 1 t"
      using p q by (auto simp: lci_poll_cq_def Let_def elim!: bind_resE)
    then show ?thesis using lci_put_signal_ok [OF I q [unfolded 2(1)] 2(2)] pc by blast
  next
    case 3
    obtain x where x: "heap s (lr_user_context lr) = Some x"
      and J: "lci_inv E held (s\<lparr>llib := l, heap := (heap s)(lr_user_context lr := None)\<rparr>)"
      using lci_context_done_ok [OF I q [unfolded 3(1)] 3(2)] by blast
    then show ?thesis using p q 3 pc by (auto simp: lci_poll_cq_def Let_def lci_context_done_def split: if_splits elim!: bind_resE)
  qed
qed

lemma lci_make_endpoint_keeps:
  assumes I: "lci_inv E held s" and m: "lci_make_endpoint E dev c s = Inr (ep, s')"
  shows "lci_inv E held s'"
proof -
  note T = lci_tracksD [OF lci_invD(1) [OF I]]
  obtain pl s2 s3 s4 s5 s6 s7 where
    s2: "lci_safe_handle (LCI_plist_create E) s = Inr (pl, s2)"
    and s3: "lci_safe (LCI_plist_set_comp_type E pl LCI_PORT_COMMAND LCI_COMPLETION_QUEUE) s2 = Inr s3"
    and s4: "lci_safe (LCI_plist_set_comp_type E pl LCI_PORT_MESSAGE LCI_COMPLETION_QUEUE) s3 = Inr s4"
    and s5: "lci_safe (LCI_plist_set_match_type E pl LCI_MATCH_RANKTAG) s4 = Inr s5"
    and s6: "lci_safe (LCI_plist_set_default_comp E pl c) s5 = Inr s6"
    and s7: "lci_safe_handle (LCI_endpoint_init E dev pl) s6 = Inr (ep, s7)"
    and s8: "lci_safe (LCI_plist_free E pl) s7 = Inr s'"
    using m by (auto simp: lci_make_endpoint_def elim!: bind_resE)
  from lci_safe_handle_keeps [OF I s2 T(11)] have "lci_inv E held s2" .
  from lci_safe_keeps [OF this s3 T(14)] have "lci_inv E held s3" .
  from lci_safe_keeps [OF this s4 T(14)] have "lci_inv E held s4" .
  from lci_safe_keeps [OF this s5 T(15)] have "lci_inv E held s5" .
  from lci_safe_keeps [OF this s6 T(16)] have "lci_inv E held s6" .
  from lci_safe_handle_keeps [OF this s7 T(17)] have "lci_inv E held s7" .
  from lci_safe_keeps [OF this s8 T(13)] show ?thesis .
qed

lemma lci_inv_alloc_device:
  assumes I: "lci_inv E held s" and a: "lci_alloc_device E n c s = Inr (d, s')"
  shows "lci_inv E held s'"
proof -
  let ?s0 = "s\<lparr>next_obj := Suc (next_obj s), lci_ndevices := to_int (lci_ndevices s + 1)\<rparr>"
  obtain dev s1 ep s2 where
    s1: "(if lci_ndevices s = 0 then Inr (LCI_UR_DEVICE E, ?s0) else lci_safe_handle (LCI_device_init E) ?s0) = Inr (dev, s1)"
    and s2: "lci_make_endpoint E dev c s1 = Inr (ep, s2)"
    and s': "s' = s2\<lparr>lci_devices := (lci_devices s2)(d \<mapsto> \<lparr>ld_id = lci_ndevices s, ld_device = dev, ld_ep = ep\<rparr>)\<rparr>"
    using a by (auto simp: lci_alloc_device_def Let_def elim!: bind_resE)
  have s0: "lci_inv E held ?s0" by (rule lci_inv_frame [OF I]) simp_all
  have "lci_inv E held s1"
  proof (cases "lci_ndevices s = 0")
    case False
    then show ?thesis using s1 lci_safe_handle_keeps [OF s0, of "LCI_device_init E"] lci_tracksD(10) [OF lci_invD(1) [OF I]] by simp
  qed (use s0 s1 in simp)
  from lci_make_endpoint_keeps [OF this s2] show ?thesis by (rule lci_inv_frame) (simp_all add: s')
qed

section \<open>The LCI backend meets the contract\<close>

text \<open>Devices and queues are freed only when LCI drops no context with them.\<close>

definition lci_allowed :: "('q, 'l) lci_env \<Rightarrow> ('l \<Rightarrow> ptr list) \<Rightarrow> api_call \<Rightarrow> ('q, 'l) lci_st \<Rightarrow> bool" where
  "lci_allowed E held c s =
     (case c of
        Free_device d \<Rightarrow> (case lci_free_device E d s of Inl _ \<Rightarrow> True | Inr s' \<Rightarrow> mset (held (llib s')) = mset (held (llib s)))
      | Free_cq p \<Rightarrow> mset (held (LCI_queue_free E p (llib s))) = mset (held (llib s))
      | _ \<Rightarrow> True)"

lemma lci_free_device_frame:
  assumes "lci_free_device E d s = Inr s'"
  shows "heap s' = heap s" "comps s' = comps s" "next_obj s' = next_obj s"
  using assms by (auto simp: lci_free_device_def lci_safe_def split: if_splits elim!: bind_resE)

interpretation lci_backend: backend_contract "backend_lci_t E" "lci_inv E held" "lci_allowed E held"
  for E held
proof (unfold_locales, goal_cases)
  case (1 s t)
  then show ?case by (rule lci_inv_frame) simp_all
next
  case (3 s d s')
  then have f: "lci_free_device E d s = Inr s'" "mset (held (llib s')) = mset (held (llib s))"
    by (simp_all add: backend_lci_t_def lci_allowed_def)
  then show ?case by (intro lci_inv_frame [OF 3(1)]) (simp_all add: lci_free_device_frame [OF f(1)])
next
  case (4 s d r s')
  then obtain m l n where "LCI_progress E n (mem s) (llib s) = (m, l)" "s' = s\<lparr>mem := m, llib := l\<rparr>"
    by (fastforce simp: backend_lci_t_def lci_do_progress_def split: prod.splits elim!: bind_resE)
  then show ?case using lci_tracksD(18) [OF lci_invD(1) [OF 4(1)], of "llib s" n "mem s"]
    by (intro lci_inv_frame [OF 4(1)]) (simp_all add: keeps_contexts_def)
next
  case (5 s f c s')
  then have n: "new_comp (Comp_handler f) s = (c, s')"
    by (simp add: backend_lci_t_def base_alloc_handler_def util_alloc_handler_def)
  then have "llib s' = llib s" by (auto simp: new_comp_def)
  then show ?case using 5(1) ctx_inv_new_comp [OF lci_invD(2) [OF 5(1)] n] by (simp add: lci_inv_def)
next
  case (6 s c s')
  then have f: "util_free_handler c s = Inr s'" by (simp add: backend_lci_t_def base_free_handler_def)
  then have "llib s' = llib s" by (auto simp: util_free_handler_def split: if_splits comp_obj.splits elim!: bind_resE)
  then show ?case using 6(1) ctx_inv_free_handler [OF lci_invD(2) [OF 6(1)] f] by (simp add: lci_inv_def)
next
  case (7 s c s')
  then have "s' = s\<lparr>llib := snd (LCI_queue_create E (llib s))\<rparr>"
    by (auto simp: backend_lci_t_def lci_alloc_cq_def split: prod.splits)
  then show ?case using lci_tracksD(12) [OF lci_invD(1) [OF 7(1)], of "llib s"]
    by (intro lci_inv_frame [OF 7(1)]) (simp_all add: keeps_contexts_def)
next
  case (8 s c s')
  then show ?case by (intro lci_inv_frame [OF 8(1)]) (auto simp: backend_lci_t_def lci_free_cq_def lci_allowed_def)
next
  case (13 s d s')
  then show ?case using lci_tracksD(9) [OF lci_invD(1) [OF 13(1)], of "llib s"]
    by (auto simp: backend_lci_t_def lci_barrier_def intro: lci_safe_keeps)
next
  case (14 s a)
  then show ?case by (intro lci_inv_frame [OF 14]) (simp_all add: backend_lci_t_def base_set_custom_allocator_def)
qed (auto simp: backend_lci_t_def intro: lci_inv_alloc_device lci_inv_poll_cq
    lci_send_hands_over [THEN conjunct1] lci_recv_hands_over [THEN conjunct1] lci_put_hands_over [THEN conjunct1])


section \<open>Properties\<close>

definition lci_start :: "('l \<Rightarrow> ptr list) \<Rightarrow> ('q, 'l) lci_st \<Rightarrow> bool" where
  "lci_start held s \<longleftrightarrow> heap s = Map.empty \<and> comps s = Map.empty \<and> 0 < next_obj s \<and> held (llib s) = []"

lemma lci_inv_start:
  "lci_tracks E held \<Longrightarrow> lci_start held s \<Longrightarrow> lci_inv E held s"
  by (simp add: lci_start_def lci_inv_def ctx_inv_def fresh_ok_def partitioned_def)

text \<open>C20: Any program over the public API of an LCW initialized with the LCI backend, freeing devices and queues
  only when LCI drops no operation with them, keeps the live \<^verbatim>\<open>request_t\<close> objects equal to the user
  contexts LCI still owes, each exactly once: none is leaked, deleted twice or handed out dead.\<close>

theorem lci_programs_own_requests:
  assumes "lci_tracks E held" and "lci_start held (inner s0)" and "class_of LCI = backend_lci_t E"
    and "lcw_initialize E getenv class_of LCI s0 = Inr s" and "api_run E (lci_allowed E held) s cs s'"
  shows "distinct (held (llib (inner s'))) \<and> set (held (llib (inner s'))) = dom (heap (inner s'))"
proof -
  obtain x where x: "lci_initialize E (base_construct (inner s0)) = Inr x"
    and s: "backend_p s = Some (backend_lci_t E)" "inner s = pcounter_initialize E x"
    using assms(3,4)
    by (auto simp: lcw_initialize_def alloc_backend_def backend_lci_t_def Let_def split: if_splits elim!: bind_resE)
  have "lci_inv E held (base_construct (inner s0))"
    by (rule lci_inv_frame [OF lci_inv_start [OF assms(1,2)]]) (simp_all add: base_construct_def)
  then have "lci_inv E held x"
    using x lci_safe_keeps [of E held "base_construct (inner s0)" "LCI_initialize E" x] lci_tracksD(8) [OF assms(1)]
    by (simp add: lci_initialize_def)
  then have "lci_inv E held (inner s)" unfolding s(2)
    by (rule lci_inv_frame) (simp_all add: pcounter_initialize_def fold_log_event del: fold.simps)
  from lci_backend.run_keeps [OF assms(5) s(1) this] have "lci_inv E held (inner s')" by blast
  then show ?thesis using ctx_invD(2,3) [OF lci_invD(2)] by blast
qed

text \<open>\<^verbatim>\<open>send\<close>, \<^verbatim>\<open>recv\<close> and \<^verbatim>\<open>put\<close> of the LCI backend hand exactly one request, with the fields of the call, to
  LCI when they return true, and change neither the heap nor what LCI holds when they return false.\<close>

theorem lci_operations_hand_over:
  assumes "lci_inv E held s"
  shows "(lci_send E d rank tag buf len c ctx s = Inr (ret, s') \<longrightarrow>
      hands_over (held (llib s)) (held (llib s')) \<lparr>req_op = SEND, req_device = d, req_rank = rank, req_tag = tag,
        req_buffer = buf, req_length = len, req_user_context = ctx\<rparr> ret s s') \<and>
    (lci_recv E d rank tag buf len c ctx s = Inr (ret, s') \<longrightarrow>
      hands_over (held (llib s)) (held (llib s')) \<lparr>req_op = RECV, req_device = d, req_rank = rank, req_tag = tag,
        req_buffer = buf, req_length = len, req_user_context = ctx\<rparr> ret s s') \<and>
    (lci_put E d rank buf len c ctx s = Inr (ret, s') \<longrightarrow>
      hands_over (held (llib s)) (held (llib s')) \<lparr>req_op = PUT, req_device = d, req_rank = rank, req_tag = 0,
        req_buffer = buf, req_length = len, req_user_context = ctx\<rparr> ret s s')"
  using lci_send_hands_over [OF assms, THEN conjunct2] lci_recv_hands_over [OF assms, THEN conjunct2]
    lci_put_hands_over [OF assms, THEN conjunct2] by (intro conjI impI)

text \<open>C23: When LCI reports a completion, \<^verbatim>\<open>poll_cq\<close> returns true. With a user context, the result is the request
  that was posted (a receive with the length that arrived) and that request is deleted. Without,
  the result is a \<^verbatim>\<open>PUT_SIGNAL\<close> whose fresh buffer holds the bytes of the put, if memory is available.\<close>

theorem lci_poll_delivers:
  assumes I: "lci_inv E held s" and q: "LCI_queue_pop E c (llib s) = (LCI_OK, lr, l)"
    and mem: "posix_memalign E (LCW_CACHE_LINE E) (mb_length (lr_mbuffer lr)) (blocks s) = (0, b)"
  shows "\<exists>r s'. lci_poll_cq E c out s = Inr (True, r, s') \<and>
    (if lr_user_context lr \<noteq> nullptr
     then \<exists>r0. heap s (lr_user_context lr) = Some r0 \<and> heap s' = (heap s)(lr_user_context lr := None) \<and>
            (if req_op r0 = SEND \<or> req_op r0 = PUT then r = r0
             else r = r0\<lparr>req_length := to_int64 (if lr_type lr = LCI_MEDIUM then mb_length (lr_mbuffer lr)
                                              else lb_length (lr_lbuffer lr))\<rparr>)
     else heap s' = heap s \<and> req_op r = PUT_SIGNAL \<and> req_rank r = lr_rank lr \<and> req_tag r = lr_tag lr \<and>
       req_buffer r = b \<and> req_length r = to_int64 (mb_length (lr_mbuffer lr)) \<and>
       bytes_at (mem s') b (nat (mb_length (lr_mbuffer lr))) =
         bytes_at (mem s) (mb_address (lr_mbuffer lr)) (nat (mb_length (lr_mbuffer lr))))"
proof (cases "lr_user_context lr = nullptr")
  case True
  then show ?thesis using q mem by (simp add: lci_poll_cq_def Let_def lci_put_signal_def)
next
  case False
  obtain r0 where "heap s (lr_user_context lr) = Some r0" using lci_context_done_ok [OF I q False] by blast
  then show ?thesis using q False
    by (cases "req_op r0") (simp_all add: lci_poll_cq_def Let_def lci_context_done_def)
qed

section \<open>Instances\<close>

text \<open>
  An LCI that completes what it accepts at once: it accepts one operation at a time, and a put
  comes back to its sender as a completion without a context.
\<close>

type_synonym ref_lci_lib = "lci_request_t list"

definition ref_contexts :: "ref_lci_lib \<Rightarrow> ptr list" where
  "ref_contexts l = filter (\<lambda>p. p \<noteq> nullptr) (map lr_user_context l)"

definition ref_completion :: "ptr \<Rightarrow> int \<Rightarrow> int \<Rightarrow> int \<Rightarrow> ptr \<Rightarrow> lci_request_t" where
  "ref_completion a n rank tag ctx =
     \<lparr>lr_rank = rank, lr_tag = tag, lr_type = LCI_MEDIUM, lr_mbuffer = \<lparr>mb_address = a, mb_length = n\<rparr>,
      lr_lbuffer = \<lparr>lb_address = a, lb_length = n\<rparr>, lr_user_context = ctx\<rparr>"

definition ref_lci_post :: "lci_request_t list \<Rightarrow> ref_lci_lib \<Rightarrow> lci_error_t \<times> ref_lci_lib" where
  "ref_lci_post qs l = (if l = [] then (LCI_OK, qs) else (LCI_ERR_RETRY, l))"

definition ref_lci :: "(ptr list, ref_lci_lib) lci_env" where
  "ref_lci = env.extend (ref_env\<lparr>build := ref_build\<lparr>LCW_ENABLE_BACKEND_LCI := True, LCW_ENABLE_PCOUNTER := False\<rparr>\<rparr>)
     \<lparr>LCW_CACHE_LINE = 64, LCI_MEDIUM_SIZE = 8192, LCI_MAX_TAG = 65535, LCI_UR_DEVICE = 7, LCI_RANK = (\<lambda>_. 0), LCI_NUM_PROCESSES = (\<lambda>_. 1),
      LCI_initialize = (\<lambda>l. (LCI_OK, l)), LCI_finalize = (\<lambda>l. (LCI_OK, l)),
      LCI_device_init = (\<lambda>l. (LCI_OK, 8, l)), LCI_device_free = (\<lambda>_ l. (LCI_OK, l)),
      LCI_plist_create = (\<lambda>l. (LCI_OK, 1, l)), LCI_plist_set_comp_type = (\<lambda>_ _ _ l. (LCI_OK, l)),
      LCI_plist_set_match_type = (\<lambda>_ _ l. (LCI_OK, l)), LCI_plist_set_default_comp = (\<lambda>_ _ l. (LCI_OK, l)),
      LCI_plist_free = (\<lambda>_ l. (LCI_OK, l)), LCI_endpoint_init = (\<lambda>_ _ l. (LCI_OK, 2, l)),
      LCI_endpoint_free = (\<lambda>_ l. (LCI_OK, l)), LCI_progress = (\<lambda>_ m l. (m, l)),
      LCI_queue_create = (\<lambda>l. (9, l)), LCI_queue_free = (\<lambda>_ l. l),
      LCI_queue_pop = (\<lambda>_ l. case l of [] \<Rightarrow> (LCI_ERR_RETRY, ref_completion 0 0 0 0 0, []) | q # qs \<Rightarrow> (LCI_OK, q, qs)),
      LCI_mbuffer_free = (\<lambda>_ l. l),
      LCI_sendmc = (\<lambda>_ b rank tag _ ctx _. ref_lci_post [ref_completion (mb_address b) (mb_length b) rank tag ctx]),
      LCI_sendl = (\<lambda>_ b rank tag _ ctx _. ref_lci_post [ref_completion (lb_address b) (lb_length b) rank tag ctx]),
      LCI_recvm = (\<lambda>_ b rank tag _ ctx _. ref_lci_post [ref_completion (mb_address b) (mb_length b) rank tag ctx]),
      LCI_recvl = (\<lambda>_ b rank tag _ ctx _. ref_lci_post [ref_completion (lb_address b) (lb_length b) rank tag ctx]),
      LCI_putmac = (\<lambda>_ b rank tag _ ctx _. ref_lci_post [ref_completion (mb_address b) (mb_length b) rank tag ctx,
                                                       ref_completion (mb_address b) (mb_length b) rank tag nullptr]),
      LCI_putla = (\<lambda>_ b _ rank tag ctx _. ref_lci_post [ref_completion (lb_address b) (lb_length b) rank tag ctx,
                                                      ref_completion (lb_address b) (lb_length b) rank tag nullptr]),
      LCI_barrier = (\<lambda>l. (LCI_OK, l)),
      posix_memalign = (\<lambda>_ _ bs. (0, Suc (sum_list (map (\<lambda>(a, n). a + n) bs))))\<rparr>"

lemma ref_lci_simps [simp]:
  "build ref_lci = ref_build\<lparr>LCW_ENABLE_BACKEND_LCI := True, LCW_ENABLE_PCOUNTER := False\<rparr>"
  by (simp add: ref_lci_def ref_env_def env.defs)

lemma ref_lci_tracks: "lci_tracks ref_lci ref_contexts"
  by (simp add: lci_tracks_def ref_lci_def env.defs posts_context_def pops_context_def keeps_contexts_def
      ref_lci_post_def ref_contexts_def ref_completion_def split: list.split)

definition ref_lci_st :: "(ptr list, ref_lci_lib) lci_st" where
  "ref_lci_st = rt.extend (ref_rt\<lparr>mem := word_of_nat\<rparr>) \<lparr>llib = [], lci_devices = Map.empty, lci_ndevices = 0\<rparr>"

lemma ref_lci_start: "lci_start ref_contexts ref_lci_st"
  by (simp add: lci_start_def ref_lci_st_def ref_rt_def rt.defs ref_contexts_def)

definition ref_lci_lcw :: "(ptr list, ref_lci_lib) lci_st lcw_st" where
  "ref_lci_lcw = \<lparr>backend_p = None, inner = ref_lci_st, globals = spin_globals_init, lct_ready = False, log_ready = False, lct_rank = 0\<rparr>"

text \<open>A put that is accepted, a send that has to be retried.\<close>

definition ref_lci_calls :: "api_call list" where
  "ref_lci_calls = [Alloc_device 64 9, Put 1 0 65 3 9 0, Send 1 0 5 65 3 9 0]"

definition ref_lci_exec :: "(ptr list, ref_lci_lib) lci_st lcw_st res" where
  "ref_lci_exec = bind_res (lcw_initialize ref_lci Map.empty (\<lambda>_. backend_lci_t ref_lci) LCI ref_lci_lcw) (api_exec ref_lci ref_lci_calls)"

lemma ref_lci_runs:
  "case ref_lci_exec of Inl _ \<Rightarrow> False | Inr s \<Rightarrow>
     ref_contexts (llib (inner s)) = [2] \<and> blocks (inner s) = [] \<and>
     llib (inner s) = [ref_completion 65 3 0 0 2, ref_completion 65 3 0 0 0] \<and>
     (case lci_send ref_lci 1 0 5 65 3 9 0 (inner s) of Inl _ \<Rightarrow> False | Inr (ret, _) \<Rightarrow> \<not> ret)"
  by code_simp

lemma ref_lci_execE:
  obtains s1 s where "lcw_initialize ref_lci Map.empty (\<lambda>_. backend_lci_t ref_lci) LCI ref_lci_lcw = Inr s1"
    "ref_lci_exec = Inr s" "api_run ref_lci (lci_allowed ref_lci ref_contexts) s1 ref_lci_calls s"
    "llib (inner s) = [ref_completion 65 3 0 0 2, ref_completion 65 3 0 0 0]" "blocks (inner s) = []"
proof -
  obtain s s1 where s: "ref_lci_exec = Inr s"
    and s1: "lcw_initialize ref_lci Map.empty (\<lambda>_. backend_lci_t ref_lci) LCI ref_lci_lcw = Inr s1" "api_exec ref_lci ref_lci_calls s1 = Inr s"
    using ref_lci_runs by (auto simp: ref_lci_exec_def split: sum.splits elim!: bind_resE)
  have al: "lci_allowed ref_lci ref_contexts c i" if "c \<in> set ref_lci_calls" for c and i :: "(ptr list, ref_lci_lib) lci_st"
    using that by (auto simp: ref_lci_calls_def lci_allowed_def)
  have r: "api_run ref_lci (lci_allowed ref_lci ref_contexts) s1 ref_lci_calls s"
    using api_exec_run [OF al api_run.start s1(2)] by simp
  have "llib (inner s) = [ref_completion 65 3 0 0 2, ref_completion 65 3 0 0 0]" "blocks (inner s) = []"
    using ref_lci_runs unfolding s by simp_all
  with r show ?thesis by (rule that [OF s1(1) s])
qed

theorem lci_programs_own_requests_witness:
  "\<exists>s. ref_lci_exec = Inr s \<and> set (ref_contexts (llib (inner s))) = dom (heap (inner s))"
proof -
  obtain s1 s where s1: "lcw_initialize ref_lci Map.empty (\<lambda>_. backend_lci_t ref_lci) LCI ref_lci_lcw = Inr s1"
    and s: "ref_lci_exec = Inr s" and r: "api_run ref_lci (lci_allowed ref_lci ref_contexts) s1 ref_lci_calls s"
    and "llib (inner s) = [ref_completion 65 3 0 0 2, ref_completion 65 3 0 0 0]" "blocks (inner s) = []" by (rule ref_lci_execE)
  have "lci_start ref_contexts (inner ref_lci_lcw)" using ref_lci_start by (simp add: ref_lci_lcw_def)
  then show ?thesis using lci_programs_own_requests [OF ref_lci_tracks _ _ s1 r] s by blast
qed

lemma ref_lci_inv:
  assumes "lcw_initialize ref_lci Map.empty (\<lambda>_. backend_lci_t ref_lci) LCI ref_lci_lcw = Inr s1"
    and "api_run ref_lci (lci_allowed ref_lci ref_contexts) s1 ref_lci_calls s"
  shows "lci_inv ref_lci ref_contexts (inner s)"
proof -
  have i: "inner s1 = ref_lci_st \<and> backend_p s1 = Some (backend_lci_t ref_lci)"
    using assms(1) by (auto simp: lcw_initialize_def alloc_backend_def backend_lci_t_def Let_def lci_initialize_def
      lci_safe_def ref_lci_lcw_def pcounter_initialize_def base_construct_def ref_lci_st_def ref_rt_def rt.defs
      ref_lci_def ref_env_def env.defs LCI_SAFECALL_def split: if_splits elim!: bind_resE)
  show ?thesis using lci_backend.run_keeps [OF assms(2) conjunct2 [OF i]] i lci_inv_start [OF ref_lci_tracks ref_lci_start] by simp
qed

theorem lci_operations_hand_over_witness:
  "\<exists>s s'. ref_lci_exec = Inr s \<and> lci_send ref_lci 1 0 5 65 3 9 0 (inner s) = Inr (False, s') \<and> heap s' = heap (inner s)"
proof -
  obtain s1 s where s1: "lcw_initialize ref_lci Map.empty (\<lambda>_. backend_lci_t ref_lci) LCI ref_lci_lcw = Inr s1"
    and s: "ref_lci_exec = Inr s" and r: "api_run ref_lci (lci_allowed ref_lci ref_contexts) s1 ref_lci_calls s"
    and "llib (inner s) = [ref_completion 65 3 0 0 2, ref_completion 65 3 0 0 0]" "blocks (inner s) = []" by (rule ref_lci_execE)
  obtain s' where s': "lci_send ref_lci 1 0 5 65 3 9 0 (inner s) = Inr (False, s')"
    using ref_lci_runs [unfolded s] by (auto split: sum.splits)
  show ?thesis using lci_operations_hand_over [OF ref_lci_inv [OF s1 r]] s s' by (fastforce simp: hands_over_def)
qed

theorem lci_poll_delivers_witness:
  "\<exists>s r s'. ref_lci_exec = Inr s \<and> lci_poll_cq ref_lci 9 (ref_request SEND 0) (inner s) = Inr (True, r, s') \<and> heap s' = (heap (inner s))(2 := None)"
proof -
  obtain s1 s where s1: "lcw_initialize ref_lci Map.empty (\<lambda>_. backend_lci_t ref_lci) LCI ref_lci_lcw = Inr s1"
    and s: "ref_lci_exec = Inr s" and r: "api_run ref_lci (lci_allowed ref_lci ref_contexts) s1 ref_lci_calls s"
    and l: "llib (inner s) = [ref_completion 65 3 0 0 2, ref_completion 65 3 0 0 0]" "blocks (inner s) = []" by (rule ref_lci_execE)
  have q: "LCI_queue_pop ref_lci 9 (llib (inner s)) = (LCI_OK, ref_completion 65 3 0 0 2, [ref_completion 65 3 0 0 0])"
    using l(1) by (simp add: ref_lci_def env.defs)
  have m: "posix_memalign ref_lci (LCW_CACHE_LINE ref_lci) n (blocks (inner s)) = (0, 1)" for n
    using l(2) by (simp add: ref_lci_def env.defs)
  show ?thesis using lci_poll_delivers [OF ref_lci_inv [OF s1 r] q m, of "ref_request SEND 0"] s by (fastforce simp: ref_completion_def)
qed

end
