(* ===== verification/LCW_Lci2.thy ===== *)
theory LCW_Lci2
  imports LCW_Contexts
begin

text \<open>
  The LCI2 backend (\<^verbatim>\<open>src/src/backend/lci2/backend_lci2.{hpp,cpp}\<close>) over the C++ interface of LCI, the
  record \<open>lci2_env\<close> of parameters over a library state \<open>'l\<close>. Requests are handed to the library as
  user contexts, as in the LCI backend; here completions may also be user handlers, which the
  library signals while one of its own calls is under way, so such a call returns the list of
  handlers it signalled with their status. Conversions of arguments to LCI's own parameter types
  are the library's.
\<close>

section \<open>LCI and the state of the backend\<close>

datatype errorcode_t = Done | Posted | Retry

record status_t =
  st_error :: errorcode_t
  st_rank :: int
  st_tag :: int
  st_buffer :: ptr
  st_size :: int
  st_user_context :: ptr

definition is_done :: "status_t \<Rightarrow> bool" where "is_done st \<longleftrightarrow> st_error st = Done"
definition is_posted :: "status_t \<Rightarrow> bool" where "is_posted st \<longleftrightarrow> st_error st = Posted"
definition is_retry :: "status_t \<Rightarrow> bool" where "is_retry st \<longleftrightarrow> st_error st = Retry"

type_synonym 'l lci2_post = "mem \<Rightarrow> 'l \<Rightarrow> status_t \<times> (ptr \<times> status_t) list \<times> mem \<times> 'l"

record ('q, 'l) lci2_env = "'q env" +
  g_runtime_init :: "bool \<Rightarrow> 'l \<Rightarrow> 'l"
  g_runtime_fina :: "'l \<Rightarrow> 'l"
  get_rank_me :: "'l \<Rightarrow> int"
  get_rank_n :: "'l \<Rightarrow> int"
  get_max_bcopy_size :: "'l \<Rightarrow> int"
  register_rcomp :: "ptr \<Rightarrow> 'l \<Rightarrow> nat \<times> 'l"
  deregister_rcomp :: "nat \<Rightarrow> 'l \<Rightarrow> 'l"
  LCI2_alloc_device :: "'l \<Rightarrow> nat \<times> 'l"
  LCI2_free_device :: "nat \<Rightarrow> 'l \<Rightarrow> 'l"
  LCI2_progress :: "nat \<Rightarrow> 'l lci2_post"
  LCI2_alloc_cq :: "'l \<Rightarrow> ptr \<times> 'l"
  LCI2_free_comp :: "ptr \<Rightarrow> 'l \<Rightarrow> 'l"
  LCI2_cq_pop :: "ptr \<Rightarrow> 'l \<Rightarrow> status_t \<times> 'l"
  LCI2_post_send :: "int \<Rightarrow> ptr \<Rightarrow> int \<Rightarrow> int \<Rightarrow> ptr \<Rightarrow> nat \<Rightarrow> ptr \<Rightarrow> 'l lci2_post"
  LCI2_post_recv :: "int \<Rightarrow> ptr \<Rightarrow> int \<Rightarrow> int \<Rightarrow> ptr \<Rightarrow> nat \<Rightarrow> ptr \<Rightarrow> 'l lci2_post"
  LCI2_post_am :: "int \<Rightarrow> ptr \<Rightarrow> int \<Rightarrow> ptr \<Rightarrow> nat \<Rightarrow> nat \<Rightarrow> ptr \<Rightarrow> 'l lci2_post"
  get_attr_max_imm_tag :: "'l \<Rightarrow> int"
  LCI2_barrier :: "nat \<Rightarrow> mem \<Rightarrow> 'l \<Rightarrow> (ptr \<times> status_t) list \<times> mem \<times> 'l"
  LCI2_set_allocator :: "ptr \<Rightarrow> 'l \<Rightarrow> 'l"

record device_impl_t =
  di_id :: int
  di_device :: nat
  di_rcomp :: nat

text \<open>\<open>lci2_allocators\<close> are the objects that adapt a user allocator to LCI's interface.\<close>

record ('q, 'l) lci2_st = "'q rt" +
  llib2 :: 'l
  lci2_devices :: "ptr \<rightharpoonup> device_impl_t"
  lci2_ndevices :: int
  lci2_allocators :: "ptr \<rightharpoonup> ptr"

section \<open>The methods of \<open>backend_lci2_t\<close>\<close>

definition lci2_initialize :: "('q, 'l) lci2_env \<Rightarrow> ('q, 'l) lci2_st \<Rightarrow> ('q, 'l) lci2_st res" where
  "lci2_initialize E s = Inr (s\<lparr>llib2 := g_runtime_init E False (llib2 s)\<rparr>)"

definition lci2_finalize :: "('q, 'l) lci2_env \<Rightarrow> ('q, 'l) lci2_st \<Rightarrow> ('q, 'l) lci2_st res" where
  "lci2_finalize E s = Inr (s\<lparr>llib2 := g_runtime_fina E (llib2 s)\<rparr>)"

definition lci2_get_rank :: "('q, 'l) lci2_env \<Rightarrow> ('q, 'l) lci2_st \<Rightarrow> int" where
  "lci2_get_rank E s = get_rank_me E (llib2 s)"

definition lci2_get_nranks :: "('q, 'l) lci2_env \<Rightarrow> ('q, 'l) lci2_st \<Rightarrow> int" where
  "lci2_get_nranks E s = get_rank_n E (llib2 s)"

text \<open>A put length above the eager threshold is only warned about in the log.\<close>

definition lci2_alloc_device ::
  "('q, 'l) lci2_env \<Rightarrow> int \<Rightarrow> ptr \<Rightarrow> ('q, 'l) lci2_st \<Rightarrow> (ptr \<times> ('q, 'l) lci2_st) res" where
  "lci2_alloc_device E max_put_length put_comp s =
     (let device = next_obj s;
          ident = lci2_ndevices s;
          s = s\<lparr>next_obj := Suc device, lci2_ndevices := to_int (ident + 1)\<rparr>;
          (rc, l) = register_rcomp E put_comp (llib2 s);
          (dev, l) = LCI2_alloc_device E l
      in Inr (device, s\<lparr>llib2 := l,
            lci2_devices := (lci2_devices s)(device \<mapsto> \<lparr>di_id = ident, di_device = dev, di_rcomp = rc\<rparr>)\<rparr>))"

text \<open>The device object itself is not deleted.\<close>

definition lci2_free_device :: "('q, 'l) lci2_env \<Rightarrow> ptr \<Rightarrow> ('q, 'l) lci2_st \<Rightarrow> ('q, 'l) lci2_st res" where
  "lci2_free_device E device s =
     bind_res (deref (lci2_devices s) device) (\<lambda>d.
     Inr (s\<lparr>llib2 := LCI2_free_device E (di_device d) (deregister_rcomp E (di_rcomp d) (llib2 s))\<rparr>))"

definition get_request_from_status ::
  "status_t \<Rightarrow> ('q, 'l) lci2_st \<Rightarrow> (request_t \<times> ('q, 'l) lci2_st) res" where
  "get_request_from_status st s =
     (if st_user_context st = nullptr then
        Inr (\<lparr>req_op = PUT_SIGNAL, req_device = nullptr, req_rank = st_rank st, req_tag = st_tag st,
              req_buffer = st_buffer st, req_length = to_int64 (st_size st), req_user_context = nullptr\<rparr>, s)
      else
        bind_res (deref (heap s) (st_user_context st)) (\<lambda>req.
        bind_res (delete_request (st_user_context st) s) (\<lambda>s.
        Inr (if req_op req = RECV \<or> req_op req = PUT_SIGNAL
             then req\<lparr>req_length := to_int64 (st_size st)\<rparr> else req, s))))"

definition comp_handler_lci_signal ::
  "handler_t \<Rightarrow> status_t \<Rightarrow> ('q, 'l) lci2_st \<Rightarrow> ('q, 'l) lci2_st res" where
  "comp_handler_lci_signal handler st s =
     bind_res (get_request_from_status st s) (\<lambda>(request, s). Inr (log_event (Handler_call handler request) s))"

text \<open>The library signals handlers, in order; the objects are those of \<^verbatim>\<open>alloc_handler\<close>.\<close>

fun run_handlers :: "(ptr \<times> status_t) list \<Rightarrow> ('q, 'l) lci2_st \<Rightarrow> ('q, 'l) lci2_st res" where
  "run_handlers [] s = Inr s"
| "run_handlers ((c, st) # cbs) s =
     bind_res (deref (comps s) c) (\<lambda>x.
     bind_res (case x of Comp_handler h \<Rightarrow> comp_handler_lci_signal h st s | Comp_cq _ \<Rightarrow> Inl Bad_cast)
       (run_handlers cbs))"

definition lci2_alloc_handler :: "handler_t \<Rightarrow> ('q, 'l) lci2_st \<Rightarrow> (ptr \<times> ('q, 'l) lci2_st) res" where
  "lci2_alloc_handler handler s = Inr (new_comp (Comp_handler handler) s)"

definition lci2_free_handler :: "ptr \<Rightarrow> ('q, 'l) lci2_st \<Rightarrow> ('q, 'l) lci2_st res" where
  "lci2_free_handler handler s =
     (if handler = nullptr then Inr s
      else bind_res (deref (comps s) handler) (\<lambda>c.
           case c of Comp_cq _ \<Rightarrow> Inl Bad_cast
           | Comp_handler _ \<Rightarrow> Inr (s\<lparr>comps := (comps s)(handler := None)\<rparr>)))"

definition lci2_do_progress :: "('q, 'l) lci2_env \<Rightarrow> ptr \<Rightarrow> ('q, 'l) lci2_st \<Rightarrow> (bool \<times> ('q, 'l) lci2_st) res" where
  "lci2_do_progress E device s =
     bind_res (deref (lci2_devices s) device) (\<lambda>d.
       let (ret, cbs, m, l) = LCI2_progress E (di_device d) (mem s) (llib2 s)
       in bind_res (run_handlers cbs (s\<lparr>mem := m, llib2 := l\<rparr>)) (\<lambda>s. Inr (is_done ret, s)))"

definition lci2_alloc_cq :: "('q, 'l) lci2_env \<Rightarrow> ('q, 'l) lci2_st \<Rightarrow> (ptr \<times> ('q, 'l) lci2_st) res" where
  "lci2_alloc_cq E s = (let (cq, l) = LCI2_alloc_cq E (llib2 s) in Inr (cq, s\<lparr>llib2 := l\<rparr>))"

definition lci2_free_cq :: "('q, 'l) lci2_env \<Rightarrow> ptr \<Rightarrow> ('q, 'l) lci2_st \<Rightarrow> ('q, 'l) lci2_st res" where
  "lci2_free_cq E cmp s = Inr (s\<lparr>llib2 := LCI2_free_comp E cmp (llib2 s)\<rparr>)"

definition lci2_poll_cq ::
  "('q, 'l) lci2_env \<Rightarrow> ptr \<Rightarrow> request_t \<Rightarrow> ('q, 'l) lci2_st \<Rightarrow> (bool \<times> request_t \<times> ('q, 'l) lci2_st) res" where
  "lci2_poll_cq E cmp request s =
     (let (st, l) = LCI2_cq_pop E cmp (llib2 s);
          s = s\<lparr>llib2 := l\<rparr>
      in if is_retry st then Inr (False, request, s)
         else bind_res (get_request_from_status st s) (\<lambda>(request, s).
              let s = (case req_op request of
                         SEND \<Rightarrow> pcounter_add E send_end 1 s
                       | RECV \<Rightarrow> pcounter_add E recv_end 1 s
                       | PUT \<Rightarrow> pcounter_add E put_end 1 s
                       | PUT_SIGNAL \<Rightarrow> pcounter_add E put_signal 1 s)
              in Inr (True, request, s)))"

text \<open>The end of \<^verbatim>\<open>send\<close>, \<^verbatim>\<open>recv\<close> and \<^verbatim>\<open>put\<close>: the request is deleted when the operation has to be retried.\<close>

definition lci2_posted ::
  "('q, 'l) lci2_env \<Rightarrow> ptr \<Rightarrow> status_t \<times> (ptr \<times> status_t) list \<times> mem \<times> 'l \<Rightarrow> ('q, 'l) lci2_st \<Rightarrow>
   (bool \<times> ('q, 'l) lci2_st) res" where
  "lci2_posted E req_p r s =
     (let (st, cbs, m, l) = r
      in bind_res (run_handlers cbs (s\<lparr>mem := m, llib2 := l\<rparr>)) (\<lambda>s.
         bind_res (if is_retry st then delete_request req_p s
                   else bind_res (lcw_assert (\<not> LCW_DEBUG (build E) \<or> is_posted st) ''Unexpected return value'') (\<lambda>_. Inr s))
           (\<lambda>s. Inr (is_posted st, s))))"

definition lci2_send ::
  "('q, 'l) lci2_env \<Rightarrow> ptr \<Rightarrow> int \<Rightarrow> int \<Rightarrow> ptr \<Rightarrow> int \<Rightarrow> ptr \<Rightarrow> ptr \<Rightarrow> ('q, 'l) lci2_st \<Rightarrow>
   (bool \<times> ('q, 'l) lci2_st) res" where
  "lci2_send E device rank tag buf len cmp user_context s =
     (let (req_p, s) = new_request
            \<lparr>req_op = SEND, req_device = device, req_rank = rank, req_tag = tag,
             req_buffer = buf, req_length = len, req_user_context = user_context\<rparr> s
      in bind_res (deref (lci2_devices s) device) (\<lambda>d.
         lci2_posted E req_p (LCI2_post_send E rank buf len tag cmp (di_device d) req_p (mem s) (llib2 s)) s))"

definition lci2_recv ::
  "('q, 'l) lci2_env \<Rightarrow> ptr \<Rightarrow> int \<Rightarrow> int \<Rightarrow> ptr \<Rightarrow> int \<Rightarrow> ptr \<Rightarrow> ptr \<Rightarrow> ('q, 'l) lci2_st \<Rightarrow>
   (bool \<times> ('q, 'l) lci2_st) res" where
  "lci2_recv E device rank tag buf len cmp user_context s =
     (let (req_p, s) = new_request
            \<lparr>req_op = RECV, req_device = device, req_rank = rank, req_tag = tag,
             req_buffer = buf, req_length = len, req_user_context = user_context\<rparr> s
      in bind_res (deref (lci2_devices s) device) (\<lambda>d.
         lci2_posted E req_p (LCI2_post_recv E rank buf len tag cmp (di_device d) req_p (mem s) (llib2 s)) s))"

definition lci2_put ::
  "('q, 'l) lci2_env \<Rightarrow> ptr \<Rightarrow> int \<Rightarrow> ptr \<Rightarrow> int \<Rightarrow> ptr \<Rightarrow> ptr \<Rightarrow> ('q, 'l) lci2_st \<Rightarrow>
   (bool \<times> ('q, 'l) lci2_st) res" where
  "lci2_put E device rank buf len cmp user_context s =
     (let (req_p, s) = new_request
            \<lparr>req_op = PUT, req_device = device, req_rank = rank, req_tag = 0,
             req_buffer = buf, req_length = len, req_user_context = user_context\<rparr> s
      in bind_res (deref (lci2_devices s) device) (\<lambda>d.
         lci2_posted E req_p (LCI2_post_am E rank buf len cmp (di_rcomp d) (di_device d) req_p (mem s) (llib2 s)) s))"

definition lci2_get_max_tag :: "('q, 'l) lci2_env \<Rightarrow> ptr \<Rightarrow> ('q, 'l) lci2_st \<Rightarrow> int res" where
  "lci2_get_max_tag E device s = Inr (get_attr_max_imm_tag E (llib2 s))"

definition lci2_barrier :: "('q, 'l) lci2_env \<Rightarrow> ptr \<Rightarrow> ('q, 'l) lci2_st \<Rightarrow> ('q, 'l) lci2_st res" where
  "lci2_barrier E device s =
     bind_res (deref (lci2_devices s) device) (\<lambda>d.
       let (cbs, m, l) = LCI2_barrier E (di_device d) (mem s) (llib2 s)
       in run_handlers cbs (s\<lparr>mem := m, llib2 := l\<rparr>))"

definition lci2_set_custom_allocator :: "('q, 'l) lci2_env \<Rightarrow> ptr \<Rightarrow> ('q, 'l) lci2_st \<Rightarrow> ('q, 'l) lci2_st" where
  "lci2_set_custom_allocator E allocator s =
     (let p = next_obj s
      in s\<lparr>next_obj := Suc p, lci2_allocators := (lci2_allocators s)(p \<mapsto> allocator),
           llib2 := LCI2_set_allocator E p (llib2 s)\<rparr>)"

definition backend_lci2_t :: "('q, 'l) lci2_env \<Rightarrow> ('q, 'l) lci2_st backend_base_t" where
  "backend_lci2_t E =
     \<lparr>get_backend = LCI2, b_construct = base_construct, b_initialize = lci2_initialize E,
      b_finalize = lci2_finalize E, b_get_rank = lci2_get_rank E, b_get_nranks = lci2_get_nranks E,
      b_alloc_device = lci2_alloc_device E, b_free_device = lci2_free_device E,
      b_do_progress = lci2_do_progress E, b_send = lci2_send E, b_recv = lci2_recv E, b_put = lci2_put E,
      b_get_max_tag = lci2_get_max_tag E, b_barrier = lci2_barrier E,
      b_alloc_handler = lci2_alloc_handler, b_free_handler = lci2_free_handler,
      b_alloc_cq = lci2_alloc_cq E, b_free_cq = lci2_free_cq E, b_poll_cq = lci2_poll_cq E,
      b_set_custom_allocator = lci2_set_custom_allocator E\<rparr>"


section \<open>What the backend relies on of LCI\<close>

text \<open>
  \<open>held l\<close> lists the user contexts of the operations that were posted and not yet reported. A report
  goes to a handler (in the list a call returns) or to a queue (taken by \<^verbatim>\<open>cq_pop\<close>). Since the
  operations are posted with \<^verbatim>\<open>allow_done(false)\<close>, they are either posted or to be retried.
\<close>

definition contexts :: "(ptr \<times> status_t) list \<Rightarrow> ptr list" where
  "contexts cbs = filter (\<lambda>p. p \<noteq> nullptr) (map (\<lambda>(c, st). st_user_context st) cbs)"

definition posts2 ::
  "('l \<Rightarrow> ptr list) \<Rightarrow> ptr \<Rightarrow> 'l \<Rightarrow> status_t \<times> (ptr \<times> status_t) list \<times> mem \<times> 'l \<Rightarrow> bool" where
  "posts2 held ctx l r \<longleftrightarrow> ctx \<noteq> nullptr \<longrightarrow>
     (case r of (st, cbs, m, l') \<Rightarrow> (is_posted st \<or> is_retry st) \<and>
        mset (contexts cbs @ held l') = (if is_posted st then add_mset ctx (mset (held l)) else mset (held l)))"

definition lci2_tracks :: "('q, 'l) lci2_env \<Rightarrow> ('l \<Rightarrow> ptr list) \<Rightarrow> bool" where
  "lci2_tracks E held \<longleftrightarrow>
     (\<forall>rank buf n tag c d ctx m l.
        posts2 held ctx l (LCI2_post_send E rank buf n tag c d ctx m l) \<and>
        posts2 held ctx l (LCI2_post_recv E rank buf n tag c d ctx m l)) \<and>
     (\<forall>rank buf n c rc d ctx m l. posts2 held ctx l (LCI2_post_am E rank buf n c rc d ctx m l)) \<and>
     (\<forall>c l. case LCI2_cq_pop E c l of (st, l') \<Rightarrow>
        mset (held l) = (if \<not> is_retry st \<and> st_user_context st \<noteq> nullptr
                         then add_mset (st_user_context st) (mset (held l')) else mset (held l'))) \<and>
     (\<forall>d m l. case LCI2_progress E d m l of (st, cbs, m', l') \<Rightarrow> mset (contexts cbs @ held l') = mset (held l)) \<and>
     (\<forall>d m l. case LCI2_barrier E d m l of (cbs, m', l') \<Rightarrow> mset (contexts cbs @ held l') = mset (held l)) \<and>
     (\<forall>l. mset (held (g_runtime_init E False l)) = mset (held l) \<and> mset (held (snd (LCI2_alloc_device E l))) = mset (held l) \<and>
        mset (held (snd (LCI2_alloc_cq E l))) = mset (held l)) \<and>
     (\<forall>p l. mset (held (snd (register_rcomp E p l))) = mset (held l) \<and> mset (held (LCI2_set_allocator E p l)) = mset (held l))"

lemma lci2_tracksD:
  assumes "lci2_tracks E held"
  shows "posts2 held ctx l (LCI2_post_send E rank buf n tag c d ctx m l)"
    "posts2 held ctx l (LCI2_post_recv E rank buf n tag c d ctx m l)"
    "posts2 held ctx l (LCI2_post_am E rank buf n c rc d ctx m l)"
    "LCI2_cq_pop E c l = (st, l') \<Longrightarrow> mset (held l) = (if \<not> is_retry st \<and> st_user_context st \<noteq> nullptr
       then add_mset (st_user_context st) (mset (held l')) else mset (held l'))"
    "LCI2_progress E d m l = (st, cbs, m', l') \<Longrightarrow> mset (contexts cbs @ held l') = mset (held l)"
    "LCI2_barrier E d m l = (cbs, m', l') \<Longrightarrow> mset (contexts cbs @ held l') = mset (held l)"
    "mset (held (g_runtime_init E False l)) = mset (held l)" "mset (held (snd (LCI2_alloc_device E l))) = mset (held l)"
    "mset (held (snd (LCI2_alloc_cq E l))) = mset (held l)" "mset (held (snd (register_rcomp E p l))) = mset (held l)"
    "mset (held (LCI2_set_allocator E p l)) = mset (held l)"
proof -
  show "LCI2_cq_pop E c l = (st, l') \<Longrightarrow> mset (held l) = (if \<not> is_retry st \<and> st_user_context st \<noteq> nullptr
       then add_mset (st_user_context st) (mset (held l')) else mset (held l'))"
    "LCI2_progress E d m l = (st, cbs, m', l') \<Longrightarrow> mset (contexts cbs @ held l') = mset (held l)"
    "LCI2_barrier E d m l = (cbs, m', l') \<Longrightarrow> mset (contexts cbs @ held l') = mset (held l)"
    using assms unfolding lci2_tracks_def by (fastforce split: prod.splits)+
qed (use assms in \<open>simp_all add: lci2_tracks_def\<close>)

definition lci2_inv :: "('q, 'l) lci2_env \<Rightarrow> ('l \<Rightarrow> ptr list) \<Rightarrow> ('q, 'l) lci2_st \<Rightarrow> bool" where
  "lci2_inv E held s \<longleftrightarrow> lci2_tracks E held \<and> ctx_inv (held (llib2 s)) s"

lemma lci2_invD: "lci2_inv E held s \<Longrightarrow> lci2_tracks E held" "lci2_inv E held s \<Longrightarrow> ctx_inv (held (llib2 s)) s"
  by (simp_all add: lci2_inv_def)

lemma lci2_inv_frame:
  assumes "lci2_inv E held s" and "heap s' = heap s" "comps s' = comps s" "next_obj s \<le> next_obj s'"
    "mset (held (llib2 s')) = mset (held (llib2 s))"
  shows "lci2_inv E held s'"
  using assms ctx_inv_perm [OF ctx_inv_frame [OF lci2_invD(2) [OF assms(1)] assms(2-4)] assms(5)]
  by (simp add: lci2_inv_def)

section \<open>Reports\<close>

text \<open>A report gives back its context, which is then gone from the heap.\<close>

lemma get_request_ok:
  assumes I: "ctx_inv (if st_user_context st = nullptr then cs else st_user_context st # cs) s"
  shows "\<exists>r s'. get_request_from_status st s = Inr (r, s') \<and> ctx_inv cs s' \<and> llib2 s' = llib2 s \<and> mem s' = mem s \<and>
    (if st_user_context st = nullptr
     then s' = s \<and> r = \<lparr>req_op = PUT_SIGNAL, req_device = nullptr, req_rank = st_rank st, req_tag = st_tag st,
              req_buffer = st_buffer st, req_length = to_int64 (st_size st), req_user_context = nullptr\<rparr>
     else \<exists>r0. heap s (st_user_context st) = Some r0 \<and> heap s' = (heap s)(st_user_context st := None) \<and>
       (if req_op r0 = SEND \<or> req_op r0 = PUT then r = r0 else r = r0\<lparr>req_length := to_int64 (st_size st)\<rparr>))"
proof (cases "st_user_context st = nullptr")
  case True
  then show ?thesis using I by (simp add: get_request_from_status_def)
next
  case False
  then have J: "ctx_inv (st_user_context st # cs) s" using I by simp
  obtain r0 where r0: "heap s (st_user_context st) = Some r0" by (rule ctx_inv_live [OF J])
  have "ctx_inv cs (s\<lparr>heap := (heap s)(st_user_context st := None)\<rparr>)" using ctx_inv_delete [OF J] by auto
  then show ?thesis using False r0 by (cases "req_op r0") (simp_all add: get_request_from_status_def)
qed

lemma run_handlers_keeps:
  "ctx_inv (contexts cbs @ cs) s \<Longrightarrow> run_handlers cbs s = Inr s' \<Longrightarrow> ctx_inv cs s' \<and> llib2 s' = llib2 s"
proof (induction cbs arbitrary: s)
  case Nil
  then show ?case by (simp add: contexts_def)
next
  case (Cons cb cbs)
  obtain c st where cb: "cb = (c, st)" by fastforce
  obtain h s1 where s1: "comp_handler_lci_signal h st s = Inr s1" and r: "run_handlers cbs s1 = Inr s'"
    using Cons.prems(2) cb by (auto simp: deref_eq_Inr split: comp_obj.splits elim!: bind_resE)
  have "ctx_inv (if st_user_context st = nullptr then contexts cbs @ cs else st_user_context st # contexts cbs @ cs) s"
    using Cons.prems(1) by (cases "st_user_context st = nullptr") (simp_all add: cb contexts_def)
  from get_request_ok [OF this] obtain q s2 where s2: "get_request_from_status st s = Inr (q, s2)"
    "ctx_inv (contexts cbs @ cs) s2" "llib2 s2 = llib2 s" by blast
  have "s1 = log_event (Handler_call h q) s2" using s1 s2(1) by (simp add: comp_handler_lci_signal_def)
  then have "ctx_inv (contexts cbs @ cs) s1" "llib2 s1 = llib2 s"
    using s2 by (auto simp: log_event_def intro: ctx_inv_frame)
  then show ?case using Cons.IH [OF _ r] by simp
qed

lemma lci2_call_keeps:
  assumes I: "lci2_inv E held s" and r: "run_handlers cbs (s\<lparr>mem := m, llib2 := l\<rparr>) = Inr s'"
    and c: "mset (contexts cbs @ held l) = mset (held (llib2 s))"
  shows "lci2_inv E held s'"
proof -
  have "ctx_inv (contexts cbs @ held l) (s\<lparr>mem := m, llib2 := l\<rparr>)"
    by (rule ctx_inv_frame [OF ctx_inv_perm [OF lci2_invD(2) [OF I] c]]) simp_all
  from run_handlers_keeps [OF this r] show ?thesis using lci2_invD(1) [OF I] by (simp add: lci2_inv_def)
qed

lemma lci2_posted_keeps:
  assumes I: "lci2_inv E held s" and n: "new_request r s = (p, s1)"
    and c: "posts2 held p (llib2 s1) res" and f: "lci2_posted E p res s1 = Inr (ret, s')"
  shows "lci2_inv E held s'"
proof -
  obtain st cbs m l where res: "res = (st, cbs, m, l)" by (cases res) auto
  note N = ctx_inv_new [OF lci2_invD(2) [OF I] n]
  have l1: "llib2 s1 = llib2 s" using n by (auto simp: new_request_def)
  have pr: "is_posted st \<or> is_retry st"
    and m: "mset (contexts cbs @ held l) = (if is_posted st then add_mset p (mset (held (llib2 s))) else mset (held (llib2 s)))"
    using c res N(3) l1 by (simp_all add: posts2_def)
  obtain s2 where s2: "run_handlers cbs (s1\<lparr>mem := m, llib2 := l\<rparr>) = Inr s2"
    and s': "if is_retry st then delete_request p s2 = Inr s' else s' = s2"
    using f res by (auto simp: lci2_posted_def split: if_splits elim!: bind_resE)
  have "ctx_inv (held l) s' \<and> llib2 s' = l"
  proof (cases "is_posted st")
    case True
    have "ctx_inv (contexts cbs @ held l) (s1\<lparr>mem := m, llib2 := l\<rparr>)"
      by (rule ctx_inv_frame [OF ctx_inv_perm [OF N(1)]]) (use m True in simp_all)
    from run_handlers_keeps [OF this s2] True s' show ?thesis by (simp add: is_posted_def is_retry_def)
  next
    case False
    then have rt: "is_retry st" using pr by simp
    have "ctx_inv (contexts cbs @ p # held l) (s1\<lparr>mem := m, llib2 := l\<rparr>)"
      by (rule ctx_inv_frame [OF ctx_inv_perm [OF N(1)]]) (use m False in simp_all)
    from run_handlers_keeps [OF this s2] have k: "ctx_inv (p # held l) s2" "llib2 s2 = l" by simp_all
    have d: "delete_request p s2 = Inr s'" using s' rt by simp
    then have "llib2 s' = llib2 s2" by (auto simp: delete_request_def split: option.splits)
    then show ?thesis using ctx_inv_deleted [OF k(1) d] k(2) by simp
  qed
  then show ?thesis using lci2_invD(1) [OF I] by (simp add: lci2_inv_def)
qed


section \<open>The LCI2 backend meets the contract\<close>

lemma lci2_inv_send: "lci2_inv E held s \<Longrightarrow> lci2_send E d rank tag buf len c ctx s = Inr (ret, s') \<Longrightarrow> lci2_inv E held s'"
  by (auto simp: lci2_send_def split: prod.splits elim!: bind_resE
      intro: lci2_posted_keeps lci2_tracksD(1) dest: lci2_invD(1))

lemma lci2_inv_recv: "lci2_inv E held s \<Longrightarrow> lci2_recv E d rank tag buf len c ctx s = Inr (ret, s') \<Longrightarrow> lci2_inv E held s'"
  by (auto simp: lci2_recv_def split: prod.splits elim!: bind_resE
      intro: lci2_posted_keeps lci2_tracksD(2) dest: lci2_invD(1))

lemma lci2_inv_put: "lci2_inv E held s \<Longrightarrow> lci2_put E d rank buf len c ctx s = Inr (ret, s') \<Longrightarrow> lci2_inv E held s'"
  by (auto simp: lci2_put_def split: prod.splits elim!: bind_resE
      intro: lci2_posted_keeps lci2_tracksD(3) dest: lci2_invD(1))

lemma lci2_inv_do_progress:
  assumes I: "lci2_inv E held s" and p: "lci2_do_progress E d s = Inr (r, s')"
  shows "lci2_inv E held s'"
proof -
  obtain dv st cbs m l where q: "LCI2_progress E dv (mem s) (llib2 s) = (st, cbs, m, l)"
    and r: "run_handlers cbs (s\<lparr>mem := m, llib2 := l\<rparr>) = Inr s'"
    using p by (auto simp: lci2_do_progress_def split: prod.splits elim!: bind_resE)
  show ?thesis by (rule lci2_call_keeps [OF I r lci2_tracksD(5) [OF lci2_invD(1) [OF I] q]])
qed

lemma lci2_inv_barrier:
  assumes I: "lci2_inv E held s" and p: "lci2_barrier E d s = Inr s'"
  shows "lci2_inv E held s'"
proof -
  obtain dv cbs m l where q: "LCI2_barrier E dv (mem s) (llib2 s) = (cbs, m, l)"
    and r: "run_handlers cbs (s\<lparr>mem := m, llib2 := l\<rparr>) = Inr s'"
    using p by (auto simp: lci2_barrier_def split: prod.splits elim!: bind_resE)
  show ?thesis by (rule lci2_call_keeps [OF I r lci2_tracksD(6) [OF lci2_invD(1) [OF I] q]])
qed

lemma lci2_pop_ok:
  assumes I: "lci2_inv E held s" and q: "LCI2_cq_pop E c (llib2 s) = (st, l)" and "\<not> is_retry st"
  shows "ctx_inv (if st_user_context st = nullptr then held l else st_user_context st # held l) (s\<lparr>llib2 := l\<rparr>)"
  using lci2_tracksD(4) [OF lci2_invD(1) [OF I] q] assms(3)
  by (intro ctx_inv_frame [OF ctx_inv_perm [OF lci2_invD(2) [OF I]]]) (simp_all split: if_splits)

lemma lci2_inv_poll_cq:
  assumes I: "lci2_inv E held s" and p: "lci2_poll_cq E c out s = Inr (b, r, s')"
  shows "lci2_inv E held s'"
proof -
  obtain st l where q: "LCI2_cq_pop E c (llib2 s) = (st, l)" by fastforce
  show ?thesis
  proof (cases "is_retry st")
    case True
    then show ?thesis using p q lci2_tracksD(4) [OF lci2_invD(1) [OF I] q]
      by (intro lci2_inv_frame [OF I]) (auto simp: lci2_poll_cq_def Let_def)
  next
    case False
    from get_request_ok [OF lci2_pop_ok [OF I q False]] obtain x t where
      x: "get_request_from_status st (s\<lparr>llib2 := l\<rparr>) = Inr (x, t)" and J: "ctx_inv (held l) t" "llib2 t = l" by auto
    have "\<exists>h. s' = pcounter_add E h 1 t" using p q False x by (auto simp: lci2_poll_cq_def Let_def split: op_t.splits)
    then have "ctx_inv (held l) s' \<and> llib2 s' = l"
      using J by (auto simp: pcounter_add_def log_event_def intro: ctx_inv_frame)
    then show ?thesis using lci2_invD(1) [OF I] by (simp add: lci2_inv_def)
  qed
qed

lemma lci2_inv_alloc_device:
  assumes I: "lci2_inv E held s" and a: "lci2_alloc_device E n c s = Inr (d, s')"
  shows "lci2_inv E held s'"
proof -
  have "llib2 s' = snd (LCI2_alloc_device E (snd (register_rcomp E c (llib2 s))))" "heap s' = heap s" "comps s' = comps s"
    "next_obj s' = Suc (next_obj s)"
    using a by (auto simp: lci2_alloc_device_def Let_def split: prod.splits)
  then show ?thesis using lci2_tracksD(8,10) [OF lci2_invD(1) [OF I]] by (intro lci2_inv_frame [OF I]) simp_all
qed

text \<open>Devices and queues are freed only when the library drops no context with them.\<close>

definition lci2_allowed :: "('q, 'l) lci2_env \<Rightarrow> ('l \<Rightarrow> ptr list) \<Rightarrow> api_call \<Rightarrow> ('q, 'l) lci2_st \<Rightarrow> bool" where
  "lci2_allowed E held c s =
     (case c of
        Free_device d \<Rightarrow> (case lci2_free_device E d s of Inl _ \<Rightarrow> True | Inr s' \<Rightarrow> mset (held (llib2 s')) = mset (held (llib2 s)))
      | Free_cq p \<Rightarrow> mset (held (LCI2_free_comp E p (llib2 s))) = mset (held (llib2 s))
      | _ \<Rightarrow> True)"

interpretation lci2_backend: backend_contract "backend_lci2_t E" "lci2_inv E held" "lci2_allowed E held"
  for E held
proof (unfold_locales, goal_cases)
  case (1 s t)
  then show ?case by (rule lci2_inv_frame) simp_all
next
  case (3 s d s')
  then have f: "lci2_free_device E d s = Inr s'" "mset (held (llib2 s')) = mset (held (llib2 s))"
    by (simp_all add: backend_lci2_t_def lci2_allowed_def)
  then show ?case by (intro lci2_inv_frame [OF 3(1)]) (auto simp: lci2_free_device_def elim!: bind_resE)
next
  case (5 s f c s')
  then have n: "new_comp (Comp_handler f) s = (c, s')" by (simp add: backend_lci2_t_def lci2_alloc_handler_def)
  then have "llib2 s' = llib2 s" by (auto simp: new_comp_def)
  then show ?case using 5(1) ctx_inv_new_comp [OF lci2_invD(2) [OF 5(1)] n] by (simp add: lci2_inv_def)
next
  case (6 s c s')
  then have f: "util_free_handler c s = Inr s'" by (simp add: backend_lci2_t_def lci2_free_handler_def util_free_handler_def)
  then have "llib2 s' = llib2 s" by (auto simp: util_free_handler_def split: if_splits comp_obj.splits elim!: bind_resE)
  then show ?case using 6(1) ctx_inv_free_handler [OF lci2_invD(2) [OF 6(1)] f] by (simp add: lci2_inv_def)
next
  case (7 s c s')
  then have "s' = s\<lparr>llib2 := snd (LCI2_alloc_cq E (llib2 s))\<rparr>"
    by (auto simp: backend_lci2_t_def lci2_alloc_cq_def split: prod.splits)
  then show ?case using lci2_tracksD(9) [OF lci2_invD(1) [OF 7(1)]] by (intro lci2_inv_frame [OF 7(1)]) simp_all
next
  case (8 s c s')
  then show ?case by (intro lci2_inv_frame [OF 8(1)]) (auto simp: backend_lci2_t_def lci2_free_cq_def lci2_allowed_def)
next
  case (14 s a)
  then show ?case using lci2_tracksD(11) [OF lci2_invD(1) [OF 14]]
    by (intro lci2_inv_frame [OF 14]) (simp_all add: backend_lci2_t_def lci2_set_custom_allocator_def Let_def)
qed (auto simp: backend_lci2_t_def intro: lci2_inv_alloc_device lci2_inv_poll_cq lci2_inv_do_progress
    lci2_inv_send lci2_inv_recv lci2_inv_put lci2_inv_barrier)

section \<open>Properties\<close>

definition lci2_start :: "('l \<Rightarrow> ptr list) \<Rightarrow> ('q, 'l) lci2_st \<Rightarrow> bool" where
  "lci2_start held s \<longleftrightarrow> heap s = Map.empty \<and> comps s = Map.empty \<and> 0 < next_obj s \<and> held (llib2 s) = []"

lemma lci2_inv_start:
  "lci2_tracks E held \<Longrightarrow> lci2_start held s \<Longrightarrow> lci2_inv E held s"
  by (simp add: lci2_start_def lci2_inv_def ctx_inv_def fresh_ok_def partitioned_def)

text \<open>C21: Any program over the public API of an LCW initialized with the LCI2 backend, with completion queues and
  handlers, keeps the live \<^verbatim>\<open>request_t\<close> objects equal to the user contexts LCI still owes, each
  exactly once, whether the completions go to queues or to handlers that run inside other calls.\<close>

theorem lci2_programs_own_requests:
  assumes "lci2_tracks E held" and "lci2_start held (inner s0)" and "class_of LCI2 = backend_lci2_t E"
    and "lcw_initialize E getenv class_of LCI2 s0 = Inr s" and "api_run E (lci2_allowed E held) s cs s'"
  shows "distinct (held (llib2 (inner s'))) \<and> set (held (llib2 (inner s'))) = dom (heap (inner s'))"
proof -
  obtain x where x: "lci2_initialize E (base_construct (inner s0)) = Inr x"
    and s: "backend_p s = Some (backend_lci2_t E)" "inner s = pcounter_initialize E x"
    using assms(3,4)
    by (auto simp: lcw_initialize_def alloc_backend_def backend_lci2_t_def Let_def split: if_splits elim!: bind_resE)
  have "lci2_inv E held (inner s)" unfolding s(2)
    by (rule lci2_inv_frame [OF lci2_inv_start [OF assms(1,2)]])
      (use x lci2_tracksD(7) [OF assms(1)] in
        \<open>auto simp: pcounter_initialize_def fold_log_event lci2_initialize_def base_construct_def simp del: fold.simps\<close>)
  from lci2_backend.run_keeps [OF assms(5) s(1) this] have "lci2_inv E held (inner s')" by blast
  then show ?thesis using ctx_invD(2,3) [OF lci2_invD(2)] by blast
qed

text \<open>C24: A report that LCI2 gives is delivered exactly once and faithfully: \<^verbatim>\<open>poll_cq\<close> returns the posted request
  (a receive with the size that arrived) and deletes it, or, without a user context, a \<^verbatim>\<open>PUT_SIGNAL\<close>
  with the buffer and size of the message; with nothing to report it returns false and changes
  neither the heap nor \<^verbatim>\<open>*request\<close>.\<close>

theorem lci2_poll_delivers:
  assumes I: "lci2_inv E held s" and q: "LCI2_cq_pop E c (llib2 s) = (st, l)"
  shows "\<exists>r s'. lci2_poll_cq E c out s = Inr (\<not> is_retry st, r, s') \<and>
    (if is_retry st then r = out \<and> heap s' = heap s
     else if st_user_context st = nullptr
     then heap s' = heap s \<and> r = \<lparr>req_op = PUT_SIGNAL, req_device = nullptr, req_rank = st_rank st, req_tag = st_tag st,
              req_buffer = st_buffer st, req_length = to_int64 (st_size st), req_user_context = nullptr\<rparr>
     else \<exists>r0. heap s (st_user_context st) = Some r0 \<and> heap s' = (heap s)(st_user_context st := None) \<and>
       (if req_op r0 = SEND \<or> req_op r0 = PUT then r = r0 else r = r0\<lparr>req_length := to_int64 (st_size st)\<rparr>))"
proof (cases "is_retry st")
  case True
  then show ?thesis using q by (simp add: lci2_poll_cq_def Let_def)
next
  case False
  from get_request_ok [OF lci2_pop_ok [OF I q False]] obtain x t where
    x: "get_request_from_status st (s\<lparr>llib2 := l\<rparr>) = Inr (x, t)" and
    res: "if st_user_context st = nullptr
     then t = s\<lparr>llib2 := l\<rparr> \<and> x = \<lparr>req_op = PUT_SIGNAL, req_device = nullptr, req_rank = st_rank st, req_tag = st_tag st,
              req_buffer = st_buffer st, req_length = to_int64 (st_size st), req_user_context = nullptr\<rparr>
     else \<exists>r0. heap (s\<lparr>llib2 := l\<rparr>) (st_user_context st) = Some r0 \<and>
       heap t = (heap (s\<lparr>llib2 := l\<rparr>))(st_user_context st := None) \<and>
       (if req_op r0 = SEND \<or> req_op r0 = PUT then x = r0 else x = r0\<lparr>req_length := to_int64 (st_size st)\<rparr>)" by blast
  have "\<exists>h. lci2_poll_cq E c out s = Inr (True, x, pcounter_add E h 1 t)"
    using q False x by (auto simp: lci2_poll_cq_def Let_def split: op_t.splits)
  then obtain h where "lci2_poll_cq E c out s = Inr (True, x, pcounter_add E h 1 t)" by blast
  then show ?thesis using False res by (cases "st_user_context st = nullptr") auto
qed

section \<open>Instances\<close>

text \<open>
  A library that posts one operation at a time and reports it at once: to the handler with
  address 1 when that is the completion, to the one queue otherwise.
\<close>

definition ref_lci2_st :: "(ptr list, status_t list) lci2_st" where
  "ref_lci2_st = rt.extend ref_rt \<lparr>llib2 = [], lci2_devices = Map.empty, lci2_ndevices = 0, lci2_allocators = Map.empty\<rparr>"

definition ref_report :: "errorcode_t \<Rightarrow> int \<Rightarrow> int \<Rightarrow> ptr \<Rightarrow> int \<Rightarrow> ptr \<Rightarrow> status_t" where
  "ref_report e rank tag buf n ctx =
     \<lparr>st_error = e, st_rank = rank, st_tag = tag, st_buffer = buf, st_size = n, st_user_context = ctx\<rparr>"

definition ref_lci2_post :: "ptr \<Rightarrow> status_t \<Rightarrow> mem \<Rightarrow> status_t list \<Rightarrow> status_t \<times> (ptr \<times> status_t) list \<times> mem \<times> status_t list" where
  "ref_lci2_post c st m l =
     (if l \<noteq> [] then (st\<lparr>st_error := Retry\<rparr>, [], m, l)
      else if c = 1 then (st\<lparr>st_error := Posted\<rparr>, [(c, st)], m, l)
      else (st\<lparr>st_error := Posted\<rparr>, [], m, [st]))"

definition ref_reported :: "status_t list \<Rightarrow> ptr list" where
  "ref_reported l = filter (\<lambda>p. p \<noteq> nullptr) (map st_user_context l)"

definition ref_lci2 :: "(ptr list, status_t list) lci2_env" where
  "ref_lci2 = env.extend (ref_env\<lparr>build := ref_build\<lparr>LCW_ENABLE_BACKEND_LCI2 := True, LCW_ENABLE_PCOUNTER := False\<rparr>\<rparr>)
     \<lparr>g_runtime_init = (\<lambda>_ l. l), g_runtime_fina = (\<lambda>l. l), get_rank_me = (\<lambda>_. 0), get_rank_n = (\<lambda>_. 1),
      get_max_bcopy_size = (\<lambda>_. 8192), register_rcomp = (\<lambda>_ l. (3, l)), deregister_rcomp = (\<lambda>_ l. l),
      LCI2_alloc_device = (\<lambda>l. (4, l)), LCI2_free_device = (\<lambda>_ l. l),
      LCI2_progress = (\<lambda>_ m l. (ref_report Retry 0 0 0 0 0, [], m, l)),
      LCI2_alloc_cq = (\<lambda>l. (9, l)), LCI2_free_comp = (\<lambda>_ l. l),
      LCI2_cq_pop = (\<lambda>_ l. case l of [] \<Rightarrow> (ref_report Retry 0 0 0 0 0, []) | st # sts \<Rightarrow> (st\<lparr>st_error := Done\<rparr>, sts)),
      LCI2_post_send = (\<lambda>rank buf n tag c _ ctx. ref_lci2_post c (ref_report Done rank tag buf n ctx)),
      LCI2_post_recv = (\<lambda>rank buf n tag c _ ctx. ref_lci2_post c (ref_report Done rank tag buf n ctx)),
      LCI2_post_am = (\<lambda>rank buf n c _ _ ctx. ref_lci2_post c (ref_report Done rank 0 buf n ctx)),
      get_attr_max_imm_tag = (\<lambda>_. 65535), LCI2_barrier = (\<lambda>_ m l. ([], m, l)), LCI2_set_allocator = (\<lambda>_ l. l)\<rparr>"

lemma ref_lci2_tracks: "lci2_tracks ref_lci2 ref_reported"
  by (simp add: lci2_tracks_def ref_lci2_def env.defs posts2_def ref_lci2_post_def ref_report_def contexts_def
      ref_reported_def is_posted_def is_retry_def split: list.split)

lemma ref_lci2_start: "lci2_start ref_reported ref_lci2_st"
  by (simp add: lci2_start_def ref_lci2_st_def ref_rt_def rt.defs ref_reported_def)

definition ref_lci2_lcw :: "(ptr list, status_t list) lci2_st lcw_st" where
  "ref_lci2_lcw = \<lparr>backend_p = None, inner = ref_lci2_st, globals = spin_globals_init, lct_ready = False, log_ready = False, lct_rank = 0\<rparr>"

text \<open>A handler, a device, a send that completes through the handler, and a receive that goes to the queue.\<close>

definition ref_lci2_calls :: "api_call list" where
  "ref_lci2_calls = [Alloc_handler 77, Alloc_device 64 9, Send 2 0 5 4096 8 1 0, Recv 2 0 5 4096 8 9 0]"

definition ref_lci2_exec :: "(ptr list, status_t list) lci2_st lcw_st res" where
  "ref_lci2_exec =
     bind_res (lcw_initialize ref_lci2 Map.empty (\<lambda>_. backend_lci2_t ref_lci2) LCI2 ref_lci2_lcw) (api_exec ref_lci2 ref_lci2_calls)"

lemma ref_lci2_runs:
  "case ref_lci2_exec of Inl _ \<Rightarrow> False | Inr s \<Rightarrow>
     llib2 (inner s) = [ref_report Done 0 5 4096 8 4] \<and>
     map (\<lambda>e. case e of Handler_call h r \<Rightarrow> (h, req_op r) | _ \<Rightarrow> (0, PUT)) (trace (inner s)) = [(77, SEND)]"
  by code_simp

lemma ref_lci2_execE:
  obtains s1 s where "lcw_initialize ref_lci2 Map.empty (\<lambda>_. backend_lci2_t ref_lci2) LCI2 ref_lci2_lcw = Inr s1"
    "ref_lci2_exec = Inr s" "api_run ref_lci2 (lci2_allowed ref_lci2 ref_reported) s1 ref_lci2_calls s"
    "llib2 (inner s) = [ref_report Done 0 5 4096 8 4]"
proof -
  obtain s s1 where s: "ref_lci2_exec = Inr s"
    and s1: "lcw_initialize ref_lci2 Map.empty (\<lambda>_. backend_lci2_t ref_lci2) LCI2 ref_lci2_lcw = Inr s1"
      "api_exec ref_lci2 ref_lci2_calls s1 = Inr s"
    using ref_lci2_runs by (auto simp: ref_lci2_exec_def split: sum.splits elim!: bind_resE)
  have al: "lci2_allowed ref_lci2 ref_reported c i" if "c \<in> set ref_lci2_calls" for c and i :: "(ptr list, status_t list) lci2_st"
    using that by (auto simp: ref_lci2_calls_def lci2_allowed_def)
  have r: "api_run ref_lci2 (lci2_allowed ref_lci2 ref_reported) s1 ref_lci2_calls s"
    using api_exec_run [OF al api_run.start s1(2)] by simp
  have "llib2 (inner s) = [ref_report Done 0 5 4096 8 4]" using ref_lci2_runs unfolding s by simp
  with r show ?thesis by (rule that [OF s1(1) s])
qed

theorem lci2_programs_own_requests_witness:
  "\<exists>s. ref_lci2_exec = Inr s \<and> dom (heap (inner s)) = {4}"
proof -
  obtain s1 s where s1: "lcw_initialize ref_lci2 Map.empty (\<lambda>_. backend_lci2_t ref_lci2) LCI2 ref_lci2_lcw = Inr s1"
    and s: "ref_lci2_exec = Inr s" and r: "api_run ref_lci2 (lci2_allowed ref_lci2 ref_reported) s1 ref_lci2_calls s"
    and l: "llib2 (inner s) = [ref_report Done 0 5 4096 8 4]" by (rule ref_lci2_execE)
  have "lci2_start ref_reported (inner ref_lci2_lcw)" using ref_lci2_start by (simp add: ref_lci2_lcw_def)
  then have "set (ref_reported (llib2 (inner s))) = dom (heap (inner s))"
    using lci2_programs_own_requests [OF ref_lci2_tracks _ _ s1 r] by blast
  then have "dom (heap (inner s)) = {4}" using l by (auto simp: ref_reported_def ref_report_def)
  then show ?thesis using s by blast
qed

theorem lci2_poll_delivers_witness:
  "\<exists>s r s'. ref_lci2_exec = Inr s \<and> lci2_poll_cq ref_lci2 9 (ref_request SEND 0) (inner s) = Inr (True, r, s') \<and>
     heap s' = (heap (inner s))(4 := None)"
proof -
  obtain s1 s where s1: "lcw_initialize ref_lci2 Map.empty (\<lambda>_. backend_lci2_t ref_lci2) LCI2 ref_lci2_lcw = Inr s1"
    and s: "ref_lci2_exec = Inr s" and r: "api_run ref_lci2 (lci2_allowed ref_lci2 ref_reported) s1 ref_lci2_calls s"
    and l: "llib2 (inner s) = [ref_report Done 0 5 4096 8 4]" by (rule ref_lci2_execE)
  have i: "inner s1 = ref_lci2_st \<and> backend_p s1 = Some (backend_lci2_t ref_lci2)"
    using s1 by (auto simp: lcw_initialize_def alloc_backend_def backend_lci2_t_def Let_def lci2_initialize_def
      ref_lci2_lcw_def pcounter_initialize_def base_construct_def ref_lci2_st_def ref_rt_def rt.defs
      ref_lci2_def ref_env_def env.defs split: if_splits elim!: bind_resE)
  have I: "lci2_inv ref_lci2 ref_reported (inner s)"
    using lci2_backend.run_keeps [OF r conjunct2 [OF i]] i lci2_inv_start [OF ref_lci2_tracks ref_lci2_start] by simp
  have q: "LCI2_cq_pop ref_lci2 9 (llib2 (inner s)) = (ref_report Done 0 5 4096 8 4, [])"
    using l by (simp add: ref_lci2_def env.defs ref_report_def)
  show ?thesis using lci2_poll_delivers [OF I q, of "ref_request SEND 0"] s by (fastforce simp: ref_report_def is_retry_def)
qed

end
