(* ===== verification/LCW_Backends_Delivery.thy ===== *)
theory LCW_Backends_Delivery
  imports LCW_Gex LCW_Lci LCW_Lci2 LCW_Delivery
begin

text \<open>The GASNet-EX, LCI and LCI2 backends deliver every send and put exactly once.\<close>

section \<open>GASNet-EX\<close>

lemma moves_gex_fields [simp]: "moves P D s (t\<lparr>glib := l\<rparr>) \<longleftrightarrow> moves P D s t"
  by (rule moves_cong) simp_all

lemma quiet_gex_reqhandler:
  assumes "gex_reqhandler E rank buf n i s = Inr s'"
  shows "quiet s s'"
proof -
  obtain b c r where s': "util_signal_comp E c r (pcounter_add E put_signal 1 (s\<lparr>blocks := (b, n) # blocks s, mem := memcpy b buf n (mem s)\<rparr>)) = Inr s'"
    and r: "req_op r = PUT_SIGNAL"
    using assms unfolding gex_reqhandler_def Let_def by (auto split: option.splits if_splits elim!: bind_resE)
  have "moves (as_out r) {#} s s'" by (rule quiet_trans [OF _ moves_signal [OF s']]) simp
  then show ?thesis using r by simp
qed

lemma quiet_run_ams: "run_ams E ams s = Inr s' \<Longrightarrow> quiet s s'"
proof (induction ams arbitrary: s)
  case (Cons am ams)
  let ?t = "s\<lparr>mem := store_bytes (am_buf am) (am_data am) (mem s)\<rparr>"
  obtain s1 where s1: "gex_reqhandler E (am_src am) (am_buf am) (length (am_data am)) (am_arg am) ?t = Inr s1"
    and s': "run_ams E ams s1 = Inr s'" using Cons.prems by (auto elim!: bind_resE)
  have "quiet s ?t" by simp
  from quiet_trans [OF this quiet_trans [OF quiet_gex_reqhandler [OF s1] Cons.IH [OF s']]] show ?case .
qed simp

lemma quiet_run_ams_glib: "run_ams E ams (s\<lparr>glib := l\<rparr>) = Inr s' \<Longrightarrow> quiet s s'"
  by (rule quiet_trans [OF _ quiet_run_ams]) simp_all

lemma gex_put_moves:
  assumes "gex_put E d rank buf len c ctx s = Inr (ret, s')"
  shows "\<exists>r. posts (Put d rank buf len c ctx) r \<and> moves (if ret then {#r#} else {#}) {#} s s'"
proof -
  define r where "r = \<lparr>req_op = PUT, req_device = d, req_rank = rank, req_tag = 0, req_buffer = buf, req_length = len, req_user_context = ctx\<rparr>"
  obtain ams l s1 where s1: "run_ams E ams (s\<lparr>glib := l\<rparr>) = Inr s1" and s': "util_signal_comp E c r s1 = Inr s'" and ret
    using assms by (auto simp: gex_put_def r_def Let_def split: prod.splits elim!: bind_resE)
  have "moves (as_out r) {#} s s'" by (rule quiet_trans [OF quiet_run_ams_glib [OF s1] moves_signal [OF s']])
  then show ?thesis using \<open>ret\<close> by (intro exI [of _ r]) (simp add: r_def)
qed

interpretation gex_delivery: exactly_once "backend_gex_t E" for E
proof (unfold_locales, goal_cases)
  case (1 n c s d s')
  then show ?case by (intro quiet_bump) (auto simp: backend_gex_t_def gex_alloc_device_def Let_def)
next
  case (2 d s s')
  then show ?case by (intro quiet_bump) (auto simp: backend_gex_t_def gex_free_device_def split: if_splits elim!: bind_resE)
next
  case (9 s a)
  then show ?case by (intro quiet_bump) (simp_all add: backend_gex_t_def gex_set_custom_allocator_def base_set_custom_allocator_def)
next
  case (12 d rank buf len c ctx s ret s')
  then show ?case by (intro gex_put_moves) (simp add: backend_gex_t_def)
next
  case (13 c q s ret q' s')
  then show ?case by (intro moves_poll) (simp add: backend_gex_t_def base_poll_cq_def)
qed (auto simp: backend_gex_t_def gex_send_def gex_recv_def gex_barrier_def gex_barrier_all_def gex_do_progress_def Let_def
    split: prod.splits elim!: bind_resE intro: quiet_run_ams_glib base_quiet)

section \<open>LCI\<close>

lemma moves_lci_fields [simp]: "moves P D s (t\<lparr>llib := l\<rparr>) \<longleftrightarrow> moves P D s t"
  by (rule moves_cong) simp_all

lemma quiet_lci_safe: "lci_safe f s = Inr s' \<Longrightarrow> quiet s s'" "lci_safe_handle g s = Inr (h, s') \<Longrightarrow> quiet s s'"
  by (auto simp: lci_safe_def lci_safe_handle_def split: prod.splits elim!: bind_resE)

lemma lci_posted_moves:
  assumes n: "new_request r s = (p, s1)" and f: "lci_posted E b p x s1 = Inr (ret, s')"
  shows "moves (if ret then as_out r else {#}) {#} s s'"
proof -
  have h: "heap s1 p = Some r" using n by (auto simp: new_request_def)
  have 1: "moves (as_out r) {#} s (s1\<lparr>llib := snd x\<rparr>)" using moves_new_request [OF n] by simp
  show ?thesis
  proof (cases "fst x = LCI_OK")
    case True
    then show ?thesis using f 1 by (auto simp: lci_posted_def split: prod.splits elim!: bind_resE)
  next
    case False
    then have d: "delete_request p (s1\<lparr>llib := snd x\<rparr>) = Inr s'" "\<not> ret"
      using f by (auto simp: lci_posted_def split: prod.splits elim!: bind_resE)
    have "moves (as_out r) (as_out r) s s'"
      by (rule moves_trans [OF 1 moves_delete [OF d(1)]]) (simp_all add: h)
    then show ?thesis using d(2) by (simp add: moves_def ac_simps)
  qed
qed

lemma lci_poll_moves:
  assumes "lci_poll_cq E c q s = Inr (ret, q', s')"
  shows "moves {#} (if ret then as_out q' else {#}) s s'"
proof -
  obtain e lr l where pop: "LCI_queue_pop E c (llib s) = (e, lr, l)" by (cases "LCI_queue_pop E c (llib s)")
  show ?thesis
  proof (cases "e = LCI_ERR_RETRY")
    case True
    then show ?thesis using assms pop by (auto simp: lci_poll_cq_def)
  next
    case False
    then obtain s1 where s1: "(if lr_user_context lr = nullptr then lci_put_signal E lr (s\<lparr>llib := l\<rparr>)
        else lci_context_done lr (s\<lparr>llib := l\<rparr>)) = Inr (q', s1)" and ret: ret and s': "s' = pcounter_add E (end_counter (req_op q')) 1 s1"
      using assms pop by (auto simp: lci_poll_cq_def Let_def split: if_splits elim!: bind_resE)
    have "moves {#} (as_out q') s s1"
    proof (cases "lr_user_context lr = nullptr")
      case True
      then show ?thesis using s1 by (auto simp: lci_put_signal_def Let_def split: prod.splits elim!: bind_resE)
    next
      case False
      then obtain r where r: "heap (s\<lparr>llib := l\<rparr>) (lr_user_context lr) = Some r" "delete_request (lr_user_context lr) (s\<lparr>llib := l\<rparr>) = Inr s1"
        "as_out q' = as_out r"
        using s1 by (auto simp: lci_context_done_def deref_eq_Inr split: if_splits elim!: bind_resE)
      have "quiet s (s\<lparr>llib := l\<rparr>)" by simp
      then have "moves {#} (as_out r) s s1" using moves_delete [OF r(2,1)] by (rule quiet_trans)
      then show ?thesis using r(3) by simp
    qed
    then show ?thesis using ret s' by simp
  qed
qed

lemma lci_make_endpoint_quiet: "lci_make_endpoint E dev c s = Inr (ep, s') \<Longrightarrow> quiet s s'"
  unfolding lci_make_endpoint_def
  by (auto elim!: bind_resE dest!: quiet_lci_safe) (meson quiet_trans)

lemma lci_send_moves:
  assumes "lci_send E d rank tag buf len c ctx s = Inr (ret, s')"
  shows "\<exists>r. posts (Send d rank tag buf len c ctx) r \<and> moves (if ret then {#r#} else {#}) {#} s s'"
proof -
  define r where "r = \<lparr>req_op = SEND, req_device = d, req_rank = rank, req_tag = tag, req_buffer = buf, req_length = len, req_user_context = ctx\<rparr>"
  obtain p s1 where n: "new_request r s = (p, s1)" by (cases "new_request r s")
  have "\<exists>x. lci_posted E True p x s1 = Inr (ret, s')"
    using assms n by (auto simp: lci_send_def r_def simp del: split_paired_Ex split: if_splits elim!: bind_resE)
  then have "moves (if ret then as_out r else {#}) {#} s s'" using lci_posted_moves [OF n] by blast
  then show ?thesis by (intro exI [of _ r]) (cases ret; simp add: r_def)
qed

lemma lci_put_moves:
  assumes "lci_put E d rank buf len c ctx s = Inr (ret, s')"
  shows "\<exists>r. posts (Put d rank buf len c ctx) r \<and> moves (if ret then {#r#} else {#}) {#} s s'"
proof -
  define r where "r = \<lparr>req_op = PUT, req_device = d, req_rank = rank, req_tag = 0, req_buffer = buf, req_length = len, req_user_context = ctx\<rparr>"
  obtain p s1 where n: "new_request r s = (p, s1)" by (cases "new_request r s")
  have "\<exists>x. lci_posted E True p x s1 = Inr (ret, s')"
    using assms n by (auto simp: lci_put_def r_def simp del: split_paired_Ex split: if_splits elim!: bind_resE)
  then have "moves (if ret then as_out r else {#}) {#} s s'" using lci_posted_moves [OF n] by blast
  then show ?thesis by (intro exI [of _ r]) (cases ret; simp add: r_def)
qed

lemma lci_recv_quiet:
  assumes "lci_recv E d rank tag buf len c ctx s = Inr (ret, s')"
  shows "quiet s s'"
proof -
  define r where "r = \<lparr>req_op = RECV, req_device = d, req_rank = rank, req_tag = tag, req_buffer = buf, req_length = len, req_user_context = ctx\<rparr>"
  obtain p s1 where n: "new_request r s = (p, s1)" by (cases "new_request r s")
  have "\<exists>x. lci_posted E False p x s1 = Inr (ret, s')"
    using assms n by (auto simp: lci_recv_def r_def simp del: split_paired_Ex split: if_splits elim!: bind_resE)
  then have "moves (if ret then as_out r else {#}) {#} s s'" using lci_posted_moves [OF n] by blast
  then show ?thesis by (cases ret) (simp_all add: r_def)
qed

lemma lci_alloc_device_quiet:
  assumes "lci_alloc_device E n c s = Inr (d, s')"
  shows "quiet s s'"
proof -
  let ?s0 = "s\<lparr>next_obj := Suc (next_obj s), lci_ndevices := to_int (lci_ndevices s + 1)\<rparr>"
  obtain dev s1 ep s2 ds where s1: "(if lci_ndevices s = 0 then Inr (LCI_UR_DEVICE E, ?s0) else lci_safe_handle (LCI_device_init E) ?s0) = Inr (dev, s1)"
    and s2: "lci_make_endpoint E dev c s1 = Inr (ep, s2)" and s': "s' = s2\<lparr>lci_devices := ds\<rparr>"
    using assms unfolding lci_alloc_device_def Let_def by (auto elim!: bind_resE)
  have "quiet s ?s0" by (rule quiet_bump) simp_all
  moreover have "quiet ?s0 s1" using s1 by (auto split: if_splits dest: quiet_lci_safe)
  moreover have "quiet s2 s'" unfolding s' by (rule quiet_bump) simp_all
  ultimately show ?thesis using lci_make_endpoint_quiet [OF s2] by (blast intro: quiet_trans)
qed

interpretation lci_delivery: exactly_once "backend_lci_t E" for E
proof (unfold_locales, goal_cases)
  case (2 d s s')
  then show ?case
    by (auto simp: backend_lci_t_def lci_free_device_def split: if_splits elim!: bind_resE dest!: quiet_lci_safe intro: quiet_trans)
next
  case (9 s a)
  then show ?case by (intro quiet_bump) (simp_all add: backend_lci_t_def base_set_custom_allocator_def)
next
  case (11 d rank tag buf len c ctx s ret s')
  then show ?case by (intro lci_send_moves) (simp add: backend_lci_t_def)
next
  case (12 d rank buf len c ctx s ret s')
  then show ?case by (intro lci_put_moves) (simp add: backend_lci_t_def)
next
  case (13 c q s ret q' s')
  then show ?case by (intro lci_poll_moves) (simp add: backend_lci_t_def)
qed (auto simp: backend_lci_t_def lci_do_progress_def lci_alloc_cq_def lci_free_cq_def lci_barrier_def Let_def
    split: prod.splits elim!: bind_resE intro: lci_alloc_device_quiet lci_recv_quiet base_quiet quiet_lci_safe)

section \<open>LCI2\<close>

lemma moves_lci2_fields [simp]: "moves P D s (t\<lparr>llib2 := l\<rparr>) \<longleftrightarrow> moves P D s t"
  by (rule moves_cong) simp_all

lemma get_request_moves:
  assumes "get_request_from_status st s = Inr (r, s')"
  shows "moves {#} (as_out r) s s'"
proof (cases "st_user_context st = nullptr")
  case True
  then show ?thesis using assms by (auto simp: get_request_from_status_def)
next
  case False
  then obtain r0 where r0: "heap s (st_user_context st) = Some r0" "delete_request (st_user_context st) s = Inr s'" "as_out r = as_out r0"
    using assms by (auto simp: get_request_from_status_def deref_eq_Inr split: if_splits elim!: bind_resE)
  from moves_delete [OF r0(2,1)] show ?thesis by (simp add: r0(3))
qed

lemma run_handlers_moves:
  "run_handlers cbs s = Inr s' \<Longrightarrow> quiet s s' \<and> (heap s' p = None \<or> heap s' p = heap s p)"
proof (induction cbs arbitrary: s)
  case (Cons cb cbs)
  obtain c st where cb: "cb = (c, st)" by fastforce
  obtain h r s0 where s0: "get_request_from_status st s = Inr (r, s0)" and r: "run_handlers cbs (log_event (Handler_call h r) s0) = Inr s'"
    using Cons.prems cb by (auto simp: comp_handler_lci_signal_def split: comp_obj.splits elim!: bind_resE)
  have "moves (as_out r) (as_out r) s (log_event (Handler_call h r) s0)"
    by (rule moves_trans [OF get_request_moves [OF s0] moves_handler]) simp_all
  then have 1: "quiet s (log_event (Handler_call h r) s0)" by (simp add: moves_def ac_simps)
  have "heap s0 p = None \<or> heap s0 p = heap s p"
    using s0 by (auto simp: get_request_from_status_def delete_request_def split: if_splits option.splits elim!: bind_resE)
  then show ?case using Cons.IH [OF r] quiet_trans [OF 1] by auto
qed simp

text \<open>With \<^verbatim>\<open>allow_done(false)\<close> an operation is posted or to be retried.\<close>

definition posts_or_retries :: "('q, 'l) lci2_env \<Rightarrow> bool" where
  "posts_or_retries E \<longleftrightarrow>
     (\<forall>rank buf n tag c d ctx m l. let st = fst (LCI2_post_send E rank buf n tag c d ctx m l) in is_posted st = (\<not> is_retry st)) \<and>
     (\<forall>rank buf n c rc d ctx m l. let st = fst (LCI2_post_am E rank buf n c rc d ctx m l) in is_posted st = (\<not> is_retry st))"

lemma lci2_posted_moves:
  assumes n: "new_request r s = (p, s1)" and f: "lci2_posted E p x s1 = Inr (ret, s')"
    and x: "is_posted (fst x) = (\<not> is_retry (fst x)) \<or> \<not> outgoing r"
  shows "moves (if ret then as_out r else {#}) {#} s s'"
proof -
  obtain st cbs m l where X: "x = (st, cbs, m, l)" by (cases x) auto
  obtain s2 where s2: "run_handlers cbs (s1\<lparr>mem := m, llib2 := l\<rparr>) = Inr s2"
    and rest: "(if is_retry st then delete_request p s2 else bind_res (lcw_assert (\<not> LCW_DEBUG (build E) \<or> is_posted st) ''Unexpected return value'') (\<lambda>_. Inr s2)) = Inr s'"
    and ret: "ret = is_posted st"
    using f by (auto simp: lci2_posted_def X elim!: bind_resE)
  have h: "heap s1 p = Some r" using n by (auto simp: new_request_def)
  have "moves (as_out r) {#} s (s1\<lparr>mem := m, llib2 := l\<rparr>)" using moves_new_request [OF n] by simp
  then have 1: "moves (as_out r) {#} s s2" using run_handlers_moves [OF s2] by (blast intro: trans_quiet)
  show ?thesis
  proof (cases "is_retry st")
    case False
    then have "s' = s2" using rest by (auto elim!: bind_resE)
    then show ?thesis using 1 x X False ret by (auto simp: as_out_def)
  next
    case True
    then have d: "delete_request p s2 = Inr s'" using rest by simp
    then have "heap s2 p = Some r" using run_handlers_moves [OF s2, of p] h by (auto simp: delete_request_def split: option.splits)
    then have "moves (as_out r) (as_out r) s s'" by (intro moves_trans [OF 1 moves_delete [OF d]]) simp_all
    then have "quiet s s'" by (simp add: moves_def ac_simps)
    then show ?thesis using x X True ret by (auto simp: as_out_def)
  qed
qed

lemma lci2_send_moves:
  assumes "posts_or_retries E" and "lci2_send E d rank tag buf len c ctx s = Inr (ret, s')"
  shows "\<exists>r. posts (Send d rank tag buf len c ctx) r \<and> moves (if ret then {#r#} else {#}) {#} s s'"
proof -
  define r where "r = \<lparr>req_op = SEND, req_device = d, req_rank = rank, req_tag = tag, req_buffer = buf, req_length = len, req_user_context = ctx\<rparr>"
  obtain p s1 where n: "new_request r s = (p, s1)" by (cases "new_request r s")
  obtain dv where f: "lci2_posted E p (LCI2_post_send E rank buf len tag c (di_device (dv :: device_impl_t)) p (mem s1) (llib2 s1)) s1 = Inr (ret, s')"
    using assms(2) n by (auto simp: lci2_send_def r_def elim!: bind_resE)
  have "moves (if ret then as_out r else {#}) {#} s s'"
    by (rule lci2_posted_moves [OF n f]) (use assms(1) in \<open>simp add: posts_or_retries_def Let_def\<close>)
  then show ?thesis by (intro exI [of _ r]) (cases ret; simp add: r_def)
qed

lemma lci2_put_moves:
  assumes "posts_or_retries E" and "lci2_put E d rank buf len c ctx s = Inr (ret, s')"
  shows "\<exists>r. posts (Put d rank buf len c ctx) r \<and> moves (if ret then {#r#} else {#}) {#} s s'"
proof -
  define r where "r = \<lparr>req_op = PUT, req_device = d, req_rank = rank, req_tag = 0, req_buffer = buf, req_length = len, req_user_context = ctx\<rparr>"
  obtain p s1 where n: "new_request r s = (p, s1)" by (cases "new_request r s")
  obtain dv where f: "lci2_posted E p (LCI2_post_am E rank buf len c (di_rcomp (dv :: device_impl_t)) (di_device dv) p (mem s1) (llib2 s1)) s1 = Inr (ret, s')"
    using assms(2) n by (auto simp: lci2_put_def r_def elim!: bind_resE)
  have "moves (if ret then as_out r else {#}) {#} s s'"
    by (rule lci2_posted_moves [OF n f]) (use assms(1) in \<open>simp add: posts_or_retries_def Let_def\<close>)
  then show ?thesis by (intro exI [of _ r]) (cases ret; simp add: r_def)
qed

lemma lci2_recv_quiet:
  assumes "lci2_recv E d rank tag buf len c ctx s = Inr (ret, s')"
  shows "quiet s s'"
proof -
  define r where "r = \<lparr>req_op = RECV, req_device = d, req_rank = rank, req_tag = tag, req_buffer = buf, req_length = len, req_user_context = ctx\<rparr>"
  obtain p s1 where n: "new_request r s = (p, s1)" by (cases "new_request r s")
  obtain dv where f: "lci2_posted E p (LCI2_post_recv E rank buf len tag c (di_device (dv :: device_impl_t)) p (mem s1) (llib2 s1)) s1 = Inr (ret, s')"
    using assms n by (auto simp: lci2_recv_def r_def elim!: bind_resE)
  have "moves (if ret then as_out r else {#}) {#} s s'"
    by (rule lci2_posted_moves [OF n f]) (simp add: r_def outgoing_def)
  then show ?thesis by (cases ret) (simp_all add: r_def)
qed

lemma lci2_poll_moves:
  assumes "lci2_poll_cq E c q s = Inr (ret, q', s')"
  shows "moves {#} (if ret then as_out q' else {#}) s s'"
proof -
  obtain st l where pop: "LCI2_cq_pop E c (llib2 s) = (st, l)" by (cases "LCI2_cq_pop E c (llib2 s)")
  show ?thesis
  proof (cases "is_retry st")
    case True
    then show ?thesis using assms pop by (auto simp: lci2_poll_cq_def)
  next
    case False
    then obtain s1 where s1: "get_request_from_status st (s\<lparr>llib2 := l\<rparr>) = Inr (q', s1)" and ret: ret
      and s': "s' = (case req_op q' of SEND \<Rightarrow> pcounter_add E send_end 1 s1 | RECV \<Rightarrow> pcounter_add E recv_end 1 s1
         | PUT \<Rightarrow> pcounter_add E put_end 1 s1 | PUT_SIGNAL \<Rightarrow> pcounter_add E put_signal 1 s1)"
      using assms pop by (auto simp: lci2_poll_cq_def Let_def elim!: bind_resE)
    have "moves {#} (as_out q') s s1" by (rule quiet_trans [OF _ get_request_moves [OF s1]]) simp
    then show ?thesis using ret s' by (cases "req_op q'") simp_all
  qed
qed

lemma lci2_exactly_once:
  assumes "posts_or_retries E"
  shows "exactly_once (backend_lci2_t E)"
proof (unfold_locales, goal_cases)
  case (1 n c s d s')
  then show ?case by (intro quiet_bump) (auto simp: backend_lci2_t_def lci2_alloc_device_def Let_def split: prod.splits)
next
  case (3 d s ret s')
  then show ?case using run_handlers_moves
    by (fastforce simp: backend_lci2_t_def lci2_do_progress_def Let_def split: prod.splits elim!: bind_resE intro: quiet_trans [rotated])
next
  case (4 f s c s')
  then show ?case using quiet_alloc_comp(1) [of s "Comp_handler f"] by (auto simp: backend_lci2_t_def lci2_alloc_handler_def)
next
  case (5 c s s')
  then show ?case by (intro quiet_alloc_comp(3) [of c]) (simp add: backend_lci2_t_def lci2_free_handler_def util_free_handler_def)
next
  case (8 d s s')
  then show ?case using run_handlers_moves
    by (fastforce simp: backend_lci2_t_def lci2_barrier_def Let_def split: prod.splits elim!: bind_resE intro: quiet_trans [rotated])
next
  case (9 s a)
  then show ?case by (intro quiet_bump) (simp_all add: backend_lci2_t_def lci2_set_custom_allocator_def Let_def)
next
  case (11 d rank tag buf len c ctx s ret s')
  then show ?case by (intro lci2_send_moves [OF assms]) (simp add: backend_lci2_t_def)
next
  case (12 d rank buf len c ctx s ret s')
  then show ?case by (intro lci2_put_moves [OF assms]) (simp add: backend_lci2_t_def)
next
  case (13 c q s ret q' s')
  then show ?case by (intro lci2_poll_moves) (simp add: backend_lci2_t_def)
qed (auto simp: backend_lci2_t_def lci2_free_device_def lci2_alloc_cq_def lci2_free_cq_def Let_def
    split: prod.splits elim!: bind_resE intro: lci2_recv_quiet)

section \<open>The properties\<close>

text \<open>C17: Over the GASNet-EX backend, whatever a program does: the accepted sends and puts are, each exactly
  once and with their arguments, those \<^verbatim>\<open>poll_cq\<close> has returned, those passed to a completion handler,
  and those the library still holds.\<close>

theorem gex_delivers_exactly_once:
  assumes "backend_p s = Some (backend_gex_t E)" and "api_history E cs s = Inr (h, s')"
    and "fresh_ok (inner s)" and "heap (inner s) = Map.empty" and "handled_in (trace (inner s)) = {#}"
  shows "\<exists>ps. list_all2 posts (accepted h) ps \<and>
    mset ps = reported h + out_heap (heap (inner s')) + handled_in (trace (inner s'))"
  by (rule gex_delivery.history_exactly_once [OF assms(1,2,3) _ assms(5)]) (simp add: assms(4))

text \<open>C18: Over the LCI backend, whatever a program does: the accepted sends and puts are, each exactly
  once and with their arguments, those \<^verbatim>\<open>poll_cq\<close> has returned, those passed to a completion handler,
  and those the library still holds.\<close>

theorem lci_delivers_exactly_once:
  assumes "backend_p s = Some (backend_lci_t E)" and "api_history E cs s = Inr (h, s')"
    and "fresh_ok (inner s)" and "heap (inner s) = Map.empty" and "handled_in (trace (inner s)) = {#}"
  shows "\<exists>ps. list_all2 posts (accepted h) ps \<and>
    mset ps = reported h + out_heap (heap (inner s')) + handled_in (trace (inner s'))"
  by (rule lci_delivery.history_exactly_once [OF assms(1,2,3) _ assms(5)]) (simp add: assms(4))

text \<open>C19: Over the LCI2 backend, whatever a program does: the accepted sends and puts are, each exactly
  once and with their arguments, those \<^verbatim>\<open>poll_cq\<close> has returned, those passed to a completion handler,
  and those the library still holds. The library posts an operation or asks for a retry (\<^verbatim>\<open>allow_done(false)\<close>).\<close>

theorem lci2_delivers_exactly_once:
  assumes "backend_p s = Some (backend_lci2_t E)" and "api_history E cs s = Inr (h, s')"
    and "fresh_ok (inner s)" and "heap (inner s) = Map.empty" and "handled_in (trace (inner s)) = {#}" and "posts_or_retries E"
  shows "\<exists>ps. list_all2 posts (accepted h) ps \<and>
    mset ps = reported h + out_heap (heap (inner s')) + handled_in (trace (inner s'))"
  by (rule exactly_once.history_exactly_once [OF lci2_exactly_once [OF assms(6)] assms(1,2,3) _ assms(5)]) (simp add: assms(4))

section \<open>Instances\<close>

lemma ref_lci2_posts_or_retries: "posts_or_retries ref_lci2"
  by (simp add: posts_or_retries_def ref_lci2_def env.defs ref_lci2_post_def is_posted_def is_retry_def Let_def)

definition ref_gex_ready :: "(ptr list, ref_gasnet) gex_st lcw_st" where
  "ref_gex_ready = ref_gex_lcw\<lparr>backend_p := Some (backend_gex_t ref_gex)\<rparr>"

definition ref_gex_posted :: "api_call list" where
  "ref_gex_posted = [Alloc_cq, Alloc_device 64 1, Put 2 0 65 3 1 0, Poll_cq 1 (ref_request RECV 9)]"

lemma ref_gex_history:
  "case api_history ref_gex ref_gex_posted ref_gex_ready of Inl _ \<Rightarrow> False
   | Inr (h, s') \<Rightarrow> accepted h = [Put 2 0 65 3 1 0] \<and> map (\<lambda>(c, ret, r). ret \<and> r \<noteq> None) h = [False, False, False, True]"
  by code_simp

lemma ref_gex_ready_ok:
  "backend_p ref_gex_ready = Some (backend_gex_t ref_gex)" "fresh_ok (inner ref_gex_ready)"
  "heap (inner ref_gex_ready) = Map.empty" "handled_in (trace (inner ref_gex_ready)) = {#}"
  by (simp_all add: ref_gex_ready_def ref_gex_lcw_def ref_gex_st_def ref_rt_def rt.defs fresh_ok_def handled_in_def map_filter_def)

theorem gex_delivers_exactly_once_witness:
  "\<exists>h s' r. api_history ref_gex ref_gex_posted ref_gex_ready = Inr (h, s') \<and> posts (Put 2 0 65 3 1 0) r \<and>
     {#r#} = reported h + out_heap (heap (inner s')) + handled_in (trace (inner s'))"
proof -
  obtain h s' where h: "api_history ref_gex ref_gex_posted ref_gex_ready = Inr (h, s')" "accepted h = [Put 2 0 65 3 1 0]"
    using ref_gex_history by (auto split: sum.splits)
  from gex_delivers_exactly_once [OF ref_gex_ready_ok(1) h(1) ref_gex_ready_ok(2-4)] h
  show ?thesis by (auto simp: list_all2_Cons1)
qed

definition ref_lci_ready :: "(ptr list, ref_lci_lib) lci_st lcw_st" where
  "ref_lci_ready = ref_lci_lcw\<lparr>backend_p := Some (backend_lci_t ref_lci)\<rparr>"

definition ref_lci_posted :: "api_call list" where
  "ref_lci_posted = [Alloc_device 64 9, Put 1 0 65 3 9 0, Poll_cq 9 (ref_request RECV 9)]"

lemma ref_lci_history:
  "case api_history ref_lci ref_lci_posted ref_lci_ready of Inl _ \<Rightarrow> False
   | Inr (h, s') \<Rightarrow> accepted h = [Put 1 0 65 3 9 0] \<and> map (\<lambda>(c, ret, r). ret \<and> r \<noteq> None) h = [False, False, True]"
  by code_simp

lemma ref_lci_ready_ok:
  "backend_p ref_lci_ready = Some (backend_lci_t ref_lci)" "fresh_ok (inner ref_lci_ready)"
  "heap (inner ref_lci_ready) = Map.empty" "handled_in (trace (inner ref_lci_ready)) = {#}"
  by (simp_all add: ref_lci_ready_def ref_lci_lcw_def ref_lci_st_def ref_rt_def rt.defs fresh_ok_def handled_in_def map_filter_def)

theorem lci_delivers_exactly_once_witness:
  "\<exists>h s' r. api_history ref_lci ref_lci_posted ref_lci_ready = Inr (h, s') \<and> posts (Put 1 0 65 3 9 0) r \<and>
     {#r#} = reported h + out_heap (heap (inner s')) + handled_in (trace (inner s'))"
proof -
  obtain h s' where h: "api_history ref_lci ref_lci_posted ref_lci_ready = Inr (h, s')" "accepted h = [Put 1 0 65 3 9 0]"
    using ref_lci_history by (auto split: sum.splits)
  from lci_delivers_exactly_once [OF ref_lci_ready_ok(1) h(1) ref_lci_ready_ok(2-4)] h
  show ?thesis by (auto simp: list_all2_Cons1)
qed

definition ref_lci2_ready :: "(ptr list, status_t list) lci2_st lcw_st" where
  "ref_lci2_ready = ref_lci2_lcw\<lparr>backend_p := Some (backend_lci2_t ref_lci2)\<rparr>"

definition ref_lci2_posted :: "api_call list" where
  "ref_lci2_posted = [Alloc_device 64 9, Send 1 0 5 4096 8 9 0, Poll_cq 9 (ref_request RECV 9)]"

lemma ref_lci2_history:
  "case api_history ref_lci2 ref_lci2_posted ref_lci2_ready of Inl _ \<Rightarrow> False
   | Inr (h, s') \<Rightarrow> accepted h = [Send 1 0 5 4096 8 9 0] \<and> map (\<lambda>(c, ret, r). ret \<and> r \<noteq> None) h = [False, False, True]"
  by code_simp

lemma ref_lci2_ready_ok:
  "backend_p ref_lci2_ready = Some (backend_lci2_t ref_lci2)" "fresh_ok (inner ref_lci2_ready)"
  "heap (inner ref_lci2_ready) = Map.empty" "handled_in (trace (inner ref_lci2_ready)) = {#}"
  by (simp_all add: ref_lci2_ready_def ref_lci2_lcw_def ref_lci2_st_def ref_rt_def rt.defs fresh_ok_def handled_in_def map_filter_def)

theorem lci2_delivers_exactly_once_witness:
  "\<exists>h s' r. api_history ref_lci2 ref_lci2_posted ref_lci2_ready = Inr (h, s') \<and> posts (Send 1 0 5 4096 8 9 0) r \<and>
     {#r#} = reported h + out_heap (heap (inner s')) + handled_in (trace (inner s'))"
proof -
  obtain h s' where h: "api_history ref_lci2 ref_lci2_posted ref_lci2_ready = Inr (h, s')" "accepted h = [Send 1 0 5 4096 8 9 0]"
    using ref_lci2_history by (auto split: sum.splits)
  from lci2_delivers_exactly_once [OF ref_lci2_ready_ok(1) h(1) ref_lci2_ready_ok(2-4) ref_lci2_posts_or_retries] h
  show ?thesis by (auto simp: list_all2_Cons1)
qed

end
