(* ===== verification/LCW_Pingpong_Backends.thy ===== *)
theory LCW_Pingpong_Backends
  imports LCW_Pingpong_Checks LCW_Backends_Delivery
begin

text \<open>
  The benchmark over the backends: what the library promises its clients (\<open>exactly_once\<close>) is enough for
  the assertions of the benchmark on completed sends, and a put through the GASNet-EX backend passes
  the checks at its target.
\<close>

text \<open>C15: The test mode of the benchmark never fails on a completed send: over every backend that delivers
  exactly once (all four do), after a worker has posted a window of sends or puts and waited for any
  number of them, a further completion of a send or put that its waiting loop obtains passes every
  assertion of the benchmark, on device, length, operation, buffer, rank and tag.\<close>

theorem completed_sends_match:
  assumes "exactly_once b" "backend_p s = Some b" "fresh_ok (inner s)" "out_heap (heap (inner s)) = {#}"
    and "cf_op c = SEND \<or> cf_op c = PUT"
    and "0 \<le> wk_iter w" "0 \<le> wk_msg_size w" "int buffer + n * wk_msg_size w < 2 ^ 64"
    and "for_each (post_send E c rand w buffer) [0..n - 1] s = Some (Inr s1)"
    and "for_each (\<lambda>_. wait_send E c w buffer out) js s1 = Some (Inr s2)"
    and "retry (lcw_poll_cq E (wk_scq w) out) (idle E c (wk_device w)) s2 = Some (Inr (r, s3))" "outgoing r"
  shows "check_send c w buffer r = Inr ()"
  using assms(1) by (rule exactly_once.window_checks) (rule assms)+

definition ref_bench :: Config where
  "ref_bench = Config_default\<lparr>cf_op := PUT, cf_nthreads := 1, cf_ndevices := 1, cf_nprgthreads := 0\<rparr>"

definition ref_worker :: worker where
  "ref_worker = \<lparr>wk_id = 0, wk_device = 2, wk_peer = 0, wk_scq = 1, wk_rcq = 1, wk_msg_size = 6, wk_iter = 4\<rparr>"

definition ref_bench_start :: "(ptr list, ref_gasnet) gex_st lcw_st" where
  "ref_bench_start = (case api_history ref_gex [Alloc_cq, Alloc_device 64 1] ref_gex_ready of Inr (_, s) \<Rightarrow> s | Inl _ \<Rightarrow> ref_gex_ready)"

definition ref_rand :: rand_r where
  "ref_rand seed = (7, seed + 1)"

definition ref_put_round where
  "ref_put_round = bind_out (for_each (post_send ref_gex ref_bench ref_rand ref_worker 65) [0..0] ref_bench_start) (\<lambda>s1.
      retry (lcw_poll_cq ref_gex 1 (ref_request RECV 9)) (idle ref_gex ref_bench 2) s1)"

lemma ref_put_round_runs:
  "case ref_put_round of Some (Inr (r, s3)) \<Rightarrow> req_op r = PUT | _ \<Rightarrow> False"
  by code_simp

lemma ref_bench_start_ok:
  "case api_history ref_gex [Alloc_cq, Alloc_device 64 1] ref_gex_ready of Inl _ \<Rightarrow> False | Inr (h, s) \<Rightarrow> accepted h = []"
  by code_simp

lemma ref_bench_start_quiet:
  "backend_p ref_bench_start = Some (backend_gex_t ref_gex)" "fresh_ok (inner ref_bench_start)"
  "out_heap (heap (inner ref_bench_start)) = {#}"
proof -
  obtain h s where h: "api_history ref_gex [Alloc_cq, Alloc_device 64 1] ref_gex_ready = Inr (h, s)" "accepted h = []"
    using ref_bench_start_ok by (auto split: sum.splits)
  then have s: "ref_bench_start = s" by (simp add: ref_bench_start_def)
  obtain ps where ps: "list_all2 posts (accepted h) ps" "moves (mset ps) (reported h) (inner ref_gex_ready) (inner s)"
    "backend_p s = Some (backend_gex_t ref_gex)"
    using gex_delivery.history_moves [OF ref_gex_ready_ok(1) h(1)] by blast
  then show "backend_p ref_bench_start = Some (backend_gex_t ref_gex)" "fresh_ok (inner ref_bench_start)"
    "out_heap (heap (inner ref_bench_start)) = {#}"
    using h(2) ref_gex_ready_ok s by (auto simp: moves_def)
qed

theorem completed_sends_match_witness:
  "\<exists>r s3. ref_put_round = Some (Inr (r, s3)) \<and> check_send ref_bench ref_worker 65 r = Inr ()"
proof -
  obtain s1 r s3 where s1: "for_each (post_send ref_gex ref_bench ref_rand ref_worker 65) [0..1 - 1] ref_bench_start = Some (Inr s1)"
    and r: "retry (lcw_poll_cq ref_gex (wk_scq ref_worker) (ref_request RECV 9)) (idle ref_gex ref_bench (wk_device ref_worker)) s1
      = Some (Inr (r, s3))" "outgoing r" "ref_put_round = Some (Inr (r, s3))"
    using ref_put_round_runs
    by (auto simp: ref_put_round_def bind_out_def ref_worker_def outgoing_def split: option.splits sum.splits prod.splits)
  have "check_send ref_bench ref_worker 65 r = Inr ()"
    by (rule completed_sends_match [OF gex_delivery.exactly_once_axioms ref_bench_start_quiet _ _ _ _ s1 _ r(1,2),
          where js = "[]"]) (simp_all add: ref_bench_def ref_worker_def Config_default_def)
  then show ?thesis using r(3) by blast
qed

text \<open>C16: The two ends of a put agree: a buffer that the benchmark fills with \<^verbatim>\<open>write_buffer\<close> and puts on its
  \<open>i\<close>-th device through the GASNet-EX backend is in flight as one message, and the \<^verbatim>\<open>PUT_SIGNAL\<close>
  request that the target's handler pushes for it passes every assertion of the benchmark's receiving
  side, on operation, length and rank, and the byte-wise check of \<^verbatim>\<open>check_buffer\<close>.\<close>

theorem gex_benchmark_put_checks:
  assumes "gasnet_carries E in_flight" "gex_table s" "i < length (g_devices s)" "int i \<le> int_max"
    and put: "gex_put E (g_devices s ! i) rank buf len c ctx
           (s\<lparr>mem := write_buffer rand buf (nat (to_size len)) seed (mem s)\<rparr>) = Inr (ret, s')"
    and len: "0 \<le> len" "len < 2 ^ 63" and "cf_op cf = PUT"
  shows "\<exists>am. in_flight (glib s') = in_flight (glib s) @ [(rank mod 2 ^ 32, am)] \<and>
    (\<forall>t y a w rbuf. gex_inv E view t \<and> i < length (g_devices t) \<and> gex_devices t (g_devices t ! i) = Some y \<and>
       is_cq (gd_comp y) t \<and> g_allocator_copy t = Some a \<and> allocate E a len (blocks t) \<noteq> nullptr \<and>
       wk_peer w = am_src am \<and> wk_msg_size w = len \<longrightarrow>
       (\<exists>t' r. run_ams E [am] t = Inr t' \<and> cq_contents view (gd_comp y) t' = cq_contents view (gd_comp y) t @ [r] \<and>
         check_recv cf rand w rbuf r (mem t') = Inr ()))"
proof -
  let ?s = "s\<lparr>mem := write_buffer rand buf (nat (to_size len)) seed (mem s)\<rparr>"
  have n: "to_size len = len" using len by simp
  have tab: "gex_table ?s" "i < length (g_devices ?s)" using assms(2,3) by (simp_all add: gex_table_def)
  have put': "gex_put E (g_devices ?s ! i) rank buf len c ctx ?s = Inr (ret, s')" using put by simp
  obtain am where am: "in_flight (glib s') = in_flight (glib s) @ [(rank mod 2 ^ 32, am)]"
    and d: "\<And>t y a b. gex_inv E view t \<and> i < length (g_devices t) \<and> gex_devices t (g_devices t ! i) = Some y \<and>
       is_cq (gd_comp y) t \<and> g_allocator_copy t = Some a \<and> b = allocate E a len (blocks t) \<and> b \<noteq> nullptr \<Longrightarrow>
       (\<exists>t'. run_ams E [am] t = Inr t' \<and> bytes_at (mem t') b (nat len) = bytes_at (mem ?s) buf (nat len) \<and>
         cq_contents view (gd_comp y) t' = cq_contents view (gd_comp y) t @
           [\<lparr>req_op = PUT_SIGNAL, req_device = g_devices t ! i, req_rank = am_src am, req_tag = 0, req_buffer = b,
             req_length = len, req_user_context = nullptr\<rparr>])"
    using gex_put_fate [OF assms(1) tab assms(4) put' len, where view = view] by auto
  have "\<exists>t' r. run_ams E [am] t = Inr t' \<and> cq_contents view (gd_comp y) t' = cq_contents view (gd_comp y) t @ [r] \<and>
         check_recv cf rand w rbuf r (mem t') = Inr ()"
    if t: "gex_inv E view t \<and> i < length (g_devices t) \<and> gex_devices t (g_devices t ! i) = Some y \<and>
       is_cq (gd_comp y) t \<and> g_allocator_copy t = Some a \<and> allocate E a len (blocks t) \<noteq> nullptr \<and>
       wk_peer w = am_src am \<and> wk_msg_size w = len" for t y a w rbuf
  proof -
    let ?b = "allocate E a len (blocks t)"
    obtain t' where t': "run_ams E [am] t = Inr t'" "bytes_at (mem t') ?b (nat len) = bytes_at (mem ?s) buf (nat len)"
      "cq_contents view (gd_comp y) t' = cq_contents view (gd_comp y) t @
           [\<lparr>req_op = PUT_SIGNAL, req_device = g_devices t ! i, req_rank = am_src am, req_tag = 0, req_buffer = ?b,
             req_length = len, req_user_context = nullptr\<rparr>]" using d [of t y a ?b] t by blast
    have "check_buffer rand ?b (nat len) (mem t') = Inr ()"
      using t'(2) n by (intro check_buffer_received [where buf = buf and m = "mem s" and seed = seed]) simp
    then show ?thesis using t'(1,3) t n assms(8) by (auto simp: check_recv_def)
  qed
  then show ?thesis using am by blast
qed

lemma ref_written_put_runs:
  "case ref_gex_setup of Inl _ \<Rightarrow> False | Inr s \<Rightarrow>
     (case gex_put ref_gex 2 0 65 6 1 0 (s\<lparr>mem := write_buffer ref_rand 65 (nat (to_size 6)) 5 (mem s)\<rparr>) of
        Inl _ \<Rightarrow> False | Inr (ret, s') \<Rightarrow> True)"
  by code_simp

theorem gex_benchmark_put_checks_witness:
  "\<exists>s s' ret am t' r. ref_gex_setup = Inr s \<and>
     gex_put ref_gex 2 0 65 6 1 0 (s\<lparr>mem := write_buffer ref_rand 65 6 5 (mem s)\<rparr>) = Inr (ret, s') \<and>
     sent (glib s') = sent (glib s) @ [(0, am)] \<and> run_ams ref_gex [am] s = Inr t' \<and>
     check_recv ref_bench ref_rand (ref_worker\<lparr>wk_peer := am_src am\<rparr>) 65 r (mem t') = Inr ()"
proof -
  obtain s y where s: "ref_gex_setup = Inr s" "gex_inv ref_gex (\<lambda>q. q) s" "g_devices s = [2]" "gex_devices s 2 = Some y"
    "gd_comp y = 1" "is_cq 1 s" "g_allocator_copy s = Some Alloc_default" "blocks s = []" "bytes_at (mem s) 65 3 = [65, 66, 67]"
    by (rule ref_gex_setupE)
  obtain ret s' where p: "gex_put ref_gex (g_devices s ! 0) 0 65 6 1 0
      (s\<lparr>mem := write_buffer ref_rand 65 (nat (to_size 6)) 5 (mem s)\<rparr>) = Inr (ret, s')"
    using ref_written_put_runs [unfolded s(1)] s(3) by (auto split: sum.splits)
  have h: "0 < length (g_devices s)" "int 0 \<le> int_max" "(0::int) \<le> 6" "(6::int) < 2 ^ 63" "cf_op ref_bench = PUT"
    using s(3) by (simp_all add: int_max_def ref_bench_def)
  obtain am where am: "sent (glib s') = sent (glib s) @ [(0, am)]"
    and d: "\<And>t y a w rbuf. gex_inv ref_gex (\<lambda>q. q) t \<and> 0 < length (g_devices t) \<and> gex_devices t (g_devices t ! 0) = Some y \<and>
       is_cq (gd_comp y) t \<and> g_allocator_copy t = Some a \<and> allocate ref_gex a 6 (blocks t) \<noteq> nullptr \<and>
       wk_peer w = am_src am \<and> wk_msg_size w = 6 \<Longrightarrow>
       \<exists>t' r. run_ams ref_gex [am] t = Inr t' \<and> check_recv ref_bench ref_rand w rbuf r (mem t') = Inr ()"
    using gex_benchmark_put_checks [where view = "\<lambda>q. q", OF ref_gex_carries gex_invD(2) [OF s(2)] h(1,2) p h(3-5)]
    by (auto simp del: ref_gex_simps run_ams.simps) blast
  have "\<exists>t' r. run_ams ref_gex [am] s = Inr t' \<and>
      check_recv ref_bench ref_rand (ref_worker\<lparr>wk_peer := am_src am\<rparr>) 65 r (mem t') = Inr ()"
    using s by (intro d [of s y Alloc_default]) (simp add: ref_worker_def)
  moreover have "gex_put ref_gex 2 0 65 6 1 0 (s\<lparr>mem := write_buffer ref_rand 65 6 5 (mem s)\<rparr>) = Inr (ret, s')"
    using p s(3) by simp
  ultimately show ?thesis using s(1) am by blast
qed

end
