(* ===== verification/LCW_Bench_Main.thy ===== *)
theory LCW_Bench_Main
  imports LCW_Pingpong_Checks Complex_Main
begin

text \<open>
  The programs around the worker thread: \<^verbatim>\<open>main\<close> of the benchmark with its options, the progress threads
  and the waiting of \<^verbatim>\<open>src/examples/pingpong_mt.cpp\<close>, and \<^verbatim>\<open>src/examples/hello_world.cpp\<close>. Clocks and the
  thread barrier of LCT are sequences of the answers they give.
\<close>

section \<open>The options\<close>

definition op_of_int :: "int \<Rightarrow> op_t" where
  "op_of_int v = (if v = 0 then SEND else if v = 1 then RECV else if v = 2 then PUT else PUT_SIGNAL)"

text \<open>The names \<^verbatim>\<open>main\<close> registers, in order, with the field of \<^verbatim>\<open>config\<close> the parser stores the value in.\<close>

definition bench_options :: "(string \<times> (int \<Rightarrow> Config \<Rightarrow> Config)) list" where
  "bench_options =
     [(''op'', \<lambda>v c. c\<lparr>cf_op := op_of_int v\<rparr>),
      (''ndevices'', \<lambda>v c. c\<lparr>cf_ndevices := v\<rparr>),
      (''nthreads'', \<lambda>v c. c\<lparr>cf_nthreads := v\<rparr>),
      (''min-size'', \<lambda>v c. c\<lparr>cf_min_size := v\<rparr>),
      (''max-size'', \<lambda>v c. c\<lparr>cf_max_size := v\<rparr>),
      (''niters'', \<lambda>v c. c\<lparr>cf_niters := v\<rparr>),
      (''test-mode'', \<lambda>v c. c\<lparr>cf_test_mode := (v \<noteq> 0)\<rparr>),
      (''pin-thread'', \<lambda>v c. c\<lparr>cf_pin_thread := (v \<noteq> 0)\<rparr>),
      (''nprgthreads'', \<lambda>v c. c\<lparr>cf_nprgthreads := v\<rparr>),
      (''send-window'', \<lambda>v c. c\<lparr>cf_send_window := v\<rparr>),
      (''recv-window'', \<lambda>v c. c\<lparr>cf_recv_window := v\<rparr>),
      (''compute-us'', \<lambda>v c. c\<lparr>cf_compute_us := v\<rparr>),
      (''compute-us-std'', \<lambda>v c. c\<lparr>cf_compute_us_std := v\<rparr>),
      (''max-progress-steps'', \<lambda>v c. c\<lparr>cf_max_progress_steps := v\<rparr>)]"

text \<open>\<^verbatim>\<open>dict\<close>: the words for the operation.\<close>

definition op_dict :: "(string \<times> int) list" where
  "op_dict = [(''send'', 0), (''put'', 2)]"

text \<open>
  \<open>args\<close> is what \<^verbatim>\<open>LCT_args_parser_parse\<close> found on the command line: names of options with their values, a
  word of the dictionary already replaced.
\<close>

definition set_option :: "string \<times> int \<Rightarrow> Config \<Rightarrow> Config" where
  "set_option a c = (case map_of bench_options (fst a) of None \<Rightarrow> c | Some f \<Rightarrow> f (snd a) c)"

definition parse_args :: "(string \<times> int) list \<Rightarrow> Config" where
  "parse_args args = fold set_option args Config_default"

text \<open>Options for different names do not interfere: each has a field of its own.\<close>

lemma options_apart:
  "sorted_wrt (\<lambda>a b. \<forall>v w c. snd a v (snd b w c) = snd b w (snd a v c)) bench_options"
  by (simp add: bench_options_def)

lemma set_option_commute:
  assumes "fst a \<noteq> fst b"
  shows "set_option a (set_option b c) = set_option b (set_option a c)"
proof -
  have "f v (g w c) = g w (f v c)" if f: "(x, f) \<in> set bench_options" and g: "(y, g) \<in> set bench_options" and "x \<noteq> y" for x y f g v w
  proof -
    obtain i j where i: "i < length bench_options" "bench_options ! i = (x, f)" and j: "j < length bench_options" "bench_options ! j = (y, g)"
      using f g by (metis in_set_conv_nth)
    then have "i < j \<or> j < i" using \<open>x \<noteq> y\<close> by (metis linorder_neqE_nat prod.inject)
    then show ?thesis using i j sorted_wrt_nth_less [OF options_apart] by (metis snd_conv)
  qed
  then show ?thesis using assms by (auto simp: set_option_def split: option.splits dest!: map_of_SomeD)
qed

lemma set_option_last: "fst a = fst b \<Longrightarrow> set_option a (set_option b c) = set_option a c"
proof -
  have "f v (f w c) = f v c" if "(x, f) \<in> set bench_options" for x f v w
    using that by (auto simp: bench_options_def)
  then show "fst a = fst b \<Longrightarrow> set_option a (set_option b c) = set_option a c"
    by (auto simp: set_option_def split: option.splits dest!: map_of_SomeD)
qed

text \<open>So the order of the options on the command line does not matter.\<close>

lemma parse_args_order:
  assumes "distinct (map fst args)" and "mset args' = mset args"
  shows "parse_args args' = parse_args args"
proof -
  have "set_option a \<circ> set_option b = set_option b \<circ> set_option a" if "a \<in> set args" "b \<in> set args" for a b
  proof (cases "a = b")
    case False
    then have "fst a \<noteq> fst b" using assms(1) that by (meson distinct_map inj_onD)
    then show ?thesis by (simp add: fun_eq_iff set_option_commute)
  qed simp
  then have "fold set_option args = fold set_option args'" using assms(2) by (intro fold_multiset_equiv) auto
  then show ?thesis by (simp add: parse_args_def)
qed

section \<open>Waiting\<close>

text \<open>
  \<^verbatim>\<open>do_computation\<close>: \<open>now k\<close> is the \<open>k\<close>-th reading of \<^verbatim>\<open>LCT_now\<close> and \<open>to_us\<close> is \<^verbatim>\<open>LCT_time_to_us\<close>. \<open>sample\<close> is the
  draw from the normal distribution. \<^verbatim>\<open>rand_generator\<close> is null unless \<^verbatim>\<open>worker_thread_fn\<close> made it.
\<close>

partial_function (option) compute_loop :: "(nat \<Rightarrow> 64 word) \<Rightarrow> (64 word \<Rightarrow> real) \<Rightarrow> int \<Rightarrow> nat \<Rightarrow> nat option" where
  "compute_loop now to_us compute_us k =
     (if to_us (now k - now 0) < of_int compute_us then compute_loop now to_us compute_us (Suc k) else Some k)"

definition has_generator :: "Config \<Rightarrow> bool" where
  "has_generator c \<longleftrightarrow> cf_compute_us c > 0 \<and> cf_compute_us_std c > 0"

definition do_computation :: "Config \<Rightarrow> (nat \<Rightarrow> 64 word) \<Rightarrow> (64 word \<Rightarrow> real) \<Rightarrow> int \<Rightarrow> nat outcome" where
  "do_computation c now to_us sample =
     (if cf_compute_us c = 0 then Some (Inr 0)
      else bind_out (Some (if cf_compute_us_std c > 0
                           then if has_generator c then normal_rand_get (cf_compute_us c) (cf_compute_us_std c) sample
                                else Inl Bad_pointer
                           else Inr (cf_compute_us c))) (\<lambda>compute_us.
           map_option Inr (compute_loop now to_us compute_us 1)))"

lemma compute_loop_first:
  assumes "k \<le> m" "\<forall>j. k \<le> j \<and> j < m \<longrightarrow> to_us (now j - now 0) < of_int us" "\<not> to_us (now m - now 0) < of_int us"
  shows "compute_loop now to_us us k = Some m"
  using assms
proof (induction "m - k" arbitrary: k)
  case 0
  then show ?case by (simp add: compute_loop.simps [of now to_us us k])
next
  case (Suc x)
  then have "compute_loop now to_us us (Suc k) = Some m" by (intro Suc.hyps) auto
  then show ?case using Suc by (simp add: compute_loop.simps [of now to_us us k])
qed

lemma compute_loop_ends:
  assumes "of_int us \<le> to_us (now m - now 0)" and "k \<le> m"
  shows "\<exists>j. compute_loop now to_us us k = Some j \<and> of_int us \<le> to_us (now j - now 0)"
proof -
  let ?P = "\<lambda>j. k \<le> j \<and> of_int us \<le> to_us (now j - now 0)"
  define j where "j = (LEAST j. ?P j)"
  have j: "?P j" unfolding j_def using LeastI [of ?P m] assms by blast
  have "to_us (now i - now 0) < of_int us" if "k \<le> i \<and> i < j" for i
    using that not_less_Least [of i ?P] unfolding j_def by auto
  then show ?thesis using compute_loop_first [of k j to_us now us] j by auto
qed

lemma normal_rand_bounds:
  assumes "is_int (3 * std)" "is_int (mean - 3 * std)" "is_int (mean + 3 * std)" "0 \<le> std"
  obtains v where "normal_rand_get mean std sample = Inr v" "mean - 3 * std \<le> v" "v \<le> mean + 3 * std"
  using assms by (auto simp: normal_rand_get_def Let_def)

text \<open>\<^verbatim>\<open>do_computation\<close> ends: whatever the generator draws, it waits until between \<open>3\<close> standard deviations below
  and above the mean have passed, and returns once the clock has gone that far (without a standard
  deviation it waits for the mean). A negative mean with a positive deviation follows a null pointer.\<close>

theorem computation_ends:
  assumes "is_int (3 * cf_compute_us_std c)" "is_int (cf_compute_us c - 3 * cf_compute_us_std c)"
    "is_int (cf_compute_us c + 3 * cf_compute_us_std c)" and "0 \<le> cf_compute_us_std c" and "0 < cf_compute_us c"
    and "1 \<le> m" and "of_int (cf_compute_us c + 3 * cf_compute_us_std c) \<le> to_us (now m - now 0)"
  shows "(\<exists>k. do_computation c now to_us sample = Some (Inr k) \<and>
      of_int (cf_compute_us c - 3 * cf_compute_us_std c) \<le> to_us (now k - now 0)) \<and>
    (\<forall>c'. cf_compute_us c' < 0 \<and> cf_compute_us_std c' > 0 \<longrightarrow> do_computation c' now to_us sample = Some (Inl Bad_pointer))"
proof
  obtain us where us: "(if cf_compute_us_std c > 0
        then if has_generator c then normal_rand_get (cf_compute_us c) (cf_compute_us_std c) sample else Inl Bad_pointer
        else Inr (cf_compute_us c)) = Inr us" "cf_compute_us c - 3 * cf_compute_us_std c \<le> us" "us \<le> cf_compute_us c + 3 * cf_compute_us_std c"
  proof -
    obtain v where v: "normal_rand_get (cf_compute_us c) (cf_compute_us_std c) sample = Inr v"
      "cf_compute_us c - 3 * cf_compute_us_std c \<le> v" "v \<le> cf_compute_us c + 3 * cf_compute_us_std c"
      by (rule normal_rand_bounds [OF assms(1-4)])
    show thesis
      using that [of "if cf_compute_us_std c > 0 then v else cf_compute_us c"] v assms(4,5) by (auto simp: has_generator_def)
  qed
  have "(of_int us :: real) \<le> of_int (cf_compute_us c + 3 * cf_compute_us_std c)" using us(3) by simp
  then have "of_int us \<le> to_us (now m - now 0)" using assms(7) by linarith
  then obtain k where k: "compute_loop now to_us us 1 = Some k" "of_int us \<le> to_us (now k - now 0)"
    using compute_loop_ends assms(6) by blast
  have "(of_int (cf_compute_us c - 3 * cf_compute_us_std c) :: real) \<le> of_int us" using us(2) by (simp only: of_int_le_iff)
  then show "\<exists>k. do_computation c now to_us sample = Some (Inr k) \<and>
      of_int (cf_compute_us c - 3 * cf_compute_us_std c) \<le> to_us (now k - now 0)"
    using us(1) k assms(5) unfolding do_computation_def by (intro exI [of _ k]) simp
  show "\<forall>c'. cf_compute_us c' < 0 \<and> cf_compute_us_std c' > 0 \<longrightarrow> do_computation c' now to_us sample = Some (Inl Bad_pointer)"
    by (simp add: do_computation_def has_generator_def)
qed

theorem computation_ends_witness:
  "\<exists>k. do_computation (Config_default\<lparr>cf_compute_us := 10, cf_compute_us_std := 2\<rparr>) (\<lambda>k. of_nat (7 * k)) unsigned 100 =
     Some (Inr k) \<and> (4 :: real) \<le> unsigned (of_nat (7 * k) :: 64 word)"
proof -
  let ?c = "Config_default\<lparr>cf_compute_us := 10, cf_compute_us_std := 2\<rparr>" and ?now = "\<lambda>k. of_nat (7 * k) :: 64 word"
  have "\<exists>k. do_computation ?c ?now unsigned 100 = Some (Inr k) \<and>
      of_int (cf_compute_us ?c - 3 * cf_compute_us_std ?c) \<le> (unsigned (?now k - ?now 0) :: real)"
    by (rule computation_ends [THEN conjunct1, of ?c 3]) (simp_all add: is_int_def)
  then show ?thesis by simp
qed

text \<open>
  \<^verbatim>\<open>tbarrier_wait_progress\<close>: \<open>opens k\<close> is the answer of the \<open>k\<close>-th \<^verbatim>\<open>LCT_tbarrier_test\<close>. As in the waiting loops,
  \<^verbatim>\<open>do_progress(device.device)\<close> is \<^verbatim>\<open>lcw::do_progress\<close>. The result counts the tests that failed.
\<close>

definition tbarrier_wait_progress ::
  "('q, 'e) env_scheme \<Rightarrow> (nat \<Rightarrow> bool) \<Rightarrow> ptr \<Rightarrow> ('q, 'z) rt_scheme lcw_st \<Rightarrow> (nat \<times> ('q, 'z) rt_scheme lcw_st) outcome" where
  "tbarrier_wait_progress E opens d s =
     bind_out (retry (\<lambda>(k, s). Inr (opens k, (), (k, s)))
                 (\<lambda>(k, s). bind_res (lcw_do_progress E d s) (\<lambda>(_, s). Inr (Suc k, s))) (0, s))
       (\<lambda>(_, s). Some (Inr s))"

section \<open>A progress thread\<close>

text \<open>\<open>stop k\<close> is the value of \<^verbatim>\<open>progress_thread_stop\<close> before round \<open>k\<close>; both barriers of \<^verbatim>\<open>tbarrier_all\<close> let it pass.\<close>

partial_function (option) progress_loop ::
  "(('q, 'z) rt_scheme lcw_st \<Rightarrow> ('q, 'z) rt_scheme lcw_st res) \<Rightarrow> (nat \<Rightarrow> bool) \<Rightarrow> nat \<Rightarrow> ('q, 'z) rt_scheme lcw_st \<Rightarrow>
   (nat \<times> ('q, 'z) rt_scheme lcw_st) outcome" where
  "progress_loop body stop k s =
     (if stop k then Some (Inr (k, s))
      else case body s of Inl e \<Rightarrow> Some (Inl e) | Inr s \<Rightarrow> progress_loop body stop (Suc k) s)"

definition progress_thread_fn ::
  "('q, 'e) env_scheme \<Rightarrow> Config \<Rightarrow> ptr list \<Rightarrow> int \<Rightarrow> (nat \<Rightarrow> bool) \<Rightarrow> ('q, 'z) rt_scheme lcw_st \<Rightarrow>
   (nat \<times> ('q, 'z) rt_scheme lcw_st) outcome" where
  "progress_thread_fn E c devs progress_id stop s =
     bind_out (Some (progress_devices c (int (length devs)) progress_id)) (\<lambda>is.
     progress_loop (progress_each E devs is) stop 0 s)"

section \<open>The programs\<close>

text \<open>
  The end of \<^verbatim>\<open>main\<close>: a run with one thread returns; otherwise the threads of both pools are running on the
  shared state.
\<close>

datatype 's main_end = Returned 's | Spawned pools 's

definition bench_main ::
  "('q, 'e) env_scheme \<Rightarrow> (string \<rightharpoonup> string) \<Rightarrow> (backend_t \<Rightarrow> ('q, 'z) rt_scheme backend_base_t) \<Rightarrow> nat \<Rightarrow> memalign \<Rightarrow> int \<Rightarrow>
   rand_r \<Rightarrow> request_t \<Rightarrow> (string \<times> int) list \<Rightarrow> ('q, 'z) rt_scheme lcw_st \<Rightarrow> ('q, 'z) rt_scheme lcw_st main_end outcome" where
  "bench_main E getenv class_of nprocessors memalign pagesize rand out args s =
     (let c = parse_args args in
      bind_out (Some (lcw_initialize E getenv class_of AUTO s)) (\<lambda>s.
      bind_out (Some (lcw_get_rank s)) (\<lambda>_.
      bind_out (Some (if cf_ndevices c < 0 then Inl (Exception ''std::length_error'') else Inr ())) (\<lambda>_.
      bind_out (Some (spawn_threads c nprocessors)) (\<lambda>p.
      if cf_nthreads c = 1
      then bind_out (worker_thread_fn E c memalign pagesize rand out s) (\<lambda>s.
           bind_out (Some (lcw_finalize E s)) (\<lambda>s. Some (Inr (Returned s))))
      else Some (Inr (Spawned p s)))))))"

definition hello_world ::
  "('q, 'e) env_scheme \<Rightarrow> (string \<rightharpoonup> string) \<Rightarrow> (backend_t \<Rightarrow> ('q, 'z) rt_scheme backend_base_t) \<Rightarrow> string \<Rightarrow>
   ('q, 'z) rt_scheme lcw_st \<Rightarrow> ((string \<times> int \<times> int) \<times> ('q, 'z) rt_scheme lcw_st) res" where
  "hello_world E getenv class_of hostname s =
     bind_res (lcw_initialize E getenv class_of AUTO s) (\<lambda>s.
     bind_res (lcw_get_rank s) (\<lambda>rank.
     bind_res (lcw_get_nranks s) (\<lambda>nranks.
     bind_res (lcw_finalize E s) (\<lambda>s. Inr ((hostname, rank, nranks), s)))))"

section \<open>Properties\<close>

text \<open>\<open>k\<close> steps of progress.\<close>

fun progress_times ::
  "('q, 'e) env_scheme \<Rightarrow> ptr \<Rightarrow> nat \<Rightarrow> ('q, 'z) rt_scheme lcw_st \<Rightarrow> ('q, 'z) rt_scheme lcw_st res" where
  "progress_times E d 0 s = Inr s"
| "progress_times E d (Suc k) s = bind_res (lcw_do_progress E d s) (\<lambda>(_, s). progress_times E d k s)"

text \<open>A thread that waits at a barrier with \<^verbatim>\<open>tbarrier_wait_progress\<close> makes progress on its device once per test that
  fails, and returns at the first test that succeeds; an error of progress ends the wait.\<close>

theorem barrier_wait_makes_progress:
  fixes s :: "('q, 'z) rt_scheme lcw_st"
  assumes "opens k" and "\<forall>j<k. \<not> opens j"
  shows "tbarrier_wait_progress E opens d s = Some (bind_res (progress_times E d k s) (\<lambda>s. Inr (k, s)))"
proof -
  let ?call = "\<lambda>(k, s :: ('q, 'z) rt_scheme lcw_st). Inr (opens k, (), (k, s))"
    and ?idle = "\<lambda>(k, s :: ('q, 'z) rt_scheme lcw_st). bind_res (lcw_do_progress E d s) (\<lambda>(_, s). Inr (Suc k, s))"
  have "retry ?call ?idle (j, s) = Some (bind_res (progress_times E d (k - j) s) (\<lambda>s. Inr ((), (k, s))))" if "j \<le> k" for j s
    using that
  proof (induction "k - j" arbitrary: j s)
    case 0
    then show ?case using assms(1) by (simp add: retry.simps [of ?call])
  next
    case (Suc x)
    then have j: "j < k" "\<not> opens j" "k - j = Suc (k - Suc j)" "x = k - Suc j" using assms(2) by auto
    have IH: "retry ?call ?idle (Suc j, s) = Some (bind_res (progress_times E d (k - Suc j) s) (\<lambda>s. Inr ((), (k, s))))" for s
      using Suc.hyps(1) [of "Suc j" s] j by simp
    show ?case using j IH by (cases "lcw_do_progress E d s") (auto simp: retry.simps [of ?call _ "(j, s)"])
  qed
  from this [of 0 s] show ?thesis
    by (cases "progress_times E d k s") (simp_all add: tbarrier_wait_progress_def)
qed

theorem barrier_wait_makes_progress_witness:
  "\<forall>E d s. tbarrier_wait_progress E (\<lambda>k. k = 2) d s = Some (bind_res (progress_times E d 2 s) (\<lambda>s. Inr (2, s)))"
  by (intro allI barrier_wait_makes_progress) simp_all

text \<open>C38: The benchmark with one thread does not end unless it was started with one device, whatever else is on
  the command line, and the later of two values for an option counts.\<close>

theorem main_needs_one_device:
  assumes "cf_ndevices (parse_args args) \<noteq> 1" and "is_int (cf_ndevices (parse_args args))"
  shows "bench_main E getenv class_of nprocessors memalign pagesize rand out args s \<noteq> Some (Inr (Returned s'))"
  using assms single_worker_turn by (fastforce simp: bench_main_def Let_def split: if_splits elim!: bind_outE)

theorem main_needs_one_device_witness:
  "\<forall>E getenv class_of nprocessors memalign pagesize rand out s s'.
     bench_main E getenv class_of nprocessors memalign pagesize rand out
       [(''nthreads'', 1), (''nprgthreads'', 0), (''ndevices'', 1), (''ndevices'', 4)] s \<noteq> Some (Inr (Returned s'))"
  by (intro allI main_needs_one_device) (simp_all add: parse_args_def set_option_def bench_options_def is_int_def)

end
