(* ===== verification/LCW_Comm_Exp.thy ===== *)
theory LCW_Comm_Exp
  imports LCW_Bench
begin

text \<open>
  The helpers of \<^verbatim>\<open>src/examples/comm_exp.hpp\<close> beside the test buffers: the barrier of threads \<^verbatim>\<open>cpp_barrier\<close>,
  as a step relation over all interleavings of the threads that call \<^verbatim>\<open>wait\<close>, the cycle counter with
  busy waiting, and the pinning of threads.
\<close>

section \<open>The barrier\<close>

text \<open>
  \<open>Arriving\<close> is a thread that has not got the mutex in \<^verbatim>\<open>wait\<close>, \<open>Sleeping\<close> one inside \<^verbatim>\<open>_cv.wait\<close>, \<open>Awake\<close> one
  that has been notified or has woken up spuriously and is about to test the predicate. What a thread does while it holds the
  mutex is one step.
\<close>

datatype barrier_pc = Arriving | Sleeping | Awake | Passed

type_synonym cpp_barrier = "barrier_pc list \<times> 64 word"

definition notify_all :: "barrier_pc list \<Rightarrow> barrier_pc list" where
  "notify_all ps = map (\<lambda>p. if p = Sleeping then Awake else p) ps"

definition barrier_arrive :: "nat \<Rightarrow> cpp_barrier \<Rightarrow> cpp_barrier" where
  "barrier_arrive i b =
     (let c = snd b - 1
      in if c = 0 then (notify_all ((fst b)[i := Passed]), c) else ((fst b)[i := Sleeping], c))"

definition barrier_test :: "nat \<Rightarrow> cpp_barrier \<Rightarrow> cpp_barrier" where
  "barrier_test i b = ((fst b)[i := if snd b = 0 then Passed else Sleeping], snd b)"

inductive barrier_step :: "cpp_barrier \<Rightarrow> cpp_barrier \<Rightarrow> bool" where
  arrive: "i < length ps \<Longrightarrow> ps ! i = Arriving \<Longrightarrow> barrier_step (ps, c) (barrier_arrive i (ps, c))"
| test: "i < length ps \<Longrightarrow> ps ! i = Awake \<Longrightarrow> barrier_step (ps, c) (barrier_test i (ps, c))"
| spurious: "i < length ps \<Longrightarrow> ps ! i = Sleeping \<Longrightarrow> barrier_step (ps, c) (ps[i := Awake], c)"

definition barrier_inv :: "nat \<Rightarrow> cpp_barrier \<Rightarrow> bool" where
  "barrier_inv n b \<longleftrightarrow> length (fst b) = n \<and> unat (snd b) = count_list (fst b) Arriving \<and>
     (snd b = 0 \<longrightarrow> Sleeping \<notin> set (fst b)) \<and> (snd b \<noteq> 0 \<longrightarrow> Passed \<notin> set (fst b))"

lemma count_list_update:
  "i < length xs \<Longrightarrow> count_list (xs[i := y]) x + of_bool (xs ! i = x) = count_list xs x + of_bool (y = x)"
proof (induction xs arbitrary: i)
  case (Cons z xs)
  then show ?case by (cases i) auto
qed simp

lemma notify_all_facts:
  "length (notify_all ps) = length ps" "Sleeping \<notin> set (notify_all ps)"
  "x \<noteq> Sleeping \<Longrightarrow> x \<noteq> Awake \<Longrightarrow> count_list (notify_all ps) x = count_list ps x"
  by (auto simp: notify_all_def) (induction ps; auto)

lemma barrier_step_inv:
  assumes "barrier_step b b'" and I: "barrier_inv n b"
  shows "barrier_inv n b'"
  using assms(1)
proof cases
  case (arrive i ps c)
  have I': "length ps = n" "unat c = count_list ps Arriving" "c = 0 \<longrightarrow> Sleeping \<notin> set ps" "c \<noteq> 0 \<longrightarrow> Passed \<notin> set ps"
    using I arrive(1) by (simp_all add: barrier_inv_def)
  have "0 < count_list ps Arriving" using arrive(3,4) by (metis count_list_0_iff neq0_conv nth_mem)
  then have c: "c \<noteq> 0" using I'(2) by (metis less_irrefl unat_0)
  then have u: "unat (c - 1) = unat c - 1" by (simp add: unat_minus_one)
  have k: "count_list (ps[i := x]) Arriving = count_list ps Arriving - 1" if "x \<noteq> Arriving" for x
    using count_list_update [OF arrive(3), of x Arriving] arrive(4) that by simp
  show ?thesis
  proof (cases "c - 1 = 0")
    case True
    then show ?thesis using I' u k [of Passed] arrive(2)
      by (simp add: barrier_arrive_def barrier_inv_def notify_all_facts)
  next
    case False
    have "Passed \<notin> set (ps[i := Sleeping])" using I'(4) c by (auto dest!: subsetD [OF set_update_subset_insert])
    then show ?thesis using False I' u k [of Sleeping] arrive(2) by (simp add: barrier_arrive_def barrier_inv_def)
  qed
next
  case (test i ps c)
  have I': "length ps = n" "unat c = count_list ps Arriving" "c = 0 \<longrightarrow> Sleeping \<notin> set ps" "c \<noteq> 0 \<longrightarrow> Passed \<notin> set ps"
    using I test(1) by (simp_all add: barrier_inv_def)
  have "count_list (ps[i := x]) Arriving = count_list ps Arriving" if "x \<noteq> Arriving" for x
    using count_list_update [OF test(3), of x Arriving] test(4) that by simp
  then show ?thesis using I' test(2) by (auto simp: barrier_test_def barrier_inv_def dest!: subsetD [OF set_update_subset_insert])
next
  case (spurious i ps c)
  have I': "length ps = n" "unat c = count_list ps Arriving" "c = 0 \<longrightarrow> Sleeping \<notin> set ps" "c \<noteq> 0 \<longrightarrow> Passed \<notin> set ps"
    using I spurious(1) by (simp_all add: barrier_inv_def)
  have "count_list (ps[i := Awake]) Arriving = count_list ps Arriving"
    using count_list_update [OF spurious(3), of Awake Arriving] spurious(4) by simp
  then show ?thesis using I' spurious(2) by (auto simp: barrier_inv_def dest!: subsetD [OF set_update_subset_insert])
qed

text \<open>\<open>n\<close> threads call \<^verbatim>\<open>wait\<close> on a barrier with the given \<^verbatim>\<open>_count\<close>.\<close>

definition barrier_start :: "nat \<Rightarrow> 64 word \<Rightarrow> cpp_barrier" where
  "barrier_start n c = (replicate n Arriving, c)"

lemma count_list_replicate: "count_list (replicate n x) x = n"
  by (induction n) simp_all

lemma barrier_run_inv:
  assumes "barrier_step\<^sup>*\<^sup>* (barrier_start n (of_nat n)) b" and "0 < n" "n < 2 ^ 64"
  shows "barrier_inv n b"
  using assms(1)
proof (induction rule: rtranclp_induct)
  case base
  have "unat (of_nat n :: 64 word) = n" using assms(3) by (simp add: unat_of_nat)
  then show ?case using assms(2) by (auto simp: barrier_inv_def barrier_start_def count_list_replicate)
next
  case (step b b')
  then show ?case by (blast intro: barrier_step_inv)
qed

definition barrier_left :: "cpp_barrier \<Rightarrow> nat" where
  "barrier_left b = count_list (fst b) Arriving + length (filter (\<lambda>p. p \<noteq> Passed) (fst b))"

lemma length_filter_update:
  "i < length xs \<Longrightarrow> length (filter P (xs[i := y])) + of_bool (P (xs ! i)) = length (filter P xs) + of_bool (P y)"
proof (induction xs arbitrary: i)
  case (Cons z xs)
  then show ?case by (cases i) auto
qed simp

text \<open>As long as a thread has not passed, some thread has a step that brings the barrier closer to its end.\<close>

lemma barrier_progress:
  assumes I: "barrier_inv n b" and b: "\<exists>p\<in>set (fst b). p \<noteq> Passed"
  shows "\<exists>b'. barrier_step b b' \<and> barrier_left b' < barrier_left b"
proof -
  obtain ps c where bc: "b = (ps, c)" by (cases b)
  show ?thesis
  proof (cases "Arriving \<in> set ps")
    case True
    then obtain i where i: "i < length ps" "ps ! i = Arriving" by (auto simp: in_set_conv_nth)
    have left: "barrier_left (ps[i := x], d) < barrier_left b" if "x \<noteq> Arriving" for x d
      using count_list_update [OF i(1), of x Arriving] length_filter_update [OF i(1), of "\<lambda>p. p \<noteq> Passed" x] i(2) that
      by (cases "x = Passed") (simp_all add: barrier_left_def bc)
    have "length (filter (\<lambda>p. p \<noteq> Passed) (notify_all qs)) = length (filter (\<lambda>p. p \<noteq> Passed) qs)" for qs
      by (induction qs) (auto simp: notify_all_def)
    then have "barrier_left (notify_all (ps[i := Passed]), d) = barrier_left (ps[i := Passed], d)" for d
      by (simp add: barrier_left_def notify_all_facts)
    then have "barrier_left (barrier_arrive i (ps, c)) < barrier_left b"
      using left [of Passed "c - 1"] left [of Sleeping "c - 1"] by (auto simp: barrier_arrive_def Let_def barrier_left_def)
    then show ?thesis using barrier_step.arrive [OF i] bc by blast
  next
    case False
    then have "unat c = 0" using I by (simp add: barrier_inv_def bc)
    then have c: "c = 0" by (simp add: unat_eq_0)
    then have "Sleeping \<notin> set ps" using I by (simp add: barrier_inv_def bc)
    then obtain i where i: "i < length ps" "ps ! i = Awake"
      using b False bc by (metis barrier_pc.exhaust fst_conv in_set_conv_nth)
    have "barrier_left (barrier_test i (ps, c)) < barrier_left b"
      using count_list_update [OF i(1), of Passed Arriving] length_filter_update [OF i(1), of "\<lambda>p. p \<noteq> Passed" Passed] i(2) c
      by (simp add: barrier_left_def barrier_test_def bc)
    then show ?thesis using barrier_step.test [OF i] bc by blast
  qed
qed

lemma barrier_opens:
  assumes "barrier_inv n b"
  shows "\<exists>b'. barrier_step\<^sup>*\<^sup>* b b' \<and> fst b' = replicate n Passed"
  using assms
proof (induction "barrier_left b" arbitrary: b rule: less_induct)
  case less
  show ?case
  proof (cases "\<exists>p\<in>set (fst b). p \<noteq> Passed")
    case True
    then obtain b1 where b1: "barrier_step b b1" "barrier_left b1 < barrier_left b" using barrier_progress [OF less.prems] by blast
    then obtain b' where "barrier_step\<^sup>*\<^sup>* b1 b'" "fst b' = replicate n Passed" using less.hyps barrier_step_inv less.prems by blast
    then show ?thesis using b1(1) by (blast intro: converse_rtranclp_into_rtranclp)
  next
    case False
    then have "fst b = replicate n Passed" using less.prems by (metis barrier_inv_def replicate_length_same)
    then show ?thesis by blast
  qed
qed



text \<open>
  The count is never set back: a barrier through which all threads have passed and that they use again
  lets nobody pass.
\<close>

definition reused_inv :: "nat \<Rightarrow> cpp_barrier \<Rightarrow> bool" where
  "reused_inv n b \<longleftrightarrow> length (fst b) = n \<and> snd b + of_nat n = of_nat (count_list (fst b) Arriving) \<and> Passed \<notin> set (fst b) \<and>
     (Awake \<in> set (fst b) \<or> Sleeping \<in> set (fst b) \<longrightarrow> snd b \<noteq> 0)"

lemma reused_step:
  assumes "barrier_step b b'" and n: "n < 2 ^ 64" and I: "reused_inv n b"
  shows "reused_inv n b'"
proof -
  have "unat (of_nat k :: 64 word) = k" if "k \<le> n" for k using n that by (simp add: unat_of_nat)
  then have inj: "(of_nat k :: 64 word) = of_nat n \<Longrightarrow> k = n" if "k \<le> n" for k using that by (metis order_refl)
  from assms(1) show ?thesis
  proof cases
    case (arrive i ps c)
    have I': "length ps = n" "c + of_nat n = of_nat (count_list ps Arriving)" "Passed \<notin> set ps"
      using I arrive(1) by (simp_all add: reused_inv_def)
    have k: "count_list (ps[i := Sleeping]) Arriving + 1 = count_list ps Arriving"
      using count_list_update [OF arrive(3), of Sleeping Arriving] arrive(4) by simp
    then have c: "c - 1 + of_nat n = of_nat (count_list (ps[i := Sleeping]) Arriving)"
      using I'(2) by (simp add: algebra_simps flip: k)
    have "count_list (ps[i := Sleeping]) Arriving < n"
      using k count_le_length [of ps Arriving] I'(1) by simp
    then have "c - 1 \<noteq> 0" using inj [of "count_list (ps[i := Sleeping]) Arriving"] c by auto
    then show ?thesis using I' c arrive(2)
      by (auto simp: barrier_arrive_def reused_inv_def Let_def dest!: subsetD [OF set_update_subset_insert])
  next
    case (test i ps c)
    have "Awake \<in> set ps" using test(3,4) by (metis nth_mem)
    then have "c \<noteq> 0" using I test(1) by (simp add: reused_inv_def)
    moreover have "count_list (ps[i := Sleeping]) Arriving = count_list ps Arriving"
      using count_list_update [OF test(3), of Sleeping Arriving] test(4) by simp
    ultimately show ?thesis using I test(1,2)
      by (auto simp: barrier_test_def reused_inv_def dest!: subsetD [OF set_update_subset_insert])
  next
    case (spurious i ps c)
    have "Sleeping \<in> set ps" using spurious(3,4) by (metis nth_mem)
    then have "c \<noteq> 0" using I spurious(1) by (simp add: reused_inv_def)
    moreover have "count_list (ps[i := Awake]) Arriving = count_list ps Arriving"
      using count_list_update [OF spurious(3), of Awake Arriving] spurious(4) by simp
    ultimately show ?thesis using I spurious(1,2)
      by (auto simp: reused_inv_def dest!: subsetD [OF set_update_subset_insert])
  qed
qed

lemma cpp_barrier_single_use:
  assumes "n < 2 ^ 64" and "barrier_step\<^sup>*\<^sup>* (barrier_start n 0) b"
  shows "Passed \<notin> set (fst b)"
proof -
  have "reused_inv n b" using assms(2)
  proof (induction rule: rtranclp_induct)
    case (step b b')
    then show ?case by (blast intro: reused_step [OF _ assms(1)])
  qed (auto simp: barrier_start_def reused_inv_def count_list_replicate)
  then show ?thesis by (simp add: reused_inv_def)
qed

section \<open>Busy waiting on the cycle counter\<close>

text \<open>The two halves that \<^verbatim>\<open>rdtsc\<close> leaves in the registers, put together.\<close>

definition get_rdtsc :: "32 word \<times> 32 word \<Rightarrow> 64 word" where
  "get_rdtsc r = (case r of (hi, lo) \<Rightarrow> ucast lo OR push_bit 32 (ucast hi))"

text \<open>\<open>tsc k\<close> is what the \<open>k\<close>-th \<^verbatim>\<open>rdtsc\<close> leaves. The result is the number of readings after the first.\<close>

partial_function (option) busywait_loop :: "(nat \<Rightarrow> 32 word \<times> 32 word) \<Rightarrow> 64 word \<Rightarrow> nat \<Rightarrow> nat option" where
  "busywait_loop tsc start_plus_delay k =
     (if get_rdtsc (tsc k) < start_plus_delay then busywait_loop tsc start_plus_delay (Suc k) else Some k)"

declare busywait_loop.simps [code]

definition busywait_cyc :: "(nat \<Rightarrow> 32 word \<times> 32 word) \<Rightarrow> 64 word \<Rightarrow> nat option" where
  "busywait_cyc tsc delay = busywait_loop tsc (get_rdtsc (tsc 0) + delay) 1"

lemma get_rdtsc_value: "unat (get_rdtsc (hi, lo)) = unat hi * 2 ^ 32 + unat lo"
proof -
  have l: "unat lo < 2 ^ 32" "unat hi < 2 ^ 32" using unsigned_less [of lo] unsigned_less [of hi] by simp_all
  have "unat hi * 2 ^ 32 < 2 ^ 64" using l(2) by simp
  then have h: "unat (push_bit 32 (ucast hi :: 64 word)) = unat hi * 2 ^ 32"
    using l(2) unfolding unsigned_push_bit_eq by (simp add: unsigned_ucast_eq push_bit_eq_mult take_bit_eq_mod)
  have "unat (get_rdtsc (hi, lo)) = unat lo OR unat hi * 2 ^ 32"
    using l(1) h by (simp add: get_rdtsc_def unsigned_or_eq unsigned_ucast_eq take_bit_eq_mod)
  also have "\<dots> = unat lo + unat hi * 2 ^ 32"
  proof (rule disjunctive_add_eq_or [symmetric])
    have "take_bit 32 (unat lo) = unat lo" using l(1) by (simp add: take_bit_nat_eq_self)
    then have "\<not> bit (unat lo) n" if "32 \<le> n" for n using that by (metis bit_take_bit_iff leD)
    then show "unat lo AND unat hi * 2 ^ 32 = 0"
      unfolding push_bit_eq_mult [symmetric] by (auto simp: bit_eq_iff bit_and_iff bit_push_bit_iff)
  qed
  finally show ?thesis by simp
qed

lemma busywait_first:
  assumes "k \<le> m" "\<forall>j. k \<le> j \<and> j < m \<longrightarrow> get_rdtsc (tsc j) < lim" "\<not> get_rdtsc (tsc m) < lim"
  shows "busywait_loop tsc lim k = Some m"
  using assms
proof (induction "m - k" arbitrary: k)
  case 0
  then show ?case by (simp add: busywait_loop.simps [of tsc lim k])
next
  case (Suc x)
  then have "busywait_loop tsc lim (Suc k) = Some m" by (intro Suc.hyps) auto
  then show ?case using Suc by (simp add: busywait_loop.simps [of tsc lim k])
qed

text \<open>\<^verbatim>\<open>busywait_cyc\<close> waits for the given number of cycles and ends, when the counter goes that far and the
  sum of its start value and the delay fits 64 bits. When the sum wraps around, it does not wait at all:
  it returns after one more reading of a counter that does not go backwards.\<close>

theorem busywait_waits:
  assumes "\<And>k. get_rdtsc (tsc k) \<le> get_rdtsc (tsc (Suc k))"
    and "unat (get_rdtsc (tsc 0)) + unat delay \<le> unat (get_rdtsc (tsc m))" and "0 < m"
  shows "(\<exists>k. busywait_cyc tsc delay = Some k \<and> unat (get_rdtsc (tsc 0)) + unat delay \<le> unat (get_rdtsc (tsc k))) \<and>
    (\<forall>long. 2 ^ 64 \<le> unat (get_rdtsc (tsc 0)) + unat long \<longrightarrow> busywait_cyc tsc long = Some 1)"
proof
  let ?lim = "get_rdtsc (tsc 0) + delay"
  have lim: "unat ?lim = unat (get_rdtsc (tsc 0)) + unat delay"
    using assms(2) unsigned_less [of "get_rdtsc (tsc m)", where ?'a = nat] by (intro unat_add_lem [THEN iffD1]) simp
  define k where "k = (LEAST k. 0 < k \<and> \<not> get_rdtsc (tsc k) < ?lim)"
  have ex: "0 < m \<and> \<not> get_rdtsc (tsc m) < ?lim" using assms(2,3) lim by (simp add: word_less_nat_alt)
  have k: "0 < k" "\<not> get_rdtsc (tsc k) < ?lim" unfolding k_def using LeastI [of "\<lambda>k. 0 < k \<and> \<not> get_rdtsc (tsc k) < ?lim", OF ex] by auto
  have below: "get_rdtsc (tsc j) < ?lim" if "1 \<le> j \<and> j < k" for j
    using that not_less_Least [of j "\<lambda>k. 0 < k \<and> \<not> get_rdtsc (tsc k) < ?lim"] unfolding k_def by auto
  have "busywait_cyc tsc delay = Some k" unfolding busywait_cyc_def using k below by (intro busywait_first) auto
  moreover have "unat (get_rdtsc (tsc 0)) + unat delay \<le> unat (get_rdtsc (tsc k))" using k(2) lim by (simp add: word_less_nat_alt)
  ultimately show "\<exists>k. busywait_cyc tsc delay = Some k \<and> unat (get_rdtsc (tsc 0)) + unat delay \<le> unat (get_rdtsc (tsc k))" by blast
  show "\<forall>long. 2 ^ 64 \<le> unat (get_rdtsc (tsc 0)) + unat long \<longrightarrow> busywait_cyc tsc long = Some 1"
  proof (intro allI impI)
    fix long :: "64 word" assume w: "2 ^ 64 \<le> unat (get_rdtsc (tsc 0)) + unat long"
    have l: "unat (get_rdtsc (tsc 0)) < 2 ^ 64" "unat long < 2 ^ 64"
      using unsigned_less [of "get_rdtsc (tsc 0)", where ?'a = nat] unsigned_less [of long, where ?'a = nat] by simp_all
    have "unat (get_rdtsc (tsc 0) + long) = (unat (get_rdtsc (tsc 0)) + unat long) mod 2 ^ 64" by (simp add: unat_word_ariths)
    also have "\<dots> = unat (get_rdtsc (tsc 0)) + unat long - 2 ^ 64" using w l by (simp add: le_mod_geq)
    finally have "get_rdtsc (tsc 0) + long < get_rdtsc (tsc 0)" using w l by (simp add: word_less_nat_alt)
    then have "\<not> get_rdtsc (tsc 1) < get_rdtsc (tsc 0) + long" using assms(1) [of 0] by auto
    then show "busywait_cyc tsc long = Some 1" by (simp add: busywait_cyc_def busywait_loop.simps [of tsc _ "Suc 0"])
  qed
qed

theorem busywait_waits_witness:
  "\<exists>k. busywait_cyc (\<lambda>k. (0, if k < 5 then of_nat (3 * k) else 15)) 10 = Some k \<and>
     10 \<le> unat (get_rdtsc (0, if k < 5 then of_nat (3 * k) else 15))"
proof -
  let ?tsc = "\<lambda>k. (0, if k < 5 then of_nat (3 * k) else 15) :: 32 word \<times> 32 word"
  have v: "unat (get_rdtsc (?tsc k)) = min (3 * k) 15" for k by (auto simp: get_rdtsc_value unat_word_ariths unat_of_nat)
  have "get_rdtsc (?tsc k) \<le> get_rdtsc (?tsc (Suc k))" for k unfolding word_le_nat_alt v by simp
  moreover have "unat (get_rdtsc (?tsc 0)) + unat (10 :: 64 word) \<le> unat (get_rdtsc (?tsc 4))" unfolding v by simp
  ultimately show ?thesis using busywait_waits [of ?tsc 10 4] unfolding v by simp
qed

section \<open>Pinning a thread\<close>

text \<open>\<open>setaffinity\<close> is the return value of \<^verbatim>\<open>pthread_setaffinity_np\<close> for the set with that processor.\<close>

definition set_affinity :: "(nat \<Rightarrow> int) \<Rightarrow> nat \<Rightarrow> unit res" where
  "set_affinity setaffinity target = (if setaffinity target \<noteq> 0 then Inl (Exit 1) else Inr ())"

end
