(* ===== verification/LCW_Logger.thy ===== *)
theory LCW_Logger
  imports LCW_Prelude
begin

text \<open>
  The logger (\<^verbatim>\<open>src/src/logger\<close>): the table of levels handed to LCT, where its settings come from, and the
  macros. LCT decides what is printed; a failing assertion aborts the process.
\<close>

datatype LCW_log_level_t =
  LCW_LOG_ERROR | LCW_LOG_WARN | LCW_LOG_DIAG | LCW_LOG_INFO | LCW_LOG_DEBUG | LCW_LOG_TRACE

text \<open>The value of an enumerator, and the one after the last.\<close>

primrec log_level_index :: "LCW_log_level_t \<Rightarrow> nat" where
  "log_level_index LCW_LOG_ERROR = 0"
| "log_level_index LCW_LOG_WARN = 1"
| "log_level_index LCW_LOG_DIAG = 2"
| "log_level_index LCW_LOG_INFO = 3"
| "log_level_index LCW_LOG_DEBUG = 4"
| "log_level_index LCW_LOG_TRACE = 5"

definition LCW_LOG_MAX :: nat where
  "LCW_LOG_MAX = 6"

text \<open>The designated initializers of \<^verbatim>\<open>log_levels\<close>.\<close>

definition log_levels :: "(LCW_log_level_t \<times> string) list" where
  "log_levels =
     [(LCW_LOG_ERROR, ''error''), (LCW_LOG_WARN, ''warn''), (LCW_LOG_DIAG, ''diag''), (LCW_LOG_INFO, ''info''),
      (LCW_LOG_DEBUG, ''debug''), (LCW_LOG_TRACE, ''trace'')]"

text \<open>The array an initializer list with designators describes: position \<open>i\<close> holds the last string given for it.\<close>

definition level_array :: "(LCW_log_level_t \<times> string) list \<Rightarrow> string option list" where
  "level_array inits =
     fold (\<lambda>(l, s) xs. (if log_level_index l < length xs then xs else xs @ replicate (Suc (log_level_index l) - length xs) None)
       [log_level_index l := Some s]) inits []"

text \<open>The arguments of \<^verbatim>\<open>LCT_log_ctx_alloc\<close>.\<close>

record log_ctx =
  lc_levels :: "string option list"
  lc_nlevels :: nat
  lc_default :: LCW_log_level_t
  lc_name :: string
  lc_outfile :: "string option"
  lc_level :: "string option"
  lc_whitelist :: "string option"
  lc_blacklist :: "string option"

definition LCWI_log_init :: "(string \<rightharpoonup> string) \<Rightarrow> log_ctx" where
  "LCWI_log_init getenv =
     \<lparr>lc_levels = level_array log_levels, lc_nlevels = length (level_array log_levels), lc_default = LCW_LOG_WARN,
      lc_name = ''LCW'', lc_outfile = getenv ''LCW_LOG_OUTFILE'', lc_level = getenv ''LCW_LOG_LEVEL'',
      lc_whitelist = getenv ''LCW_LOG_WHITELIST'', lc_blacklist = getenv ''LCW_LOG_BLACKLIST''\<rparr>"

text \<open>
  The macros for debugging check and print only in a build with \<^verbatim>\<open>LCW_DEBUG\<close>; otherwise their arguments are not
  evaluated.
\<close>

definition LCW_DBG_Assert :: "bool \<Rightarrow> bool \<Rightarrow> string \<Rightarrow> unit res" where
  "LCW_DBG_Assert lcw_debug b msg = (if lcw_debug then lcw_assert b msg else Inr ())"

definition LCW_Warn :: "'a \<Rightarrow> LCW_log_level_t \<times> string \<times> 'a" where
  "LCW_Warn msg = (LCW_LOG_WARN, ''warn'', msg)"

lemma LCW_DBG_Assert_eq: "LCW_DBG_Assert d b msg = lcw_assert (\<not> d \<or> b) msg"
  by (simp add: LCW_DBG_Assert_def)

text \<open>Every level has a name and the count is \<^verbatim>\<open>LCW_LOG_MAX\<close>: LCT never looks up a level outside the table.\<close>

lemma log_table_complete:
  "lc_nlevels (LCWI_log_init getenv) = LCW_LOG_MAX \<and> log_level_index l < LCW_LOG_MAX \<and>
   (\<exists>name. lc_levels (LCWI_log_init getenv) ! log_level_index l = Some name \<and> map_of log_levels l = Some name)"
  by (cases l) (simp_all add: LCWI_log_init_def level_array_def log_levels_def LCW_LOG_MAX_def numeral_eq_Suc)

end
