(* ===== verification/Spec2Isabelle.thy ===== *)
theory Spec2Isabelle
  imports LCW_Mpi_Routing LCW_Pingpong_Backends LCW_Bench_Main LCW_Comm_Exp LCW_Logger
begin

text \<open>
  LCW, a thin communication layer in C++ over MPI, LCI, LCI2 and GASNet-EX, and what makes it correct.
  All paths are under \<^verbatim>\<open>src/\<close>.

  \<^bold>\<open>The program.\<close> A client calls the functions of \<^verbatim>\<open>src/lcw.cpp\<close>. They forward to the one backend object that
  \<^verbatim>\<open>initialize\<close> made (\<^verbatim>\<open>src/backend/backend.cpp\<close>) and count what they do (\<^verbatim>\<open>src/util/pcounter.cpp\<close>). A client
  posts a send, a receive or a put on a device and names a completion object (\<^verbatim>\<open>src/comp\<close>), a queue it polls
  or a handler that is called; the backend allocates a \<^verbatim>\<open>request_t\<close> for the operation, keeps it while the
  communication library works, and signals it to the completion object once the operation is complete. A put
  completes on the target as a \<^verbatim>\<open>PUT_SIGNAL\<close> request on the completion object of the target's device. The
  ping-pong benchmark (\<^verbatim>\<open>examples/pingpong_mt.cpp\<close>) is such a client.

  \<^bold>\<open>State and errors.\<close> The state of the library is a record (\<open>rt\<close>, extended by each backend): the heap of
  \<^verbatim>\<open>request_t\<close> objects, the completion objects, the byte memory with its allocated blocks, and a trace of calls
  whose effect is outside (handlers, counters, datatypes). A pointer is a natural number with 0 for \<^verbatim>\<open>nullptr\<close>.
  A call returns \<open>error + value\<close>; a failed assertion, a dangling or null pointer, undefined arithmetic and
  exhausted memory are values of the error type. C integers are \<open>int\<close> with the conversions written out
  (\<open>to_int\<close>, \<open>to_size\<close>, \<open>to_int64\<close>), seeds and bytes are machine words.

  \<^bold>\<open>Theories.\<close>
  \<^item> \<open>LCW_Prelude\<close>, \<open>LCW_Types\<close>: errors and sequencing, integer conversions, memory, ownership of heap objects;
    the data of \<^verbatim>\<open>src/api/lcw.hpp\<close> and the shared state.
  \<^item> \<open>LCW_Comp\<close> (\<^verbatim>\<open>src/comp\<close>): queues and handlers. The locale \<open>request_fifo\<close> is a first-in first-out queue of
    requests by value; \<^verbatim>\<open>comp_cq_t\<close> meets it, delivers once and in order and can be drained.
  \<^item> \<open>LCW_Pcounter\<close> (\<^verbatim>\<open>src/util/pcounter\<close>): every counter is registered once.
  \<^item> \<open>LCW_Spinlock\<close> (\<^verbatim>\<open>src/util/spinlock\<close>): the locale \<open>spinlock_contract\<close>, met by both pthread locks; mutual
    exclusion; the class \<^verbatim>\<open>spinlock_t\<close> refines the flag that the other models use.
  \<^item> \<open>LCW_Mpi_Types\<close>, \<open>LCW_Mpi_Bigcount\<close>, \<open>LCW_Mpi_Manager\<close>, \<open>LCW_Mpi_Backend\<close> (\<^verbatim>\<open>src/backend/mpi\<close>): the MPI
    backend with both completion managers and the wrappers for long messages, whose datatypes cover exactly
    the bytes of the buffer.
  \<^item> \<open>LCW_Mpi_Inv\<close>, \<open>LCW_Mpi_Safety\<close>, \<open>LCW_Mpi_Reach\<close>: the invariant of the MPI backend (every request has one
    owner, the throttle counter is exact), kept by every operation, and the reachable states.
    \<open>LCW_Mpi_Calls\<close>, \<open>LCW_Mpi_Progress\<close>: what each call posts, that a completed operation is signalled and an
    arrived put delivered.
  \<^item> \<open>LCW_Mpi_Threads\<close>: \<^verbatim>\<open>send\<close>, \<^verbatim>\<open>recv\<close>, \<^verbatim>\<open>put\<close> and \<^verbatim>\<open>do_progress\<close> of the MPI backend cut into the steps that threads
    interleave, one access to the shared counter, to a lock or to what it protects at a time.
    \<open>LCW_Mpi_Alone\<close>: uninterrupted, the steps are the sequential calls. \<open>LCW_Mpi_Thread_Steps\<close>,
    \<open>LCW_Mpi_Interleaving\<close>: under every interleaving of any number of threads the requests keep one owner each,
    the counter stays exact, the locks exclude and do not deadlock. \<open>LCW_Mpi_Threads_Delivery\<close>: what the threads
    create is reported exactly once or still held. \<open>LCW_Routing\<close>, \<open>LCW_Mpi_Route_Steps\<close>, \<open>LCW_Mpi_Routing\<close>: it
    is reported in the completion queue that the call named. \<open>LCW_Mpi_Managers\<close>: the shared completion managers are
    alive, of the configured class and counted exactly.
  \<^item> \<open>LCW_Api\<close> (\<^verbatim>\<open>src/lcw.cpp\<close>, \<^verbatim>\<open>src/env.cpp\<close>, \<^verbatim>\<open>src/backend/backend.{hpp,cpp}\<close>): the public functions over a record
    of virtual methods; the locale \<open>backend_contract\<close> says what a backend has to keep, and that every program
    over the API then keeps it. \<open>LCW_Runtime\<close>: the MPI backend meets it; life cycle and choice of a backend.
  \<^item> \<open>LCW_Gex\<close> with \<open>LCW_Cq_Owners\<close> (\<^verbatim>\<open>src/backend/gex\<close>), \<open>LCW_Lci\<close> and \<open>LCW_Lci2\<close> with \<open>LCW_Contexts\<close>
    (\<^verbatim>\<open>src/backend/lci\<close>, \<^verbatim>\<open>src/backend/lci2\<close>): the other backends and their interpretations of the contract;
    puts arrive, polls give back what was posted, retries change nothing.
  \<^item> \<open>LCW_Delivery\<close>: the locale \<open>exactly_once\<close>, the promise to clients. What a program posted is, as a multiset
    of requests, what was reported to it plus what went to handlers plus what the library holds.
    \<open>LCW_Mpi_Delivery\<close>, \<open>LCW_Backends_Delivery\<close>: all four backends meet it.
  \<^item> \<open>LCW_Bench\<close>, \<open>LCW_Spread\<close>, \<open>LCW_Sequence\<close> (\<^verbatim>\<open>examples/pingpong_mt.cpp\<close>, \<^verbatim>\<open>examples/comm_exp.hpp\<close>): tags, peers,
    test buffers; the distribution of threads and devices; the turns of the threads that allocate and free
    devices, as a step relation over all interleavings.
    \<open>LCW_Pingpong\<close>: the worker thread. \<open>LCW_Pingpong_Checks\<close>, \<open>LCW_Pingpong_Backends\<close>: when its loops end, that
    its assertions on completed sends hold over every backend, and that a put passes its checks on arrival.
    \<open>LCW_Bench_Main\<close>: \<^verbatim>\<open>main\<close> with its options, progress threads, waiting at barriers and for time to pass; the
    hello-world program. \<open>LCW_Comm_Exp\<close>: the barrier of threads, busy waiting, pinning.
  \<^item> \<open>LCW_Logger\<close> (\<^verbatim>\<open>src/logger\<close>): the table of levels, the settings and the debug macros.

  \<^bold>\<open>Parameters.\<close> Code outside the repository is an argument (\<open>env\<close> and its extensions): the LCT queue
  (\<open>lct_queue_fifo\<close>: it is a first-in first-out queue), the allocator, MPI (its errors are the codes it returns;
  invariants need no hypothesis on it), GASNet-EX (\<open>gasnet_carries\<close>: a request puts one message with the payload
  in flight), LCI and LCI2 (\<open>lci_tracks\<close>, \<open>lci2_tracks\<close>: a context that was accepted is owed until it is
  reported; \<open>posts_or_retries\<close>: an operation posted with \<^verbatim>\<open>allow_done(false)\<close> is posted or to be retried),
  \<^verbatim>\<open>rand_r\<close> and \<^verbatim>\<open>posix_memalign\<close>. Every such hypothesis is met by a concrete instance in the theory that uses it.

  \<^bold>\<open>Loops.\<close> The recursion over lists and numbers ends by construction. A round of \<^verbatim>\<open>manager_req_t\<close> is one test per
  call, and the number of calls that is enough is part of the statement. The loops of the benchmark that
  retry until a call succeeds, and its loop over the sizes, are partial functions into \<open>option\<close> without fuel.

  \<^bold>\<open>Threads.\<close> A step of a thread of the MPI backend runs a whole call of MPI with the stream lock around it, and
  a whole signal or poll of a completion queue: MPI is initialised with \<^verbatim>\<open>MPI_THREAD_MULTIPLE\<close> and the LCT queue
  is safe for threads. Reads that race with a write under a lock (\<^verbatim>\<open>entries.empty()\<close> and the first test of
  \<^verbatim>\<open>put_entry.mpi_req\<close>) read the value of the moment. Devices and completion objects are made and freed while no
  other thread is inside the library.

  \<^bold>\<open>Not modelled.\<close> Calls of the LCI, LCI2 and GASNet-EX backends are sequential: they keep no locks of their own
  and rely on the thread safety of the library below. Of the benchmark, the interleaving of several workers,
  the rates printed in floating point, the wall clock and the unused uniform generator are left out. What the
  logger prints is decided by LCT. \<^verbatim>\<open>examples/mpi\<close> does not use the library.
\<close>

end
